(* ===== verification/Prelude.thy ===== *)
theory Prelude
  imports Main "HOL-Library.Word" "HOL-Library.List_Lexorder"
begin

text \<open>
  Shared vocabulary of the development: the machine integer types, fixed-width big-endian
  byte strings, the interface of a self-delimiting codec, and the small list facts that
  several components need.

  A Rust \<open>u8\<close>, \<open>u16\<close>, \<open>u32\<close> or \<open>u64\<close> is a word of that width; \<open>usize\<close> is the
  64-bit word where its width matters and \<open>nat\<close> where it only counts the elements of a
  list.  A \<open>Vec<u8>\<close> or a byte slice is a list of bytes.
\<close>

unbundle bit_operations_syntax

type_synonym u8 = "8 word"
type_synonym u16 = "16 word"
type_synonym u32 = "32 word"
type_synonym u64 = "64 word"
type_synonym usize = "64 word"
type_synonym u128 = "128 word"
type_synonym bytes = "u8 list"

named_theorems codec_simps \<open>round-trip equations of the codecs\<close>
named_theorems step_simps \<open>unfolding equations of the protocol state machines\<close>

section \<open>Bits of words\<close>

lemma unat_drop_bit_less:
  fixes v :: "'a::len word"
  assumes "n \<noteq> 0" and "unat v \<noteq> 0"
  shows "unat (drop_bit n v) < unat v"
proof -
  have "unat (drop_bit n v) = unat v div 2 ^ n"
    by (simp add: unat_drop_bit_eq) (simp add: drop_bit_eq_div)
  moreover have "(1::nat) < 2 ^ n"
    using assms(1) one_less_power [of "2::nat" n] by simp
  ultimately show ?thesis
    using assms(2) div_less_dividend [of "2 ^ n" "unat v"] by simp
qed

lemma and_0x7f_eq: "(w::'a::len word) AND 0x7f = take_bit 7 w"
  by (simp add: take_bit_eq_mask mask_numeral)

lemma and_0x80_eq_0: "(w::u8) AND 0x80 = 0 \<longleftrightarrow> \<not> bit w 7"
proof -
  have "w AND 2 ^ 7 = 0 \<longleftrightarrow> \<not> bit w 7"
    by (simp only: and_exp_eq_0_iff_not_bit)
  then show ?thesis by simp
qed

lemma or_0x80_eq: "(w::'a::len word) OR 0x80 = set_bit 7 w"
proof -
  have "w OR push_bit 7 1 = set_bit 7 w"
    by (simp add: set_bit_eq_or)
  then show ?thesis by simp
qed

lemma unat_less_exp_iff_drop_bit:
  "unat (w::'a::len word) < 2 ^ n \<longleftrightarrow> drop_bit n w = 0"
proof -
  have "unat (drop_bit n w) = unat w div 2 ^ n"
    by (simp add: unat_drop_bit_eq) (simp add: drop_bit_eq_div)
  then show ?thesis
    by (metis div_eq_0_iff unat_eq_zero power_not_zero zero_neq_numeral)
qed

lemma drop_bit_word_beyond:
  "LENGTH('a) \<le> n \<Longrightarrow> drop_bit n (w::'a::len word) = 0"
  by (rule bit_eqI) (simp add: bit_simps bit_imp_le_length)

lemma drop_bit_0_bitD:
  assumes "drop_bit m (w::'a::len word) = 0" and "bit w i"
  shows "i < m"
proof (rule ccontr)
  assume "\<not> i < m"
  with assms(2) have "bit (drop_bit m w) (i - m)"
    by (simp add: bit_drop_bit_eq)
  with assms(1) show False by simp
qed

text \<open>The standard library's \<open>u64::leading_zeros\<close>.\<close>

definition leading_zeros :: "u64 \<Rightarrow> nat" where
  "leading_zeros w = length (takeWhile (\<lambda>i. \<not> bit w i) (rev [0..<64]))"

lemma leading_zeros_bound:
  assumes "bit w i"
  shows "leading_zeros w \<le> 63 - i" and "i < 64"
proof -
  show i: "i < 64" using assms by (auto dest: bit_imp_le_length)
  define xs where "xs = rev [0..<64::nat]"
  have nth: "xs ! (63 - i) = i"
    using i by (simp add: xs_def rev_nth del: upt_rec_numeral)
  show "leading_zeros w \<le> 63 - i"
  proof (rule ccontr)
    assume "\<not> leading_zeros w \<le> 63 - i"
    then have less: "63 - i < length (takeWhile (\<lambda>i. \<not> bit w i) xs)"
      unfolding leading_zeros_def xs_def by linarith
    from nth_mem [OF this] have "\<not> bit w (takeWhile (\<lambda>i. \<not> bit w i) xs ! (63 - i))"
      by (auto dest: set_takeWhileD)
    then show False
      using takeWhile_nth [OF less] nth assms by simp
  qed
qed

lemma not_bit_leading_zeros:
  assumes "64 - leading_zeros w \<le> i"
  shows "\<not> bit w i"
proof
  assume "bit w i"
  from leading_zeros_bound [OF this] assms show False by simp
qed

section \<open>Searching lists\<close>

text \<open>\<open>Iterator::position\<close>: the index of the first element that satisfies the predicate.\<close>

primrec position :: "('a \<Rightarrow> bool) \<Rightarrow> 'a list \<Rightarrow> nat option" where
  "position P [] = None"
| "position P (x # xs) = (if P x then Some 0 else map_option Suc (position P xs))"

lemma position_eq_None_iff: "position P xs = None \<longleftrightarrow> (\<forall>x \<in> set xs. \<not> P x)"
  by (induction xs) auto

lemma position_eq_Some_iff:
  "position P xs = Some i \<longleftrightarrow> i < length xs \<and> P (xs ! i) \<and> (\<forall>j < i. \<not> P (xs ! j))"
proof (induction xs arbitrary: i)
  case (Cons x xs)
  then show ?case by (cases i) (auto simp: All_less_Suc2)
qed simp

lemma position_split:
  "position P xs = Some i \<Longrightarrow>
   \<exists>ys y zs. xs = ys @ y # zs \<and> length ys = i \<and> P y \<and> (\<forall>z \<in> set ys. \<not> P z)"
proof (induction xs arbitrary: i)
  case (Cons x xs)
  then show ?case
    by (fastforce split: if_splits intro: exI [of _ "[]"] exI [of _ "x # _"])
qed simp

section \<open>Self-delimiting codecs\<close>

text \<open>
  A codec turns a value into bytes such that the decoder reads the value back from the front
  of any longer input and leaves the rest.  The variable-length integers and the fixed-width
  big-endian integers are instances; the change log and the store keys are clients.
\<close>

fun decode_n :: "(bytes \<Rightarrow> ('v \<times> bytes) option) \<Rightarrow> nat \<Rightarrow> bytes \<Rightarrow> ('v list \<times> bytes) option" where
  "decode_n dec 0 bs = Some ([], bs)"
| "decode_n dec (Suc n) bs =
     (case dec bs of
        None \<Rightarrow> None
      | Some (v, rest) \<Rightarrow>
          (case decode_n dec n rest of
             None \<Rightarrow> None
           | Some (vs, rest') \<Rightarrow> Some (v # vs, rest')))"

locale codec =
  fixes enc :: "'v \<Rightarrow> bytes"
    and dec :: "bytes \<Rightarrow> ('v \<times> bytes) option"
  assumes dec_enc: "dec (enc v @ rest) = Some (v, rest)"
begin

lemma dec_enc_nil: "dec (enc v) = Some (v, [])"
  using dec_enc [of v "[]"] by simp

lemma enc_cancel: "enc v @ r = enc w @ s \<longleftrightarrow> v = w \<and> r = s"
  by (metis Pair_inject dec_enc option.inject)

lemma enc_inj: "enc v = enc w \<longleftrightarrow> v = w"
  using enc_cancel [of v "[]" w "[]"] by simp

lemma decode_n_concat: "decode_n dec (length vs) (concat (map enc vs) @ rest) = Some (vs, rest)"
  by (induction vs) (simp_all add: dec_enc)

lemma concat_enc_cancel:
  "length vs = length ws \<Longrightarrow>
   concat (map enc vs) @ r = concat (map enc ws) @ s \<longleftrightarrow> vs = ws \<and> r = s"
  by (metis Pair_inject decode_n_concat option.inject)

end

section \<open>Big-endian byte strings\<close>

text \<open>
  \<open>to_be_bytes\<close> and \<open>from_be_bytes\<close> of the standard library, for a word of \<open>n\<close> bytes.
\<close>

definition to_be_bytes :: "nat \<Rightarrow> 'a::len word \<Rightarrow> bytes" where
  "to_be_bytes n w = map (\<lambda>i. ucast (drop_bit (8 * i) w)) (rev [0..<n])"

definition from_be_bytes :: "bytes \<Rightarrow> 'a::len word" where
  "from_be_bytes bs = foldl (\<lambda>acc b. push_bit 8 acc OR ucast b) 0 bs"

lemma length_to_be_bytes [simp]: "length (to_be_bytes n w) = n"
  by (simp add: to_be_bytes_def)

lemma to_be_bytes_Suc:
  "to_be_bytes (Suc n) w = ucast (drop_bit (8 * n) w) # to_be_bytes n w"
  by (simp add: to_be_bytes_def)

lemma foldl_be_to_be_bytes:
  fixes w :: "'a::len word"
  shows "foldl (\<lambda>acc b. push_bit 8 acc OR ucast b) (drop_bit (8 * n) w) (to_be_bytes n w) = w"
proof (induction n)
  case 0
  then show ?case by (simp add: to_be_bytes_def)
next
  case (Suc n)
  have "push_bit 8 (drop_bit (8 * Suc n) w) OR ucast (ucast (drop_bit (8 * n) w) :: u8)
      = drop_bit (8 * n) w"
  proof (rule bit_eqI)
    fix i
    have "8 * Suc n + (i - 8) = 8 * n + i" if "8 \<le> i"
      using that by simp
    then show "bit (push_bit 8 (drop_bit (8 * Suc n) w) OR ucast (ucast (drop_bit (8 * n) w) :: u8)) i
        = bit (drop_bit (8 * n) w) i"
      by (cases "8 \<le> i") (auto simp: bit_simps simp del: mult_Suc_right dest: bit_imp_le_length)
  qed
  with Suc show ?case by (simp add: to_be_bytes_Suc)
qed

lemma from_be_to_be_bytes:
  fixes w :: "'a::len word"
  assumes "LENGTH('a) \<le> 8 * n"
  shows "from_be_bytes (to_be_bytes n w) = w"
  using foldl_be_to_be_bytes [of n w] assms by (simp add: from_be_bytes_def drop_bit_word_beyond)

end
