(* ===== verification/Leb128.thy ===== *)
theory Leb128
  imports Prelude
begin

text \<open>
  The variable-length integer codec, \<open>utils/src/codec/leb128.rs\<close>.

  The macro \<open>impl_unsigned_leb128\<close> defines the same functions for every unsigned type, with
  the list of shifts as its parameter.  Here the functions are defined once for a word of any
  length; the decoders take the list of shifts, and \<open>shifts_u8\<close> to \<open>shifts_usize\<close> are the
  lists of the five macro calls.  An iterator over bytes is the list of the bytes it has left.

  The lemmas show that the decoders read back what the encoder wrote and stop right after it
  for every type but \<open>u8\<close>, whose shift list is one entry short, that no shorter byte string
  decodes to the same value, and that skipping a value consumes what decoding it consumes.
\<close>

section \<open>The shifts of the macro calls\<close>

definition shifts_u8 :: "nat list" where
  "shifts_u8 = [0]"

definition shifts_u16 :: "nat list" where
  "shifts_u16 = [0, 7, 14]"

definition shifts_u32 :: "nat list" where
  "shifts_u32 = [0, 7, 14, 21, 28]"

definition shifts_u64 :: "nat list" where
  "shifts_u64 = [0, 7, 14, 21, 28, 35, 42, 49, 56, 63]"

definition shifts_usize :: "nat list" where
  "shifts_usize = [0, 7, 14, 21, 28, 35, 42, 49, 56, 63]"

section \<open>Encoding\<close>

function to_leb128_bytes :: "'a::len word \<Rightarrow> bytes" where
  "to_leb128_bytes value =
     (if unat value < 0x80 then [ucast value]
      else ucast ((value AND 0x7f) OR 0x80) # to_leb128_bytes (drop_bit 7 value))"
  by pat_completeness auto
termination
  by (relation "measure unat") (auto intro!: unat_drop_bit_less)

declare to_leb128_bytes.simps [simp del]

text \<open>
  The same loop over an output stream.  \<open>write\<close> is the stream's \<open>std::io::Write::write\<close>: it
  takes the bytes to write and returns the new stream and the number of bytes it accepted, or
  an error, which ends the loop.
\<close>

function to_leb128_writer ::
  "('w \<Rightarrow> bytes \<Rightarrow> 'e + ('w \<times> nat)) \<Rightarrow> 'a::len word \<Rightarrow> 'w \<Rightarrow> nat \<Rightarrow> 'e + ('w \<times> nat)" where
  "to_leb128_writer write value out bytes_written =
     (if unat value < 0x80 then
        (case write out [ucast value] of
           Inl e \<Rightarrow> Inl e
         | Inr (out', n) \<Rightarrow> Inr (out', bytes_written + n))
      else
        (case write out [ucast ((value AND 0x7f) OR 0x80)] of
           Inl e \<Rightarrow> Inl e
         | Inr (out', n) \<Rightarrow> to_leb128_writer write (drop_bit 7 value) out' (bytes_written + n)))"
  by pat_completeness auto
termination
  by (relation "measure (\<lambda>(write, value, out, n). unat value)") (auto intro!: unat_drop_bit_less)

declare to_leb128_writer.simps [simp del]

text \<open>\<open>Write for Vec<u8>\<close>: every byte is appended, nothing fails.\<close>

definition vec_write :: "bytes \<Rightarrow> bytes \<Rightarrow> unit + (bytes \<times> nat)" where
  "vec_write out bs = Inr (out @ bs, length bs)"

definition write_leb128 :: "bytes \<Rightarrow> 'a::len word \<Rightarrow> unit + (bytes \<times> nat)" where
  "write_leb128 out value = to_leb128_writer vec_write value out 0"

definition push_leb128 :: "bytes \<Rightarrow> 'a::len word \<Rightarrow> bytes" where
  "push_leb128 out value = out @ to_leb128_bytes value"

section \<open>Decoding\<close>

fun from_leb128_it :: "nat list \<Rightarrow> 'a::len word \<Rightarrow> bytes \<Rightarrow> ('a word \<times> bytes) option" where
  "from_leb128_it [] result it = None"
| "from_leb128_it (shift # shifts) result [] = None"
| "from_leb128_it (shift # shifts) result (byte # it) =
     (if byte AND 0x80 = 0 then Some (result OR push_bit shift (ucast byte), it)
      else from_leb128_it shifts (result OR push_bit shift (ucast (byte AND 0x7F))) it)"

fun from_leb128_bytes_loop :: "nat list \<Rightarrow> 'a::len word \<Rightarrow> bytes \<Rightarrow> 'a word option" where
  "from_leb128_bytes_loop [] result bs = None"
| "from_leb128_bytes_loop (shift # shifts) result [] = None"
| "from_leb128_bytes_loop (shift # shifts) result (byte # bs) =
     (if byte AND 0x80 = 0 then Some (result OR push_bit shift (ucast byte))
      else from_leb128_bytes_loop shifts (result OR push_bit shift (ucast (byte AND 0x7F))) bs)"

definition from_leb128_bytes :: "nat list \<Rightarrow> bytes \<Rightarrow> 'a::len word option" where
  "from_leb128_bytes shifts bs = from_leb128_bytes_loop shifts 0 bs"

fun from_leb128_bytes_pos_loop ::
  "nat list \<Rightarrow> 'a::len word \<Rightarrow> nat \<Rightarrow> bytes \<Rightarrow> ('a word \<times> nat) option" where
  "from_leb128_bytes_pos_loop [] result pos bs = None"
| "from_leb128_bytes_pos_loop (shift # shifts) result pos [] = None"
| "from_leb128_bytes_pos_loop (shift # shifts) result pos (byte # bs) =
     (if byte AND 0x80 = 0 then Some (result OR push_bit shift (ucast byte), pos + 1)
      else from_leb128_bytes_pos_loop shifts (result OR push_bit shift (ucast (byte AND 0x7F)))
             (pos + 1) bs)"

definition from_leb128_bytes_pos :: "nat list \<Rightarrow> bytes \<Rightarrow> ('a::len word \<times> nat) option" where
  "from_leb128_bytes_pos shifts bs = from_leb128_bytes_pos_loop shifts 0 0 bs"

fun skip_leb128_it :: "bytes \<Rightarrow> bytes option" where
  "skip_leb128_it [] = None"
| "skip_leb128_it (byte # it) = (if byte AND 0x80 = 0 then Some it else skip_leb128_it it)"

fun skip_leb128_from :: "nat \<Rightarrow> bytes \<Rightarrow> nat option" where
  "skip_leb128_from pos [] = None"
| "skip_leb128_from pos (byte # bs) =
     (if byte AND 0x80 = 0 then Some (pos + 1) else skip_leb128_from (pos + 1) bs)"

definition skip_leb128 :: "bytes \<Rightarrow> nat option" where
  "skip_leb128 bs = skip_leb128_from 0 bs"

abbreviation next_leb128_u64 :: "bytes \<Rightarrow> (u64 \<times> bytes) option" where
  "next_leb128_u64 it \<equiv> from_leb128_it shifts_u64 0 it"

abbreviation next_leb128_usize :: "bytes \<Rightarrow> (usize \<times> bytes) option" where
  "next_leb128_usize it \<equiv> from_leb128_it shifts_usize 0 it"

section \<open>What the encoder writes, the decoder reads\<close>

lemma leb128_last:
  fixes v :: "'a::len word"
  assumes "unat (drop_bit m v) < 0x80"
  shows "take_bit m v OR push_bit m (ucast (ucast (drop_bit m v) :: u8)) = v"
    and "\<not> bit (ucast (drop_bit m v) :: u8) 7"
proof -
  have hi0: "drop_bit (m + 7) v = 0"
    using assms unat_less_exp_iff_drop_bit [of "drop_bit m v" 7] by (simp add: add.commute)
  note hi = drop_bit_0_bitD [OF hi0]
  show "take_bit m v OR push_bit m (ucast (ucast (drop_bit m v) :: u8)) = v"
    using hi by (intro bit_eqI) (fastforce simp: bit_simps not_le dest: bit_imp_le_length)
  show "\<not> bit (ucast (drop_bit m v) :: u8) 7"
    using hi [of "m + 7"] by (auto simp: bit_simps)
qed

lemma leb128_cont:
  fixes v :: "'a::len word"
  assumes "8 \<le> LENGTH('a)" and b_def: "b = (ucast ((drop_bit m v AND 0x7f) OR 0x80) :: u8)"
  shows "take_bit m v OR push_bit m (ucast (b AND 0x7F)) = take_bit (m + 7) v"
    and "bit b 7"
proof -
  show "bit b 7"
    using assms by (simp add: or_0x80_eq bit_simps)
  show "take_bit m v OR push_bit m (ucast (b AND 0x7F)) = take_bit (m + 7) v"
    unfolding b_def and_0x7f_eq or_0x80_eq
    by (rule bit_eqI) (auto simp: bit_simps not_le dest: bit_imp_le_length)
qed

lemma from_leb128_it_step:
  fixes v :: "'a::len word"
  assumes "LENGTH('a) \<le> 7 * n" and "8 \<le> LENGTH('a)" and "k < n"
  shows "from_leb128_it (map ((*) 7) [k..<n]) (take_bit (7 * k) v)
           (to_leb128_bytes (drop_bit (7 * k) v) @ rest) = Some (v, rest)"
  using assms(3)
proof (induction "n - k" arbitrary: k)
  case 0
  then show ?case by simp
next
  case (Suc d)
  have upt: "[k..<n] = k # [Suc k..<n]"
    using Suc.prems by (simp add: upt_conv_Cons)
  show ?case
  proof (cases "unat (drop_bit (7 * k) v) < 0x80")
    case True
    with leb128_last [of "7 * k" v] upt show ?thesis
      by (simp add: to_leb128_bytes.simps [of "drop_bit (7 * k) v"] and_0x80_eq_0)
  next
    case False
    have "drop_bit (7 + 7 * k) v \<noteq> 0"
      using False unat_less_exp_iff_drop_bit [of "drop_bit (7 * k) v" 7] by simp
    then have "7 + 7 * k < LENGTH('a)"
      by (metis drop_bit_word_beyond not_le)
    then have "Suc k < n" using assms(1) by linarith
    then have IH: "from_leb128_it (map ((*) 7) [Suc k..<n]) (take_bit (7 * Suc k) v)
           (to_leb128_bytes (drop_bit (7 * Suc k) v) @ rest) = Some (v, rest)"
      by (intro Suc.hyps(1)) (use Suc.hyps(2) in linarith)+
    have k7: "7 * Suc k = 7 * k + 7" by simp
    show ?thesis
      using False IH leb128_cont [OF assms(2) refl, of "7 * k" v]
      unfolding k7 upt to_leb128_bytes.simps [of "drop_bit (7 * k) v"]
      by (simp add: and_0x80_eq_0 add.commute)
  qed
qed

lemma from_leb128_it_to_leb128_bytes:
  fixes v :: "'a::len word"
  assumes "LENGTH('a) \<le> 7 * n" and "8 \<le> LENGTH('a)"
  shows "from_leb128_it (map ((*) 7) [0..<n]) 0 (to_leb128_bytes v @ rest) = Some (v, rest)"
proof -
  have "0 < n" using assms by (cases n) auto
  with from_leb128_it_step [OF assms, of 0 v rest] show ?thesis by simp
qed

lemma shifts_upt:
  "shifts_u16 = map ((*) 7) [0..<3]"
  "shifts_u32 = map ((*) 7) [0..<5]"
  "shifts_u64 = map ((*) 7) [0..<10]"
  "shifts_usize = map ((*) 7) [0..<10]"
  by (simp_all add: shifts_u16_def shifts_u32_def shifts_u64_def shifts_usize_def upt_rec)

interpretation leb_u16: codec "to_leb128_bytes :: u16 \<Rightarrow> bytes" "from_leb128_it shifts_u16 0"
  by unfold_locales (simp add: shifts_upt(1) from_leb128_it_to_leb128_bytes del: upt_rec_numeral)

interpretation leb_u32: codec "to_leb128_bytes :: u32 \<Rightarrow> bytes" "from_leb128_it shifts_u32 0"
  by unfold_locales (simp add: shifts_upt(2) from_leb128_it_to_leb128_bytes del: upt_rec_numeral)

interpretation leb_u64: codec "to_leb128_bytes :: u64 \<Rightarrow> bytes" "from_leb128_it shifts_u64 0"
  by unfold_locales (simp add: shifts_upt(3) from_leb128_it_to_leb128_bytes del: upt_rec_numeral)

interpretation leb_usize: codec "to_leb128_bytes :: usize \<Rightarrow> bytes" "from_leb128_it shifts_usize 0"
  by unfold_locales (simp add: shifts_upt(4) from_leb128_it_to_leb128_bytes del: upt_rec_numeral)

lemmas leb128_codec_simps [codec_simps] =
  leb_u16.dec_enc leb_u32.dec_enc leb_u64.dec_enc leb_usize.dec_enc
  leb_u16.dec_enc_nil leb_u32.dec_enc_nil leb_u64.dec_enc_nil leb_usize.dec_enc_nil

section \<open>The other decoders agree with the iterator\<close>

lemma from_leb128_it_length:
  "from_leb128_it shifts result bs = Some (v, rest) \<Longrightarrow> length rest < length bs"
  by (induction shifts result bs rule: from_leb128_it.induct) (auto split: if_splits)

lemma from_leb128_bytes_loop_eq:
  "from_leb128_bytes_loop shifts result bs = map_option fst (from_leb128_it shifts result bs)"
  by (induction shifts result bs rule: from_leb128_bytes_loop.induct) simp_all

lemma from_leb128_bytes_pos_loop_eq:
  "from_leb128_bytes_pos_loop shifts result pos bs =
     map_option (\<lambda>(v, rest). (v, pos + (length bs - length rest)))
       (from_leb128_it shifts result bs)"
proof (induction shifts result pos bs rule: from_leb128_bytes_pos_loop.induct)
  case (3 shift shifts result pos byte bs)
  then show ?case
    by (cases "from_leb128_it shifts (result OR push_bit shift (ucast (byte AND 0x7F))) bs")
      (auto dest: from_leb128_it_length)
qed simp_all

lemma skip_leb128_it_eq:
  "from_leb128_it shifts result bs = Some (v, rest) \<Longrightarrow> skip_leb128_it bs = Some rest"
  by (induction shifts result bs rule: from_leb128_it.induct) (auto split: if_splits)

lemma skip_leb128_it_length: "skip_leb128_it bs = Some rest \<Longrightarrow> length rest < length bs"
  by (induction bs) (auto split: if_splits)

lemma skip_leb128_from_eq:
  "skip_leb128_from pos bs =
     map_option (\<lambda>rest. pos + (length bs - length rest)) (skip_leb128_it bs)"
proof (induction pos bs rule: skip_leb128_from.induct)
  case (2 pos byte bs)
  then show ?case
    by (cases "skip_leb128_it bs") (auto dest: skip_leb128_it_length)
qed simp

text \<open>
  C22: For \<open>u64\<close> (the type of document, change and queue identifiers) all readers agree on what
  the encoder wrote, whatever bytes follow: decoding from the iterator gives the value and
  leaves exactly the bytes that follow, the position-returning decoder reports the length of
  the encoding, and both skip functions step over exactly the encoding.
\<close>

theorem leb128_u64_readers_agree:
  "from_leb128_it shifts_u64 0 (to_leb128_bytes (v::u64) @ rest) = Some (v, rest) \<and>
   from_leb128_bytes shifts_u64 (to_leb128_bytes v @ rest) = Some v \<and>
   from_leb128_bytes_pos shifts_u64 (to_leb128_bytes v @ rest) = Some (v, length (to_leb128_bytes v)) \<and>
   skip_leb128_it (to_leb128_bytes v @ rest) = Some rest \<and>
   skip_leb128 (to_leb128_bytes v @ rest) = Some (length (to_leb128_bytes v))"
  using skip_leb128_it_eq [OF leb_u64.dec_enc, of v rest]
  by (simp add: codec_simps from_leb128_bytes_def from_leb128_bytes_loop_eq
      from_leb128_bytes_pos_def from_leb128_bytes_pos_loop_eq skip_leb128_def skip_leb128_from_eq)

section \<open>Length of an encoding\<close>

lemma length_to_leb128_bytes_le:
  fixes v :: "'a::len word"
  assumes "unat v < 2 ^ (7 * Suc c)"
  shows "length (to_leb128_bytes v) \<le> Suc c"
  using assms
proof (induction c arbitrary: v)
  case 0
  then show ?case by (simp add: to_leb128_bytes.simps [of v])
next
  case (Suc c)
  have "unat (drop_bit 7 v) = unat v div 2 ^ 7"
    by (simp add: unat_drop_bit_eq) (simp add: drop_bit_eq_div)
  also have "\<dots> < 2 ^ (7 * Suc c)"
    using Suc.prems by (simp add: power_add less_mult_imp_div_less)
  finally have "length (to_leb128_bytes (drop_bit 7 v)) \<le> Suc c"
    by (rule Suc.IH)
  then show ?case by (subst to_leb128_bytes.simps) simp
qed

lemma from_leb128_it_bound:
  fixes r :: "'a::len word"
  assumes "from_leb128_it (map ((*) 7) [k..<n]) r bs = Some (v, rest)"
    and "take_bit (7 * k) r = r"
  shows "take_bit (7 * (k + (length bs - length rest))) v = v"
  using assms
proof (induction "n - k" arbitrary: k r bs)
  case 0
  then show ?case by simp
next
  case (Suc d)
  then have upt: "[k..<n] = k # [Suc k..<n]"
    by (simp add: upt_conv_Cons)
  have lo: "\<not> bit r i" if "7 * k \<le> i" for i
    using Suc.prems(2) that by (metis bit_take_bit_iff leD)
  have seven: "i < 7" if "bit b i" "\<not> bit b 7" for b :: u8 and i
  proof -
    from that(1) have "i < 8" by (auto dest: bit_imp_le_length)
    with that show ?thesis by (cases "i = 7") auto
  qed
  obtain b bs' where bs: "bs = b # bs'"
    using Suc.prems(1) upt by (cases bs) auto
  have upd: "take_bit (7 * Suc k) (r OR push_bit (7 * k) (ucast c)) = r OR push_bit (7 * k) (ucast c)"
    if "\<not> bit c 7" for c :: u8
    using lo seven [OF _ that] by (intro bit_eqI) (fastforce simp: bit_simps not_le)
  show ?case
  proof (cases "b AND 0x80 = 0")
    case True
    with Suc.prems(1) upt bs upd [of b] show ?thesis
      by (auto simp: and_0x80_eq_0)
  next
    case False
    let ?r' = "r OR push_bit (7 * k) (ucast (b AND 0x7F))"
    have "\<not> bit (b AND 0x7F) 7" by (simp add: and_0x7f_eq bit_simps)
    from Suc.hyps(1) [of "Suc k" ?r' bs'] upd [OF this] Suc.prems(1) Suc.hyps(2) False upt bs
    have "take_bit (7 * (Suc k + (length bs' - length rest))) v = v" by simp
    moreover have "length rest < length bs'"
      using Suc.prems(1) False upt bs by (auto dest: from_leb128_it_length)
    ultimately show ?thesis by (simp add: bs Suc_diff_le)
  qed
qed

text \<open>
  C23: The encoding is the shortest one: whenever the \<open>u64\<close> decoder reads a value from some
  bytes, it has consumed at least as many bytes as the encoder would have written for that value.
\<close>

theorem leb128_u64_encoding_minimal:
  assumes "from_leb128_it shifts_u64 0 bs = Some (v :: u64, rest)"
  shows "length (to_leb128_bytes v) \<le> length bs - length rest"
proof -
  obtain c where c: "length bs - length rest = Suc c"
    using from_leb128_it_length [OF assms] by (metis Suc_diff_Suc)
  have "take_bit (7 * Suc c) v = v"
    using from_leb128_it_bound [of 0 10 0 bs v rest] assms c by (simp add: shifts_upt(3) del: upt_rec_numeral)
  then have "unat v < 2 ^ (7 * Suc c)"
    by (metis unsigned_take_bit_eq take_bit_nat_less_exp)
  then show ?thesis
    using c length_to_leb128_bytes_le by metis
qed

theorem leb128_u64_encoding_minimal_witness:
  "from_leb128_it shifts_u64 0 [0x80, 0x80, 0x00] = Some (0 :: u64, []) \<and>
   length (to_leb128_bytes (0 :: u64)) \<le> 3"
proof -
  have h: "from_leb128_it shifts_u64 0 [0x80, 0x80, 0x00] = Some (0 :: u64, [])"
    by (simp add: shifts_u64_def)
  show ?thesis using h leb128_u64_encoding_minimal [OF h] by simp
qed

section \<open>The eight-bit instance\<close>

text \<open>
  C24: The shift list of \<open>u8\<close> has a single entry, although a \<open>u8\<close> of 128 or more takes two bytes:
  the encoder and the decoder of \<open>u8\<close> agree on the values below 128 only, every other value is
  encoded but cannot be decoded.
\<close>

theorem leb128_u8_roundtrip_partial:
  "from_leb128_it shifts_u8 0 (to_leb128_bytes (v::u8) @ rest) =
     (if v < 128 then Some (v, rest) else None)"
proof (cases "unat v < 0x80")
  case True
  then have "v < 128" by (simp add: word_less_nat_alt)
  with True leb128_last(2) [of 0 v] show ?thesis
    by (simp add: shifts_u8_def to_leb128_bytes.simps [of v] and_0x80_eq_0)
next
  case False
  then have "\<not> v < 128" by (simp add: word_less_nat_alt)
  with False leb128_cont(2) [of "ucast ((v AND 0x7f) OR 0x80)" 0 v] show ?thesis
    by (simp add: shifts_u8_def to_leb128_bytes.simps [of v] and_0x80_eq_0)
qed

section \<open>Writing to a stream\<close>

text \<open>
  The contract of the streams that the program writes to: \<open>write\<close> accepts all bytes it is
  given, and writing twice is writing the concatenation once.
\<close>

locale byte_sink =
  fixes write_to :: "'w \<Rightarrow> bytes \<Rightarrow> 'e + ('w \<times> nat)"
    and append_to :: "'w \<Rightarrow> bytes \<Rightarrow> 'w"
  assumes write_eq: "write_to w bs = Inr (append_to w bs, length bs)"
    and append_append: "append_to (append_to w bs) cs = append_to w (bs @ cs)"
begin

lemma to_leb128_writer_eq:
  "to_leb128_writer write_to v w n =
     Inr (append_to w (to_leb128_bytes v), n + length (to_leb128_bytes v))"
proof (induction "unat v" arbitrary: v w n rule: less_induct)
  case less
  show ?case
  proof (cases "unat v < 0x80")
    case True
    then show ?thesis
      by (simp add: to_leb128_writer.simps [of _ v] to_leb128_bytes.simps [of v] write_eq)
  next
    case False
    then have "unat (drop_bit 7 v) < unat v"
      by (intro unat_drop_bit_less) auto
    from less [OF this] False show ?thesis
      by (simp add: to_leb128_writer.simps [of _ v] to_leb128_bytes.simps [of v] write_eq
          append_append)
  qed
qed

end

interpretation vec: byte_sink vec_write "(@)"
  by unfold_locales (simp_all add: vec_write_def)

lemma write_leb128_eq:
  "write_leb128 out v = Inr (push_leb128 out v, length (to_leb128_bytes v))"
  by (simp add: write_leb128_def push_leb128_def vec.to_leb128_writer_eq)

end
