(* ===== verification/Base32.thy ===== *)
theory Base32
  imports Leb128
begin

text \<open>
  The base-32 text encoding of identifiers, \<open>utils/src/codec/base32_custom.rs\<close>: the alphabet and
  its inverse table, the writer (a \<open>std::io::Write\<close> that turns every five bytes into eight
  letters) and the reader (an iterator that turns letters back into bytes).

  The lemmas show that the inverse table inverts the alphabet and that the reader returns
  exactly the bytes that were written, for every number of bytes.
\<close>

section \<open>The alphabet\<close>

definition BASE32_ALPHABET :: bytes where
  "BASE32_ALPHABET = map of_char ''abcdefghijklmnopqrstuvwxyz792013''"

definition BASE32_INVERSE :: bytes where
  "BASE32_INVERSE = [
    255, 255, 255, 255, 255, 255, 255, 255, 255, 255, 255, 255, 255, 255, 255, 255,
    255, 255, 255, 255, 255, 255, 255, 255, 255, 255, 255, 255, 255, 255, 255, 255,
    255, 255, 255, 255, 255, 255, 255, 255, 255, 255, 255, 255, 255, 255, 255, 255,
    29, 30, 28, 31, 255, 255, 255, 26, 255, 27, 255, 255, 255, 255, 255, 255,
    255, 255, 255, 255, 255, 255, 255, 255, 255, 255, 255, 10, 11, 12, 13, 14,
    15, 16, 17, 18, 19, 20, 21, 22, 23, 24, 25, 255, 255, 255, 255, 255,
    255, 0, 1, 2, 3, 4, 5, 6, 7, 8, 9, 10, 11, 12, 13, 14,
    15, 16, 17, 18, 19, 20, 21, 22, 23, 24, 25, 255, 255, 255, 255, 255,
    255, 255, 255, 255, 255, 255, 255, 255, 255, 255, 255, 255, 255, 255, 255, 255,
    255, 255, 255, 255, 255, 255, 255, 255, 255, 255, 255, 255, 255, 255, 255, 255,
    255, 255, 255, 255, 255, 255, 255, 255, 255, 255, 255, 255, 255, 255, 255, 255,
    255, 255, 255, 255, 255, 255, 255, 255, 255, 255, 255, 255, 255, 255, 255, 255,
    255, 255, 255, 255, 255, 255, 255, 255, 255, 255, 255, 255, 255, 255, 255, 255,
    255, 255, 255, 255, 255, 255, 255, 255, 255, 255, 255, 255, 255, 255, 255, 255,
    255, 255, 255, 255, 255, 255, 255, 255, 255, 255, 255, 255, 255, 255, 255, 255,
    255, 255, 255, 255, 255, 255, 255, 255, 255, 255, 255, 255, 255, 255, 255, 255]"

section \<open>The writer\<close>

text \<open>
  The position counts bytes and only its remainder modulo five matters; the text written so far
  is the list of its (ASCII) bytes.
\<close>

record base32_writer =
  bw_last_byte :: u8
  bw_pos :: nat
  bw_result :: bytes

definition base32_writer_new :: base32_writer where
  "base32_writer_new = \<lparr>bw_last_byte = 0, bw_pos = 0, bw_result = []\<rparr>"

definition push_char :: "base32_writer \<Rightarrow> u8 \<Rightarrow> base32_writer" where
  "push_char w ch = w\<lparr>bw_result := bw_result w @ [ch]\<rparr>"

definition push_string :: "base32_writer \<Rightarrow> bytes \<Rightarrow> base32_writer" where
  "push_string w string = w\<lparr>bw_result := bw_result w @ string\<rparr>"

text \<open>The two five-bit groups that a byte completes; 255 stands for no second group.\<close>

definition push_byte_groups :: "nat \<Rightarrow> u8 \<Rightarrow> u8 \<Rightarrow> u8 \<times> u8" where
  "push_byte_groups phase last_byte byte =
     (if phase = 0 then (drop_bit 3 (byte AND 0xF8), 255)
      else if phase = 1 then
        (push_bit 2 (last_byte AND 0x07) OR drop_bit 6 (byte AND 0xC0), drop_bit 1 (byte AND 0x3E))
      else if phase = 2 then
        (push_bit 4 (last_byte AND 0x01) OR drop_bit 4 (byte AND 0xF0), 255)
      else if phase = 3 then
        (push_bit 1 (last_byte AND 0x0F) OR drop_bit 7 byte, drop_bit 2 (byte AND 0x7C))
      else
        (push_bit 3 (last_byte AND 0x03) OR drop_bit 5 (byte AND 0xE0), byte AND 0x1F))"

definition push_byte :: "base32_writer \<Rightarrow> u8 \<Rightarrow> bool \<Rightarrow> base32_writer" where
  "push_byte w byte is_remainder =
     (let (ch1, ch2) = push_byte_groups (bw_pos w mod 5) (bw_last_byte w) byte;
          w1 = w\<lparr>bw_result := bw_result w @ [BASE32_ALPHABET ! unat ch1]\<rparr>
      in if \<not> is_remainder then
           (let w2 = (if ch2 \<noteq> 255
                      then w1\<lparr>bw_result := bw_result w1 @ [BASE32_ALPHABET ! unat ch2]\<rparr>
                      else w1)
            in w2\<lparr>bw_last_byte := byte, bw_pos := bw_pos w + 1\<rparr>)
         else w1)"

definition base32_finalize :: "base32_writer \<Rightarrow> bytes" where
  "base32_finalize w = bw_result (if bw_pos w mod 5 \<noteq> 0 then push_byte w 0 True else w)"

definition base32_write :: "base32_writer \<Rightarrow> bytes \<Rightarrow> unit + (base32_writer \<times> nat)" where
  "base32_write w bs =
     (let w' = foldl (\<lambda>w byte. push_byte w byte False) w bs in Inr (w', bw_pos w' - bw_pos w))"

text \<open>
  \<open>write_all\<close> calls \<open>write\<close> until everything is accepted; \<open>write\<close> accepts everything at once.
\<close>

definition base32_from_bytes :: "bytes \<Rightarrow> base32_writer" where
  "base32_from_bytes bs =
     (case base32_write base32_writer_new bs of Inr (w, _) \<Rightarrow> w | Inl _ \<Rightarrow> base32_writer_new)"

section \<open>The reader\<close>

record base32_reader =
  br_bytes :: bytes
  br_last_byte :: u8
  br_pos :: nat

definition base32_reader_new :: "bytes \<Rightarrow> base32_reader" where
  "base32_reader_new bs = \<lparr>br_bytes = bs, br_last_byte = 0, br_pos = 0\<rparr>"

definition map_byte :: "base32_reader \<Rightarrow> u8 option \<times> base32_reader" where
  "map_byte r =
     (case br_bytes r of
        [] \<Rightarrow> (None, r)
      | byte # rest \<Rightarrow>
          (let decoded = BASE32_INVERSE ! unat byte
           in if decoded \<noteq> 255 then (Some decoded, r\<lparr>br_bytes := rest, br_last_byte := decoded\<rparr>)
              else (None, r\<lparr>br_bytes := rest\<rparr>)))"

definition unwrap_or_0 :: "u8 option \<Rightarrow> u8" where
  "unwrap_or_0 x = (case x of Some b \<Rightarrow> b | None \<Rightarrow> 0)"

definition base32_next :: "base32_reader \<Rightarrow> u8 option \<times> base32_reader" where
  "base32_next r =
     (let pos = br_pos r mod 5; last_byte = br_last_byte r
      in case map_byte r of
           (None, r1) \<Rightarrow> (None, r1)
         | (Some byte, r1) \<Rightarrow>
             (let r2 = r1\<lparr>br_pos := br_pos r1 + 1\<rparr>
              in if pos = 0 then
                   (let (b, r3) = map_byte r2
                    in (Some (push_bit 3 byte OR drop_bit 2 (unwrap_or_0 b)), r3))
                 else if pos = 1 then
                   (let (b, r3) = map_byte r2
                    in (Some (push_bit 6 last_byte OR push_bit 1 byte OR drop_bit 4 (unwrap_or_0 b)), r3))
                 else if pos = 2 then (Some (push_bit 4 last_byte OR drop_bit 1 byte), r2)
                 else if pos = 3 then
                   (let (b, r3) = map_byte r2
                    in (Some (push_bit 7 last_byte OR push_bit 2 byte OR drop_bit 3 (unwrap_or_0 b)), r3))
                 else (Some (push_bit 5 last_byte OR byte), r2)))"

lemma map_byte_length:
  "map_byte r = (x, r') \<Longrightarrow> length (br_bytes r') \<le> length (br_bytes r)"
  "map_byte r = (Some b, r') \<Longrightarrow> length (br_bytes r') < length (br_bytes r)"
  by (auto simp: map_byte_def Let_def split: list.splits if_splits)

lemma base32_next_length:
  assumes "base32_next r = (Some b, r')"
  shows "length (br_bytes r') < length (br_bytes r)"
proof -
  obtain byte r1 where r1: "map_byte r = (Some byte, r1)"
    using assms by (auto simp: base32_next_def Let_def split: option.splits prod.splits)
  obtain x r3 where r3: "map_byte (r1\<lparr>br_pos := br_pos r1 + 1\<rparr>) = (x, r3)"
    by (cases "map_byte (r1\<lparr>br_pos := br_pos r1 + 1\<rparr>)") auto
  have "length (br_bytes r') \<le> length (br_bytes r1)"
    using assms r1 r3 map_byte_length(1) [OF r3]
    by (auto simp: base32_next_def Let_def split: if_splits)
  with map_byte_length(2) [OF r1] show ?thesis by simp
qed

text \<open>The bytes that iterating over a reader yields, up to the first \<open>None\<close>.\<close>

function base32_collect :: "base32_reader \<Rightarrow> bytes" where
  "base32_collect r =
     (case base32_next r of
        (None, _) \<Rightarrow> []
      | (Some b, r') \<Rightarrow> b # base32_collect r')"
  by pat_completeness auto
termination
  by (relation "measure (\<lambda>r. length (br_bytes r))") (auto dest: base32_next_length [OF sym])

declare base32_collect.simps [simp del]

section \<open>The inverse table inverts the alphabet\<close>

lemma length_BASE32_ALPHABET [simp]: "length BASE32_ALPHABET = 32"
  by (simp add: BASE32_ALPHABET_def)

lemma inverse_alphabet_all:
  "list_all (\<lambda>i. BASE32_INVERSE ! unat (BASE32_ALPHABET ! i) = of_nat i) [0..<32]"
  by code_simp

lemma five_bits: "drop_bit 5 (g::u8) = 0 \<longleftrightarrow> unat g < 32"
  using unat_less_exp_iff_drop_bit [of g 5] by simp

lemma inverse_alphabet:
  assumes "drop_bit 5 (g::u8) = 0"
  shows "BASE32_INVERSE ! unat (BASE32_ALPHABET ! unat g) = g" and "g \<noteq> 255"
proof -
  have "unat g \<in> set [0..<32]"
    using assms by (simp add: five_bits del: upt_rec_numeral)
  with inverse_alphabet_all have "BASE32_INVERSE ! unat (BASE32_ALPHABET ! unat g) = of_nat (unat g)"
    unfolding list_all_iff by blast
  then show "BASE32_INVERSE ! unat (BASE32_ALPHABET ! unat g) = g" by simp
  show "g \<noteq> 255" using assms by auto
qed

section \<open>The writer as a stream of five-bit groups\<close>

fun groups :: "nat \<Rightarrow> u8 \<Rightarrow> bytes \<Rightarrow> u8 list" where
  "groups p l [] = (if p = 0 then [] else [fst (push_byte_groups p l 0)])"
| "groups p l (b # bs) =
     (case push_byte_groups p l b of
        (c1, c2) \<Rightarrow> c1 # (if c2 \<noteq> 255 then [c2] else []) @ groups (Suc p mod 5) b bs)"

abbreviation letter :: "u8 \<Rightarrow> u8" where
  "letter g \<equiv> BASE32_ALPHABET ! unat g"

lemma foldl_push_byte:
  "foldl (\<lambda>w byte. push_byte w byte False) w bs = w' \<Longrightarrow>
   bw_pos w' = bw_pos w + length bs \<and>
   base32_finalize w' = bw_result w @ map letter (groups (bw_pos w mod 5) (bw_last_byte w) bs)"
proof (induction bs arbitrary: w)
  case Nil
  then show ?case
    by (auto simp: base32_finalize_def push_byte_def Let_def split: prod.splits)
next
  case (Cons b bs)
  let ?w = "push_byte w b False"
  have "bw_pos ?w = Suc (bw_pos w)" and "bw_last_byte ?w = b"
    and "bw_result ?w = bw_result w @ map letter
           (case push_byte_groups (bw_pos w mod 5) (bw_last_byte w) b of
              (c1, c2) \<Rightarrow> c1 # (if c2 \<noteq> 255 then [c2] else []))"
    by (auto simp: push_byte_def Let_def split: prod.splits)
  with Cons.IH [of ?w] Cons.prems show ?case
    by (auto simp: mod_Suc_eq split: prod.splits)
qed

lemma base32_finalize_from_bytes:
  "base32_finalize (base32_from_bytes bs) = map letter (groups 0 0 bs)"
  using foldl_push_byte [OF refl, of base32_writer_new bs]
  by (simp add: base32_from_bytes_def base32_write_def Let_def base32_writer_new_def)

lemma byte_eqI:
  fixes x y :: u8
  assumes "bit x 0 = bit y 0" "bit x 1 = bit y 1" "bit x 2 = bit y 2" "bit x 3 = bit y 3"
    "bit x 4 = bit y 4" "bit x 5 = bit y 5" "bit x 6 = bit y 6" "bit x 7 = bit y 7"
  shows "x = y"
proof (rule bit_word_eqI)
  fix n assume "n < LENGTH(8)"
  then have "n \<in> {0, 1, 2, 3, 4, 5, 6, 7}" by auto
  with assms show "bit x n = bit y n" by auto
qed

lemma bit_mult_2: "bit (x * 2 :: u8) n \<longleftrightarrow> n < 8 \<and> n \<noteq> 0 \<and> bit x (n - 1)"
  using bit_double_iff [of x n] by (simp add: mult.commute)

lemma push_byte_groups_five_bits:
  assumes "push_byte_groups p l b = (c1, c2)"
  shows "drop_bit 5 c1 = 0" and "c2 \<noteq> 255 \<Longrightarrow> drop_bit 5 c2 = 0"
proof -
  show "drop_bit 5 c1 = 0"
    using assms by (auto simp: push_byte_groups_def split: if_splits
        intro!: byte_eqI simp: bit_simps bit_mult_2)
  have "c2 = 255 \<or> c2 = drop_bit 1 (b AND 0x3E) \<or> c2 = drop_bit 2 (b AND 0x7C) \<or> c2 = b AND 0x1F"
    using assms by (auto simp: push_byte_groups_def split: if_splits)
  moreover have "drop_bit 5 (drop_bit 1 (b AND 0x3E)) = 0" "drop_bit 5 (drop_bit 2 (b AND 0x7C)) = 0"
    "drop_bit 5 (b AND 0x1F) = 0"
    by (rule byte_eqI; simp add: bit_simps)+
  ultimately show "drop_bit 5 c2 = 0" if "c2 \<noteq> 255"
    using that by blast
qed

lemma groups_five_bits: "g \<in> set (groups p l bs) \<Longrightarrow> drop_bit 5 g = 0"
proof (induction p l bs rule: groups.induct)
  case (1 p l)
  then show ?case
    using push_byte_groups_five_bits(1) [of p l 0] by (auto split: if_splits) (metis prod.collapse)
next
  case (2 p l b bs)
  obtain c1 c2 where "push_byte_groups p l b = (c1, c2)" by (cases "push_byte_groups p l b")
  with 2 push_byte_groups_five_bits [OF this] show ?case by (auto split: if_splits)
qed

lemma groups_nonempty: "p \<noteq> 0 \<Longrightarrow> groups p l bs \<noteq> []"
  by (cases bs) (auto split: prod.splits)

lemma hd_groups:
  "p \<noteq> 0 \<Longrightarrow> hd (groups p l bs) = fst (push_byte_groups p l (case bs of [] \<Rightarrow> 0 | b # _ \<Rightarrow> b))"
  by (cases bs) (auto split: prod.splits)

section \<open>Reading back\<close>

definition reader_at :: "nat \<Rightarrow> u8 \<Rightarrow> bytes \<Rightarrow> base32_reader \<Rightarrow> bool" where
  "reader_at p l bs r \<longleftrightarrow>
     br_pos r mod 5 = p \<and>
     (if p = 0 then br_bytes r = map letter (groups 0 l bs)
      else br_bytes r = map letter (tl (groups p l bs)) \<and> br_last_byte r = hd (groups p l bs))"

lemma map_byte_letter:
  assumes "br_bytes r = map letter (g # gs)" and "drop_bit 5 g = 0"
  shows "map_byte r = (Some g, r\<lparr>br_bytes := map letter gs, br_last_byte := g\<rparr>)"
  using assms inverse_alphabet [OF assms(2)] by (simp add: map_byte_def Let_def)

lemma join_0: "push_bit 3 (fst (push_byte_groups 0 l b)) OR
    drop_bit 2 (fst (push_byte_groups 1 b c)) = b"
  by (rule byte_eqI) (simp_all add: push_byte_groups_def bit_simps bit_mult_2)

lemma join_1: "push_bit 6 (fst (push_byte_groups 1 l b)) OR push_bit 1 (snd (push_byte_groups 1 l b)) OR
    drop_bit 4 (fst (push_byte_groups 2 b c)) = b"
  by (rule byte_eqI) (simp_all add: push_byte_groups_def bit_simps bit_mult_2,
      (simp_all add: numeral_2_eq_2 numeral_3_eq_3)?)

lemma join_2: "push_bit 4 (fst (push_byte_groups 2 l b)) OR
    drop_bit 1 (fst (push_byte_groups 3 b c)) = b"
  by (rule byte_eqI) (simp_all add: push_byte_groups_def bit_simps bit_mult_2,
      (simp_all add: numeral_2_eq_2 numeral_3_eq_3)?)

lemma join_3: "push_bit 7 (fst (push_byte_groups 3 l b)) OR push_bit 2 (snd (push_byte_groups 3 l b)) OR
    drop_bit 3 (fst (push_byte_groups 4 b c)) = b"
  by (rule byte_eqI) (simp_all add: push_byte_groups_def bit_simps bit_mult_2,
      (simp_all add: numeral_2_eq_2 numeral_3_eq_3)?)

lemma join_4: "push_bit 5 (fst (push_byte_groups 4 l b)) OR snd (push_byte_groups 4 l b) = b"
  by (rule byte_eqI) (simp_all add: push_byte_groups_def bit_simps bit_mult_2,
      (simp_all add: numeral_2_eq_2 numeral_3_eq_3)?)

lemma groups_Cons:
  assumes "p < 5"
  shows "groups p l (b # bs) =
    (if p \<in> {0, 2} then fst (push_byte_groups p l b) # groups (Suc p) b bs
     else fst (push_byte_groups p l b) # snd (push_byte_groups p l b) # groups (Suc p mod 5) b bs)"
proof -
  have "p \<in> {0, 1, 2, 3, 4}" using assms by auto
  moreover have "snd (push_byte_groups p l b) \<noteq> 255" if "p \<notin> {0, 2}"
  proof
    assume "snd (push_byte_groups p l b) = 255"
    then have "bit (snd (push_byte_groups p l b)) 7" by simp
    with that show False
      by (auto simp: push_byte_groups_def bit_simps split: if_splits)
  qed
  moreover have "snd (push_byte_groups p l b) = 255" if "p \<in> {0, 2}"
    using that by (auto simp: push_byte_groups_def)
  ultimately show ?thesis by (auto split: prod.splits)
qed

lemma base32_next_two:
  assumes "br_bytes r = map letter (g1 # g2 # gs)" and "drop_bit 5 g1 = 0" "drop_bit 5 g2 = 0"
    and "br_pos r mod 5 = p" and "p \<in> {0, 1, 3}"
  shows "base32_next r =
    (Some (if p = 0 then push_bit 3 g1 OR drop_bit 2 g2
           else if p = 1 then push_bit 6 (br_last_byte r) OR push_bit 1 g1 OR drop_bit 4 g2
           else push_bit 7 (br_last_byte r) OR push_bit 2 g1 OR drop_bit 3 g2),
     r\<lparr>br_bytes := map letter gs, br_last_byte := g2, br_pos := Suc (br_pos r)\<rparr>)"
  using assms inverse_alphabet [OF assms(2)] inverse_alphabet [OF assms(3)]
  by (auto simp: base32_next_def map_byte_def Let_def unwrap_or_0_def)

lemma base32_next_one:
  assumes "br_bytes r = map letter (g1 # gs)" and "drop_bit 5 g1 = 0"
    and "br_pos r mod 5 = p" and "p \<in> {2, 4}"
  shows "base32_next r =
    (Some (if p = 2 then push_bit 4 (br_last_byte r) OR drop_bit 1 g1
           else push_bit 5 (br_last_byte r) OR g1),
     r\<lparr>br_bytes := map letter gs, br_last_byte := g1, br_pos := Suc (br_pos r)\<rparr>)"
  using assms inverse_alphabet [OF assms(2)]
  by (auto simp: base32_next_def map_byte_def Let_def)

lemma base32_next_reader_at:
  assumes "reader_at p l (b # bs) r" and "p < 5"
  shows "\<exists>r'. base32_next r = (Some b, r') \<and> reader_at (Suc p mod 5) b bs r'"
proof -
  let ?q = "Suc p mod 5"
  note groups.simps [simp del]
  have pos: "br_pos r mod 5 = p" using assms(1) by (simp add: reader_at_def)
  then have pos': "Suc (br_pos r) mod 5 = ?q" by (metis mod_Suc_eq)
  obtain c where "hd (groups ?q b bs) = fst (push_byte_groups ?q b c)" if "?q \<noteq> 0"
    using hd_groups [of ?q b bs] by blast
  then obtain gs where split: "groups ?q b bs = fst (push_byte_groups ?q b c) # gs" if "?q \<noteq> 0"
    using groups_nonempty [of ?q b bs] by (metis list.collapse)
  have five: "drop_bit 5 (fst (push_byte_groups q x y)) = 0" for q x y
    using push_byte_groups_five_bits(1) [of q x y] by (metis prod.collapse)
  have five2: "drop_bit 5 (snd (push_byte_groups p l b)) = 0" if "p \<notin> {0, 2}"
    using groups_five_bits [of "snd (push_byte_groups p l b)" p l "b # bs"] that assms(2)
    by (simp add: groups_Cons)
  from assms(2) consider "p = 0" | "p = 1" | "p = 2" | "p = 3" | "p = 4" by linarith
  then show ?thesis
  proof cases
    case 1
    from base32_next_two [of r "fst (push_byte_groups 0 l b)" "fst (push_byte_groups 1 b c)" gs 0]
    show ?thesis
      using assms(1) 1 pos pos' split five join_0 [of l b c]
      by (simp add: reader_at_def groups_Cons)
  next
    case 2
    from base32_next_two [of r "snd (push_byte_groups 1 l b)" "fst (push_byte_groups 2 b c)" gs 1]
    show ?thesis
      using assms(1) 2 pos pos' split five five2 join_1 [of l b c]
      by (simp add: reader_at_def groups_Cons numeral_2_eq_2)
  next
    case 3
    from base32_next_one [of r "fst (push_byte_groups 3 b c)" gs 2]
    show ?thesis
      using assms(1) 3 pos pos' split five join_2 [of l b c]
      by (simp add: reader_at_def groups_Cons)
  next
    case 4
    from base32_next_two [of r "snd (push_byte_groups 3 l b)" "fst (push_byte_groups 4 b c)" gs 3]
    show ?thesis
      using assms(1) 4 pos pos' split five five2 join_3 [of l b c]
      by (simp add: reader_at_def groups_Cons)
  next
    case 5
    from base32_next_one [of r "snd (push_byte_groups 4 l b)" "groups 0 b bs" 4]
    show ?thesis
      using assms(1) 5 pos pos' five2 join_4 [of l b]
      by (simp add: reader_at_def groups_Cons)
  qed
qed

lemma base32_collect_reader_at:
  "reader_at p l bs r \<Longrightarrow> p < 5 \<Longrightarrow> base32_collect r = bs"
proof (induction bs arbitrary: p l r)
  case Nil
  then have "br_bytes r = []"
    by (auto simp: reader_at_def split: if_splits)
  then show ?case
    by (subst base32_collect.simps) (simp add: base32_next_def map_byte_def Let_def)
next
  case (Cons b bs)
  then obtain r' where "base32_next r = (Some b, r')" and "reader_at (Suc p mod 5) b bs r'"
    using base32_next_reader_at by blast
  with Cons.IH [of "Suc p mod 5" b r'] show ?case
    by (subst base32_collect.simps) simp
qed

lemma base32_collect_letters: "base32_collect (base32_reader_new (map letter (groups 0 0 bs))) = bs"
  by (rule base32_collect_reader_at [of 0 0]) (simp_all add: reader_at_def base32_reader_new_def)

text \<open>
  C21: Reading the text that the base-32 writer produced yields exactly the bytes that were
  written, whatever their number and values.
\<close>

theorem base32_roundtrip:
  "base32_collect (base32_reader_new (base32_finalize (base32_from_bytes bs))) = bs"
  by (simp add: base32_finalize_from_bytes base32_collect_letters)

lemma base32_write_eq:
  "base32_write w bs = Inr (foldl (\<lambda>w byte. push_byte w byte False) w bs, length bs)"
  using foldl_push_byte [OF refl, of w bs] by (simp add: base32_write_def Let_def)

interpretation b32: byte_sink base32_write "foldl (\<lambda>w byte. push_byte w byte False)"
  by unfold_locales (simp_all add: base32_write_eq)

end
