(* ===== verification/JmapIds.thy ===== *)
theory JmapIds
  imports Base32
begin

text \<open>
  The textual identifiers of the JMAP layer, clients of the base-32 alphabet, of the base-32
  writer and reader and of the variable-length integers: document identifiers
  (\<open>jmap-proto/src/types/id.rs\<close>), blob identifiers (\<open>types/blob.rs\<close>) and state strings
  (\<open>types/state.rs\<close>).

  An \<open>Id\<close> wraps a \<open>u64\<close> and is modelled by it.  Text is the list of its bytes; for the JSON
  readers it is the list of the bytes of the string token between its quotes.  An iterator
  over a base-32 reader is the list of the bytes it yields.

  The lemmas show that every printed identifier parses back to itself: for \<open>Id\<close> this includes
  that the printing loop, which ends only when it meets its stop pattern, always ends.
\<close>

section \<open>Document identifiers\<close>

type_synonym jmap_id = u64

fun id_from_bytes_loop :: "u64 \<Rightarrow> bytes \<Rightarrow> jmap_id option" where
  "id_from_bytes_loop acc [] = Some acc"
| "id_from_bytes_loop acc (ch # bs) =
     (let i = BASE32_INVERSE ! unat ch
      in if i \<noteq> 255 then id_from_bytes_loop (push_bit 5 acc OR ucast i) bs else None)"

definition id_from_bytes :: "bytes \<Rightarrow> jmap_id option" where
  "id_from_bytes bs = id_from_bytes_loop 0 bs"

definition STOP_BIT :: u64 where
  "STOP_BIT = push_bit 60 1"

partial_function (option) id_as_string_loop :: "u64 \<Rightarrow> bytes \<Rightarrow> bytes option" where
  "id_as_string_loop n buf =
     (if n \<noteq> STOP_BIT
      then id_as_string_loop (push_bit 5 n) (buf @ [BASE32_ALPHABET ! unat (drop_bit 59 n)])
      else Some buf)"

definition id_as_string :: "jmap_id \<Rightarrow> bytes option" where
  "id_as_string n =
     (if n = 0 then Some (map of_char ''a'')
      else let i = drop_bit 60 n
           in if i = 0 then
                (let n1 = push_bit 4 n OR 1;
                     n2 = push_bit (leading_zeros n1 div 5 * 5) n1
                 in id_as_string_loop n2 [])
              else
                (let n1 = push_bit 4 n OR 1
                 in id_as_string_loop n1 [BASE32_ALPHABET ! unat i]))"

definition id_from_parts :: "u32 \<Rightarrow> u32 \<Rightarrow> jmap_id" where
  "id_from_parts prefix_id doc_id = push_bit 32 (ucast prefix_id) OR ucast doc_id"

definition id_document_id :: "jmap_id \<Rightarrow> u32" where
  "id_document_id i = ucast (i AND 0xFFFFFFFF)"

definition id_prefix_id :: "jmap_id \<Rightarrow> u32" where
  "id_prefix_id i = ucast (drop_bit 32 i)"

lemma id_parts_roundtrip:
  "id_prefix_id (id_from_parts p d) = p" "id_document_id (id_from_parts p d) = d"
  "id_from_parts (id_prefix_id i) (id_document_id i) = i"
proof -
  have mask32: "(w::u64) AND 0xFFFFFFFF = take_bit 32 w" for w
    by (simp add: take_bit_eq_mask mask_numeral)
  show "id_prefix_id (id_from_parts p d) = p"
    by (rule bit_eqI) (auto simp: id_prefix_id_def id_from_parts_def bit_simps dest: bit_imp_le_length)
  show "id_document_id (id_from_parts p d) = d"
    by (rule bit_eqI)
      (auto simp: id_document_id_def id_from_parts_def mask32 bit_simps dest: bit_imp_le_length)
  show "id_from_parts (id_prefix_id i) (id_document_id i) = i"
    by (rule bit_eqI)
      (auto simp: id_prefix_id_def id_document_id_def id_from_parts_def mask32 bit_simps
        dest: bit_imp_le_length)
qed

lemma id_from_bytes_loop_letters:
  "\<forall>g \<in> set gs. drop_bit 5 g = 0 \<Longrightarrow>
   id_from_bytes_loop acc (map letter gs) = Some (foldl (\<lambda>acc g. push_bit 5 acc OR ucast g) acc gs)"
  by (induction gs arbitrary: acc) (auto simp: inverse_alphabet Let_def)

lemma stop_pattern_step:
  fixes n :: u64
  assumes "take_bit (5 * k + 4) n = push_bit (5 * k) 1" and "k < 12"
  shows "take_bit (5 * Suc k + 4) (push_bit 5 n) = push_bit (5 * Suc k) 1" and "n \<noteq> STOP_BIT"
proof -
  have "5 * Suc k + 4 = 5 + (5 * k + 4)" by simp
  then have "take_bit (5 * Suc k + 4) (push_bit 5 n) = push_bit 5 (take_bit (5 * k + 4) n)"
    by (metis add_diff_cancel_left' push_bit_take_bit)
  with assms(1) show "take_bit (5 * Suc k + 4) (push_bit 5 n) = push_bit (5 * Suc k) 1"
    by (simp add: push_bit_eq_mult power_add)
  have "bit (take_bit (5 * k + 4) n) (5 * k)"
    unfolding assms(1) using assms(2) by (simp add: bit_simps)
  then have "bit n (5 * k)" by (simp add: bit_simps)
  moreover have "\<not> bit STOP_BIT (5 * k)" using assms(2) unfolding STOP_BIT_def bit_push_bit_iff by simp
  ultimately show "n \<noteq> STOP_BIT" by auto
qed

lemma id_as_string_loop_returns:
  assumes "take_bit (5 * k + 4) n = push_bit (5 * k) 1" and "k \<le> 12"
  shows "\<exists>gs. id_as_string_loop n buf = Some (buf @ map letter gs) \<and>
     (\<forall>g \<in> set gs. drop_bit 5 g = 0) \<and>
     (\<forall>acc. foldl (\<lambda>acc g. push_bit 5 acc OR ucast g) acc gs =
        push_bit (5 * (12 - k)) acc OR drop_bit (4 + 5 * k) n)"
  using assms
proof (induction "12 - k" arbitrary: k n buf)
  case 0
  then have "k = 12" by simp
  with 0 have "n = STOP_BIT"
    by (simp add: STOP_BIT_def take_bit_word_eq_self)
  moreover have "drop_bit 64 n = 0" by (simp add: drop_bit_word_beyond)
  ultimately show ?case
    using \<open>k = 12\<close> by (subst id_as_string_loop.simps) (auto intro: exI [of _ "[]"])
next
  case (Suc d)
  then have k: "k < 12" by simp
  let ?g = "ucast (drop_bit 59 n) :: u8"
  note step = stop_pattern_step [OF Suc.prems(1) k]
  have d: "d = 12 - Suc k" using Suc.hyps(2) by simp
  obtain gs where gs: "id_as_string_loop (push_bit 5 n) (buf @ [letter ?g]) =
        Some (buf @ [letter ?g] @ map letter gs)"
    "\<forall>g \<in> set gs. drop_bit 5 g = 0"
    "\<And>acc. foldl (\<lambda>acc g. push_bit 5 acc OR ucast g) acc gs =
        push_bit (5 * (12 - Suc k)) acc OR drop_bit (4 + 5 * Suc k) (push_bit 5 n)"
    using Suc.hyps(1) [OF d step(1), of "buf @ [letter ?g]"] k by auto
  have g: "unat (drop_bit 59 n) = unat ?g" and g5: "drop_bit 5 ?g = 0"
  proof -
    have "unat (drop_bit 59 n) < 2 ^ 5"
      unfolding unat_less_exp_iff_drop_bit by (simp add: drop_bit_word_beyond)
    then show "unat (drop_bit 59 n) = unat ?g"
      by (simp add: unsigned_ucast_eq take_bit_nat_eq_self)
    show "drop_bit 5 ?g = 0"
      by (rule bit_eqI) (auto simp: bit_simps dest: bit_imp_le_length)
  qed
  have ex: "foldl (\<lambda>acc g. push_bit 5 acc OR ucast g) acc (?g # gs) =
        push_bit (5 * (12 - k)) acc OR drop_bit (4 + 5 * k) n" for acc
  proof -
    have m: "5 * (12 - Suc k) = 55 - 5 * k" "5 * (12 - k) = 60 - 5 * k" "5 * Suc k = 5 + 5 * k"
      using k by auto
    show ?thesis
      unfolding foldl_Cons gs(3) m
      using k by (intro bit_eqI) (auto simp: bit_simps ac_simps dest: bit_imp_le_length)
  qed
  have "id_as_string_loop n buf = Some (buf @ map letter (?g # gs))"
    using gs(1) step(2) g by (subst id_as_string_loop.simps) simp
  with gs(2) g5 ex show ?case
    by (intro exI [of _ "?g # gs"]) simp
qed

text \<open>
  C18: Printing a document identifier always terminates, although its loop ends only on the stop
  pattern, and parsing the printed text gives the identifier back.
\<close>

theorem id_roundtrip: "\<exists>text. id_as_string n = Some text \<and> id_from_bytes text = Some n"
proof (cases "n = 0")
  case True
  have "map of_char ''a'' = map letter [0]"
    by (simp add: BASE32_ALPHABET_def)
  with True id_from_bytes_loop_letters [of "[0]" 0] show ?thesis
    by (simp add: id_as_string_def id_from_bytes_def)
next
  case False
  let ?n1 = "push_bit 4 n OR 1"
  have one: "take_bit 4 ?n1 = 1"
    by (rule bit_eqI) (auto simp: bit_simps)
  show ?thesis
  proof (cases "drop_bit 60 n = 0")
    case True
    define k where "k = leading_zeros ?n1 div 5"
    obtain i where i: "bit n i" "i < 60"
      using False drop_bit_0_bitD [OF True] by (auto simp: bit_eq_iff)
    then have "leading_zeros ?n1 \<le> 59 - i"
      using leading_zeros_bound [of ?n1 "i + 4"] by (simp add: bit_simps)
    then have k: "k \<le> 11" "5 * k \<le> leading_zeros ?n1"
      by (auto simp: k_def)
    let ?n2 = "push_bit (5 * k) ?n1"
    have pattern: "take_bit (5 * k + 4) ?n2 = push_bit (5 * k) 1"
      using one by (metis add_diff_cancel_left' push_bit_take_bit)
    have "drop_bit (4 + 5 * k) ?n2 = n"
    proof (rule bit_eqI)
      fix j
      have "5 * k + j < 60" if "bit n j"
      proof (rule ccontr)
        assume "\<not> 5 * k + j < 60"
        with k have "\<not> bit ?n1 (j + 4)"
          by (intro not_bit_leading_zeros) linarith
        with that show False
          using drop_bit_0_bitD [OF True that] by (simp add: bit_simps)
      qed
      then show "bit (drop_bit (4 + 5 * k) ?n2) j = bit n j"
        by (auto simp: bit_simps)
    qed
    moreover obtain gs where gs: "id_as_string_loop ?n2 [] = Some (map letter gs)"
        "\<forall>g \<in> set gs. drop_bit 5 g = 0"
        "foldl (\<lambda>acc g. push_bit 5 acc OR ucast g) 0 gs = drop_bit (4 + 5 * k) ?n2"
      using id_as_string_loop_returns [OF pattern, of "[]"] k(1) by auto
    ultimately have "id_from_bytes (map letter gs) = Some n"
      by (simp only: id_from_bytes_def id_from_bytes_loop_letters)
    moreover have "id_as_string n = Some (map letter gs)"
      using gs(1) False True by (simp only: id_as_string_def Let_def k_def mult.commute if_True if_False simp_thms)
    ultimately show ?thesis by blast
  next
    case top: False
    let ?i = "ucast (drop_bit 60 n) :: u8"
    have "unat (drop_bit 60 n) < 2 ^ 4"
      unfolding unat_less_exp_iff_drop_bit by (simp add: drop_bit_word_beyond)
    then have i: "unat (drop_bit 60 n) = unat ?i" and i5: "drop_bit 5 ?i = 0"
      by (auto simp: unsigned_ucast_eq take_bit_nat_eq_self five_bits)
    have "push_bit 60 (ucast ?i) OR drop_bit 4 ?n1 = n"
      by (rule bit_eqI) (auto simp: bit_simps dest: bit_imp_le_length)
    moreover obtain gs where gs: "id_as_string_loop ?n1 [letter ?i] = Some (map letter (?i # gs))"
        "\<forall>g \<in> set gs. drop_bit 5 g = 0"
        "\<And>acc. foldl (\<lambda>acc g. push_bit 5 acc OR ucast g) acc gs = push_bit 60 acc OR drop_bit 4 ?n1"
      using id_as_string_loop_returns [of 0 ?n1 "[letter ?i]"] one by auto
    moreover have "\<forall>g \<in> set (?i # gs). drop_bit 5 g = 0"
      using gs(2) i5 by simp
    ultimately have "id_from_bytes (map letter (?i # gs)) = Some n"
      by (simp only: id_from_bytes_def id_from_bytes_loop_letters foldl_Cons) simp
    moreover have "id_as_string n = Some (map letter (?i # gs))"
      using gs(1) False top i by (simp only: id_as_string_def Let_def if_False)
    ultimately show ?thesis by blast
  qed
qed

section \<open>Blob identifiers\<close>

definition BLOB_HASH_LEN :: nat where
  "BLOB_HASH_LEN = 32"

definition B_LINKED :: u8 where
  "B_LINKED = 0x10"

definition B_RESERVED :: u8 where
  "B_RESERVED = 0x20"

datatype BlobClass =
    Reserved (blob_account_id: u32) (blob_expires: u64)
  | Linked (blob_account_id: u32) (blob_collection: u8) (blob_document_id: u32)

record BlobSection =
  offset_start :: usize
  section_size :: usize
  encoding :: u8

record BlobId =
  blob_hash :: bytes
  blob_class :: BlobClass
  blob_section :: "BlobSection option"

text \<open>
  Reading from the byte iterator: the class marker, the hash, the fields of the class and,
  when the low half of the marker is not zero, the section.
\<close>

definition read_class :: "u8 \<Rightarrow> u32 \<Rightarrow> bytes \<Rightarrow> (BlobClass \<times> bytes) option" where
  "read_class marker account_id it =
     (if marker AND B_LINKED \<noteq> 0 then
        (case it of
           [] \<Rightarrow> None
         | collection # it1 \<Rightarrow>
             (case from_leb128_it shifts_u32 0 it1 of
                None \<Rightarrow> None
              | Some (document_id, it2) \<Rightarrow> Some (Linked account_id collection document_id, it2)))
      else
        (case from_leb128_it shifts_u64 0 it of
           None \<Rightarrow> None
         | Some (expires, it1) \<Rightarrow> Some (Reserved account_id expires, it1)))"

definition read_section :: "u8 \<Rightarrow> bytes \<Rightarrow> (BlobSection option \<times> bytes) option" where
  "read_section enc it =
     (if enc \<noteq> 0 then
        (case from_leb128_it shifts_usize 0 it of
           None \<Rightarrow> None
         | Some (start, it1) \<Rightarrow>
             (case from_leb128_it shifts_usize 0 it1 of
                None \<Rightarrow> None
              | Some (sz, it2) \<Rightarrow>
                  Some (Some \<lparr>offset_start = start, section_size = sz, encoding = enc - 1\<rparr>, it2)))
      else Some (None, it))"

definition blob_from_iter :: "bytes \<Rightarrow> BlobId option" where
  "blob_from_iter it =
     (case it of
        [] \<Rightarrow> None
      | marker # it1 \<Rightarrow>
          if length it1 < BLOB_HASH_LEN then None
          else
            (let hash = take BLOB_HASH_LEN it1; it2 = drop BLOB_HASH_LEN it1
             in case from_leb128_it shifts_u32 0 it2 of
                  None \<Rightarrow> None
                | Some (account_id, it3) \<Rightarrow>
                    (case read_class marker account_id it3 of
                       None \<Rightarrow> None
                     | Some (class, it4) \<Rightarrow>
                         (case read_section (marker AND 0x0F) it4 of
                            None \<Rightarrow> None
                          | Some (section, _) \<Rightarrow>
                              Some \<lparr>blob_hash = hash, blob_class = class, blob_section = section\<rparr>))))"

definition blob_from_base32 :: "bytes \<Rightarrow> BlobId option" where
  "blob_from_base32 text = blob_from_iter (base32_collect (base32_reader_new text))"

text \<open>
  \<open>serialize_as\<close> writes to any byte stream and drops the results of the calls; a stream is
  given by its \<open>write\<close>.
\<close>

definition put :: "('w \<Rightarrow> bytes \<Rightarrow> 'e + ('w \<times> nat)) \<Rightarrow> bytes \<Rightarrow> 'w \<Rightarrow> 'w" where
  "put write bs w = (case write w bs of Inl _ \<Rightarrow> w | Inr (w', _) \<Rightarrow> w')"

definition put_leb128 :: "('w \<Rightarrow> bytes \<Rightarrow> 'e + ('w \<times> nat)) \<Rightarrow> 'a::len word \<Rightarrow> 'w \<Rightarrow> 'w" where
  "put_leb128 write v w =
     (case to_leb128_writer write v w 0 of Inl _ \<Rightarrow> w | Inr (w', _) \<Rightarrow> w')"

definition blob_serialize_as :: "('w \<Rightarrow> bytes \<Rightarrow> 'e + ('w \<times> nat)) \<Rightarrow> BlobId \<Rightarrow> 'w \<Rightarrow> 'w" where
  "blob_serialize_as write b w =
     (let marker = (case blob_section b of None \<Rightarrow> 0 | Some s \<Rightarrow> encoding s + 1)
                   OR (case blob_class b of Linked _ _ _ \<Rightarrow> B_LINKED | Reserved _ _ \<Rightarrow> B_RESERVED);
          w1 = put write [marker] w;
          w2 = put write (blob_hash b) w1;
          w3 = (case blob_class b of
                  Reserved account_id expires \<Rightarrow>
                    put_leb128 write expires (put_leb128 write account_id w2)
                | Linked account_id collection document_id \<Rightarrow>
                    put_leb128 write document_id
                      (put write [collection] (put_leb128 write account_id w2)))
      in case blob_section b of
           None \<Rightarrow> w3
         | Some s \<Rightarrow> put_leb128 write (section_size s) (put_leb128 write (offset_start s) w3))"

definition blob_to_string :: "BlobId \<Rightarrow> bytes" where
  "blob_to_string b = base32_finalize (blob_serialize_as base32_write b base32_writer_new)"

definition blob_serialize_into :: "BlobId \<Rightarrow> bytes \<Rightarrow> bytes" where
  "blob_serialize_into b buf = blob_serialize_as vec_write b buf"

context byte_sink
begin

lemma put_eq: "put write_to bs w = append_to w bs"
  by (simp add: put_def write_eq)

lemma put_leb128_eq: "put_leb128 write_to v w = append_to w (to_leb128_bytes v)"
  by (simp add: put_leb128_def to_leb128_writer_eq)

lemma blob_serialize_as_eq:
  "blob_serialize_as write_to b w = append_to w (blob_serialize_into b [])"
proof -
  have vec: "put vec_write bs buf = buf @ bs" for bs buf
    by (simp add: put_def vec_write_def)
  have vec': "put_leb128 vec_write v buf = buf @ to_leb128_bytes v" for v :: "'b::len word" and buf
    by (simp add: put_leb128_def vec.to_leb128_writer_eq)
  show ?thesis
    by (cases "blob_class b"; cases "blob_section b")
      (simp_all add: blob_serialize_as_def blob_serialize_into_def Let_def put_eq put_leb128_eq
        vec vec' append_append)
qed

end

lemma blob_serialize_into_eq:
  "blob_serialize_into b [] =
     [(case blob_section b of None \<Rightarrow> 0 | Some s \<Rightarrow> encoding s + 1)
      OR (case blob_class b of Linked _ _ _ \<Rightarrow> B_LINKED | Reserved _ _ \<Rightarrow> B_RESERVED)] @
     blob_hash b @
     (case blob_class b of
        Reserved account_id expires \<Rightarrow> to_leb128_bytes account_id @ to_leb128_bytes expires
      | Linked account_id collection document_id \<Rightarrow>
          to_leb128_bytes account_id @ [collection] @ to_leb128_bytes document_id) @
     (case blob_section b of
        None \<Rightarrow> []
      | Some s \<Rightarrow> to_leb128_bytes (offset_start s) @ to_leb128_bytes (section_size s))"
  by (cases "blob_class b"; cases "blob_section b")
    (simp_all add: blob_serialize_into_def blob_serialize_as_def Let_def vec.put_eq vec.put_leb128_eq)

lemma blob_to_string_eq: "blob_to_string b = map letter (groups 0 0 (blob_serialize_into b []))"
  using foldl_push_byte [OF refl, of base32_writer_new "blob_serialize_into b []"]
  by (simp add: blob_to_string_def b32.blob_serialize_as_eq base32_writer_new_def)

lemma marker_bits:
  fixes e :: u8
  assumes "e \<le> 15"
  shows "(e OR B_LINKED) AND B_LINKED \<noteq> 0" "(e OR B_RESERVED) AND B_LINKED = 0"
    "(e OR B_LINKED) AND 0x0F = e" "(e OR B_RESERVED) AND 0x0F = e"
proof -
  have "unat e < 2 ^ 4" using assms by (simp add: word_le_nat_alt)
  then have lo: "\<not> bit e i" if "4 \<le> i" for i
    unfolding unat_less_exp_iff_drop_bit using drop_bit_0_bitD that leD by blast
  have "bit ((e OR B_LINKED) AND B_LINKED) 4"
    by (simp add: B_LINKED_def bit_simps)
  then show "(e OR B_LINKED) AND B_LINKED \<noteq> 0" by auto
  show "(e OR B_RESERVED) AND B_LINKED = 0" "(e OR B_LINKED) AND 0x0F = e" "(e OR B_RESERVED) AND 0x0F = e"
    by (rule byte_eqI; simp add: B_LINKED_def B_RESERVED_def bit_simps lo)+
qed

text \<open>
  C19: A blob identifier printed as text and parsed again is unchanged, for every hash of the
  proper length, both classes, with or without a section, as long as the section's transfer
  encoding fits the four bits that the marker byte has for it.
\<close>

theorem blob_id_roundtrip:
  assumes "length (blob_hash b) = BLOB_HASH_LEN"
    and "\<forall>s. blob_section b = Some s \<longrightarrow> encoding s < 15"
  shows "blob_from_base32 (blob_to_string b) = Some b"
proof -
  let ?e = "case blob_section b of None \<Rightarrow> 0 | Some s \<Rightarrow> encoding s + 1"
  have suc: "unat (x + 1) = unat x + 1" if "x < 15" for x :: u8
    using that by (simp add: unat_word_ariths word_less_nat_alt)
  then have "x + 1 \<le> 15" "x + 1 \<noteq> 0" if "x < 15" for x :: u8
    using suc [OF that] that by (simp_all add: word_le_nat_alt word_less_nat_alt) (metis nat.distinct(1) unat_0)
  with assms(2) have e: "?e \<le> 15" "\<forall>s. blob_section b = Some s \<longrightarrow> encoding s + 1 \<noteq> 0"
    by (auto split: option.splits)
  have "blob_from_iter (blob_serialize_into b []) = Some b"
    using marker_bits [OF e(1)] e(2) assms(1) unfolding blob_serialize_into_eq
    by (cases b; cases "blob_class b"; cases "blob_section b")
      (auto simp: blob_from_iter_def read_class_def read_section_def codec_simps Let_def)
  then show ?thesis
    by (simp add: blob_from_base32_def blob_to_string_eq base32_collect_letters)
qed

theorem blob_id_roundtrip_witness:
  "let b = \<lparr>blob_hash = replicate 32 7, blob_class = Linked 1 2 300,
            blob_section = Some \<lparr>offset_start = 10, section_size = 2000, encoding = 2\<rparr>\<rparr>
   in length (blob_hash b) = BLOB_HASH_LEN \<and> blob_from_base32 (blob_to_string b) = Some b"
  using blob_id_roundtrip [of "\<lparr>blob_hash = replicate 32 7, blob_class = Linked 1 2 300,
            blob_section = Some \<lparr>offset_start = 10, section_size = 2000, encoding = 2\<rparr>\<rparr>"]
  by (simp add: BLOB_HASH_LEN_def)

section \<open>State strings\<close>

datatype jmap_state =
    Initial
  | Exact u64
  | Intermediate (from_id: u64) (to_id: u64) (items_sent: usize)

definition saturating_add :: "u64 \<Rightarrow> u64 \<Rightarrow> u64" where
  "saturating_add a b = (if unat a + unat b < 2 ^ 64 then a + b else -1)"

definition state_to_string :: "jmap_state \<Rightarrow> bytes" where
  "state_to_string s =
     base32_finalize
       (case s of
          Initial \<Rightarrow> push_char base32_writer_new (of_char (CHR ''n''))
        | Exact i \<Rightarrow>
            put_leb128 base32_write i (push_char base32_writer_new (of_char (CHR ''s'')))
        | Intermediate f t n \<Rightarrow>
            put_leb128 base32_write n (put_leb128 base32_write (t - f)
              (put_leb128 base32_write f (push_char base32_writer_new (of_char (CHR ''r''))))))"

text \<open>\<open>text\<close> holds the bytes of the string token; \<open>None\<close> is the error that the parser reports.\<close>

definition state_parse :: "bytes \<Rightarrow> jmap_state option" where
  "state_parse text =
     (case text of
        [] \<Rightarrow> None
      | ch # rest \<Rightarrow>
          if ch = of_char (CHR ''n'') then Some Initial
          else if ch = of_char (CHR ''s'') then
            map_option (\<lambda>(i, _). Exact i) (next_leb128_u64 (base32_collect (base32_reader_new rest)))
          else if ch = of_char (CHR ''r'') then
            (case next_leb128_u64 (base32_collect (base32_reader_new rest)) of
               None \<Rightarrow> None
             | Some (f, it1) \<Rightarrow>
                 (case next_leb128_u64 it1 of
                    None \<Rightarrow> None
                  | Some (t, it2) \<Rightarrow>
                      (case next_leb128_usize it2 of
                         None \<Rightarrow> None
                       | Some (n, _) \<Rightarrow>
                           if n > 0 then Some (Intermediate f (saturating_add f t) n) else None)))
          else None)"

lemma finalize_push_char:
  "base32_finalize (foldl (\<lambda>w byte. push_byte w byte False) (push_char base32_writer_new ch) bs) =
     ch # map letter (groups 0 0 bs)"
  using foldl_push_byte [OF refl, of "push_char base32_writer_new ch" bs]
  by (simp add: push_char_def base32_writer_new_def)

lemma finalize_push_char_nil: "base32_finalize (push_char base32_writer_new ch) = [ch]"
  using finalize_push_char [of ch "[]"] by simp

lemma saturating_add_diff: "f \<le> t \<Longrightarrow> saturating_add f (t - f) = t"
proof -
  assume "f \<le> t"
  then have "unat (t - f) = unat t - unat f" by (simp add: unat_sub word_le_nat_alt)
  moreover have "unat t < 2 ^ 64" using unsigned_less [of t] by simp
  ultimately show ?thesis
    using \<open>f \<le> t\<close> by (simp add: saturating_add_def word_le_nat_alt)
qed

text \<open>
  C20: The string of a state parses back to the state it stands for: the initial state, every
  exact state, and every intermediate state of a paged query whose first change id is not above
  its last and which has sent at least one item.
\<close>

theorem state_roundtrip:
  assumes "\<forall>f t n. s = Intermediate f t n \<longrightarrow> f \<le> t \<and> 0 < n"
  shows "state_parse (state_to_string s) = Some s"
proof (cases s)
  case Initial
  then show ?thesis
    by (simp add: state_to_string_def state_parse_def finalize_push_char_nil)
next
  case (Exact i)
  then show ?thesis
    by (simp add: state_to_string_def state_parse_def b32.put_leb128_eq finalize_push_char
        base32_collect_letters codec_simps)
next
  case (Intermediate f t n)
  with assms show ?thesis
    by (simp add: state_to_string_def state_parse_def b32.put_leb128_eq b32.append_append
        finalize_push_char base32_collect_letters codec_simps saturating_add_diff
        del: foldl_append)
qed

theorem state_roundtrip_witness:
  "state_parse (state_to_string (Intermediate 1024 2048 100)) = Some (Intermediate 1024 2048 100)"
  by (rule state_roundtrip) simp

end
