(* ===== verification/Bitmap.thy ===== *)
theory Bitmap
  imports Prelude
begin

text \<open>
  The 64-element bit set of \<open>utils/src/map/bitmap.rs\<close>.

  An item is the \<open>u64\<close> its \<open>Into<u64>\<close> conversion gives; \<open>BitmapItem::max\<close> and
  \<open>BitmapItem::is_valid\<close>, which every item type supplies, are arguments.  A shift
  \<open>1 << item\<close> is the one of a release build, which takes the amount modulo 64; the
  \<open>debug_assert!\<close> lines are absent there.

  The lemmas relate every operation to the set of the items whose bit is set, show that
  iterating yields every member once in descending order, and show exactly what \<open>remove\<close> does.
\<close>

section \<open>The interface of a set of small items\<close>

text \<open>
  What the clients of the bit sets rely on: \<open>elems\<close> is the set a value denotes, \<open>inv\<close> the
  well-formedness of a value and \<open>item_ok\<close> the range of the items it can hold.  The 64-bit
  bitmap and the fixed-size bitset of several words both provide it.
\<close>

locale item_set =
  fixes inv :: "'b \<Rightarrow> bool"
    and item_ok :: "'i \<Rightarrow> bool"
    and elems :: "'b \<Rightarrow> 'i set"
    and none :: 'b
    and ins :: "'b \<Rightarrow> 'i \<Rightarrow> 'b"
    and uni :: "'b \<Rightarrow> 'b \<Rightarrow> 'b"
    and int :: "'b \<Rightarrow> 'b \<Rightarrow> 'b"
    and has :: "'b \<Rightarrow> 'i \<Rightarrow> bool"
    and is_none :: "'b \<Rightarrow> bool"
  assumes none_set: "inv none \<and> elems none = {}"
    and ins_set: "inv b \<Longrightarrow> item_ok i \<Longrightarrow> inv (ins b i) \<and> elems (ins b i) = insert i (elems b)"
    and uni_set: "inv b \<Longrightarrow> inv c \<Longrightarrow> inv (uni b c) \<and> elems (uni b c) = elems b \<union> elems c"
    and int_set: "inv b \<Longrightarrow> inv c \<Longrightarrow> inv (int b c) \<and> elems (int b c) = elems b \<inter> elems c"
    and has_set: "inv b \<Longrightarrow> item_ok i \<Longrightarrow> has b i \<longleftrightarrow> i \<in> elems b"
    and is_none_set: "inv b \<Longrightarrow> is_none b \<longleftrightarrow> elems b = {}"
begin

lemma overlap_check:
  "inv b \<Longrightarrow> inv c \<Longrightarrow> \<not> is_none (int b c) \<longleftrightarrow> elems b \<inter> elems c \<noteq> {}"
  by (simp add: int_set is_none_set)

lemma union_all:
  "inv b \<Longrightarrow> \<forall>c \<in> set cs. inv c \<Longrightarrow>
   inv (foldl uni b cs) \<and> elems (foldl uni b cs) = elems b \<union> (\<Union>c \<in> set cs. elems c)"
  by (induction cs arbitrary: b) (auto simp: uni_set)

lemma collect_items:
  assumes "\<And>i. ok i \<Longrightarrow> item_ok i"
  shows "elems (foldl (\<lambda>b i. if ok i then ins b i else b) none is) = {i \<in> set is. ok i}"
proof -
  have "inv b \<Longrightarrow> inv (foldl (\<lambda>b i. if ok i then ins b i else b) b is) \<and>
      elems (foldl (\<lambda>b i. if ok i then ins b i else b) b is) = elems b \<union> {i \<in> set is. ok i}" for b
    by (induction "is" arbitrary: b) (auto simp: ins_set assms)
  from this [of none] show ?thesis by (simp add: none_set)
qed

end

section \<open>The operations\<close>

definition shl_u64 :: "u64 \<Rightarrow> u64 \<Rightarrow> u64" where
  "shl_u64 w n = push_bit (unat n mod 64) w"

record bitmap =
  bitmap :: u64

definition bm_default :: bitmap where
  "bm_default = \<lparr>bitmap = 0\<rparr>"

definition bm_new :: bitmap where
  "bm_new = bm_default"

definition bm_all :: "u64 \<Rightarrow> bitmap" where
  "bm_all T_max = \<lparr>bitmap = drop_bit (unat (64 - T_max) mod 64) (- 1)\<rparr>"

definition bm_union :: "bitmap \<Rightarrow> bitmap \<Rightarrow> bitmap" where
  "bm_union self items = self\<lparr>bitmap := bitmap self OR bitmap items\<rparr>"

definition bm_intersection :: "bitmap \<Rightarrow> bitmap \<Rightarrow> bitmap" where
  "bm_intersection self items = self\<lparr>bitmap := bitmap self AND bitmap items\<rparr>"

definition bm_insert :: "bitmap \<Rightarrow> u64 \<Rightarrow> bitmap" where
  "bm_insert self item = self\<lparr>bitmap := bitmap self OR shl_u64 1 item\<rparr>"

definition bm_with_item :: "bitmap \<Rightarrow> u64 \<Rightarrow> bitmap" where
  "bm_with_item self item = bm_insert self item"

definition bm_remove :: "bitmap \<Rightarrow> u64 \<Rightarrow> bitmap" where
  "bm_remove self item = self\<lparr>bitmap := bitmap self XOR shl_u64 1 item\<rparr>"

definition bm_pop :: "bitmap \<Rightarrow> bitmap \<times> u64 option" where
  "bm_pop self =
     (if bitmap self \<noteq> 0 then
        (let item = 63 - of_nat (leading_zeros (bitmap self))
         in (self\<lparr>bitmap := bitmap self XOR shl_u64 1 item\<rparr>, Some item))
      else (self, None))"

definition bm_contains :: "bitmap \<Rightarrow> u64 \<Rightarrow> bool" where
  "bm_contains self item = (bitmap self AND shl_u64 1 item \<noteq> 0)"

fun bm_contains_any :: "bitmap \<Rightarrow> u64 list \<Rightarrow> bool" where
  "bm_contains_any self [] = False"
| "bm_contains_any self (item # items) =
     (if bitmap self AND shl_u64 1 item \<noteq> 0 then True else bm_contains_any self items)"

definition bm_is_empty :: "bitmap \<Rightarrow> bool" where
  "bm_is_empty self = (bitmap self = 0)"

definition bm_clear :: "bitmap \<Rightarrow> bitmap \<times> bitmap" where
  "bm_clear self = (self\<lparr>bitmap := 0\<rparr>, \<lparr>bitmap = bitmap self\<rparr>)"

definition bm_next :: "bitmap \<Rightarrow> bitmap \<times> u64 option" where
  "bm_next self =
     (if bitmap self \<noteq> 0 then
        (let item = 63 - of_nat (leading_zeros (bitmap self))
         in (self\<lparr>bitmap := bitmap self XOR shl_u64 1 item\<rparr>, Some item))
      else (self, None))"

definition bm_from_vec :: "(u64 \<Rightarrow> bool) \<Rightarrow> u64 list \<Rightarrow> bitmap" where
  "bm_from_vec is_valid vs =
     foldl (\<lambda>bm v. if is_valid v then bm_insert bm v else bm) bm_default vs"

definition bm_from_iter :: "(u64 \<Rightarrow> bool) \<Rightarrow> u64 list \<Rightarrow> bitmap" where
  "bm_from_iter is_valid vs =
     foldl (\<lambda>bm v. if is_valid v then bm_insert bm v else bm) bm_new vs"

definition bm_from_item :: "u64 \<Rightarrow> bitmap" where
  "bm_from_item v = bm_insert bm_default v"

section \<open>The set a bitmap denotes\<close>

definition members :: "bitmap \<Rightarrow> u64 set" where
  "members b = {i. unat i < 64 \<and> bit (bitmap b) (unat i)}"

lemma shl_u64_1: "unat n < 64 \<Longrightarrow> shl_u64 1 n = push_bit (unat n) 1"
  by (simp add: shl_u64_def)

lemma bit_shl_u64_1: "unat n < 64 \<Longrightarrow> bit (shl_u64 1 n) i \<longleftrightarrow> i = unat n"
  by (auto simp: shl_u64_1 bit_simps)

lemma and_shl_eq_0: "unat n < 64 \<Longrightarrow> w AND shl_u64 1 n = 0 \<longleftrightarrow> \<not> bit w (unat n)"
  by (simp add: shl_u64_1 and_exp_eq_0_iff_not_bit push_bit_of_1)

lemma unat_inj: "unat (x::u64) = unat y \<longleftrightarrow> x = y"
  by (simp add: word_unat_eq_iff)

lemma members_insert: "unat n < 64 \<Longrightarrow> members (bm_insert b n) = insert n (members b)"
  by (auto simp: members_def bm_insert_def bit_simps bit_shl_u64_1 unat_inj)

lemma members_xor:
  "unat n < 64 \<Longrightarrow>
   members (b\<lparr>bitmap := bitmap b XOR shl_u64 1 n\<rparr>) =
     (if n \<in> members b then members b - {n} else insert n (members b))"
  by (auto simp: members_def bit_simps bit_shl_u64_1 unat_inj)

lemma members_remove:
  "unat n < 64 \<Longrightarrow>
   members (bm_remove b n) = (if n \<in> members b then members b - {n} else insert n (members b))"
  by (simp add: bm_remove_def members_xor)

lemma members_eq_empty: "members b = {} \<longleftrightarrow> bitmap b = 0"
proof
  assume *: "members b = {}"
  show "bitmap b = 0"
  proof (rule bit_eqI)
    fix i
    show "bit (bitmap b) i \<longleftrightarrow> bit 0 i"
    proof
      assume bit: "bit (bitmap b) i"
      then have "i < 64" by (auto dest: bit_imp_le_length)
      with bit have "of_nat i \<in> members b"
        by (simp add: members_def unat_of_nat take_bit_nat_eq_self)
      with * show "bit 0 i" by simp
    qed simp
  qed
qed (simp add: members_def)

lemma members_new [simp]: "members bm_new = {}" "members bm_default = {}"
  by (simp_all add: members_def bm_new_def bm_default_def)

lemma members_union: "members (bm_union a b) = members a \<union> members b"
  by (auto simp: members_def bm_union_def bit_simps)

lemma members_intersection: "members (bm_intersection a b) = members a \<inter> members b"
  by (auto simp: members_def bm_intersection_def bit_simps)

lemma members_all:
  assumes "0 < T_max" and "T_max \<le> 64"
  shows "members (bm_all T_max) = {i. i < T_max}"
proof -
  have "unat T_max \<le> 64" "0 < unat T_max"
    using assms by (simp_all add: word_le_nat_alt word_less_nat_alt)
  moreover from this have "unat (64 - T_max) = 64 - unat T_max"
    using assms(2) by (subst unat_sub) simp_all
  ultimately show ?thesis
    by (auto simp: members_def bm_all_def bit_simps word_less_nat_alt)
qed

lemma contains_members: "unat n < 64 \<Longrightarrow> bm_contains b n \<longleftrightarrow> n \<in> members b"
  by (simp add: bm_contains_def and_shl_eq_0 members_def)

lemma contains_any_members:
  "\<forall>n \<in> set ns. unat n < 64 \<Longrightarrow> bm_contains_any b ns \<longleftrightarrow> set ns \<inter> members b \<noteq> {}"
  by (induction ns) (auto simp: and_shl_eq_0 members_def)

lemma is_empty_members: "bm_is_empty b \<longleftrightarrow> members b = {}"
  by (simp add: bm_is_empty_def members_eq_empty)

lemma finite_members [simp]: "finite (members b)"
  by (rule finite_subset [OF subset_UNIV]) simp

lemma bitmap_eqI: "members a = members b \<Longrightarrow> a = b"
proof -
  assume *: "members a = members b"
  have "bitmap a = bitmap b"
  proof (rule bit_word_eqI)
    fix n assume "n < LENGTH(64)"
    then have "unat (of_nat n :: u64) = n" "n < 64"
      by (simp_all add: unat_of_nat take_bit_nat_eq_self)
    then show "bit (bitmap a) n = bit (bitmap b) n"
      using * by (auto simp: members_def set_eq_iff dest!: spec [of _ "of_nat n"])
  qed
  then show "a = b" by simp
qed

section \<open>Taking the greatest member\<close>

lemma top_item:
  assumes "bitmap b \<noteq> 0"
  defines "item \<equiv> 63 - of_nat (leading_zeros (bitmap b)) :: u64"
  shows "item \<in> members b" and "\<forall>i \<in> members b. i \<le> item" and "unat item < 64"
proof -
  let ?w = "bitmap b"
  from assms(1) have "members b \<noteq> {}" by (simp add: members_eq_empty)
  then obtain i :: u64 where i: "unat i < 64" "bit ?w (unat i)" by (auto simp: members_def)
  from leading_zeros_bound [OF i(2)] have lz: "leading_zeros ?w \<le> 63" by simp
  then have item: "unat item = 63 - leading_zeros ?w"
    unfolding item_def by (subst unat_sub) (simp_all add: word_le_nat_alt unat_of_nat take_bit_nat_eq_self)
  then show "unat item < 64" by simp
  have "bit ?w (63 - leading_zeros ?w)"
  proof -
    define xs where "xs = rev [0..<64::nat]"
    have len: "length (takeWhile (\<lambda>i. \<not> bit ?w i) xs) < length xs"
      using lz by (simp add: leading_zeros_def xs_def del: upt_rec_numeral)
    from nth_length_takeWhile [OF this]
    have "bit ?w (xs ! leading_zeros ?w)"
      by (simp add: leading_zeros_def xs_def del: upt_rec_numeral)
    moreover have "xs ! leading_zeros ?w = 63 - leading_zeros ?w"
      using lz by (simp add: xs_def rev_nth del: upt_rec_numeral)
    ultimately show ?thesis by simp
  qed
  with item show "item \<in> members b" by (simp add: members_def)
  show "\<forall>i \<in> members b. i \<le> item"
    using item by (auto simp: members_def word_le_nat_alt dest: leading_zeros_bound(1))
qed

lemma bm_next_empty: "bitmap b = 0 \<Longrightarrow> bm_next b = (b, None)"
  by (simp add: bm_next_def)

lemma bm_next_item:
  assumes "bitmap b \<noteq> 0"
  obtains n b' where "bm_next b = (b', Some n)" "n \<in> members b" "\<forall>i \<in> members b. i \<le> n"
    "members b' = members b - {n}"
proof -
  define item :: u64 where "item = 63 - of_nat (leading_zeros (bitmap b))"
  note facts = top_item [OF assms, folded item_def]
  show thesis
  proof (rule that)
    show "bm_next b = (b\<lparr>bitmap := bitmap b XOR shl_u64 1 item\<rparr>, Some item)"
      using assms by (simp add: bm_next_def item_def Let_def)
    show "members (b\<lparr>bitmap := bitmap b XOR shl_u64 1 item\<rparr>) = members b - {item}"
      using facts by (simp only: members_xor if_True)
  qed (use facts in simp_all)
qed

lemma bm_next_cases [case_names nothing top]:
  assumes "members b = {} \<Longrightarrow> bm_next b = (b, None) \<Longrightarrow> P"
    and "\<And>n b'. bm_next b = (b', Some n) \<Longrightarrow> n \<in> members b \<Longrightarrow> \<forall>i \<in> members b. i \<le> n \<Longrightarrow>
      members b' = members b - {n} \<Longrightarrow> P"
  shows P
proof (cases "bitmap b = 0")
  case True
  then show P by (intro assms(1)) (simp_all add: members_eq_empty bm_next_empty)
next
  case False
  then show P by (rule bm_next_item) (rule assms(2))
qed

lemma bm_next_shrinks: "bm_next b = (b', Some n) \<Longrightarrow> card (members b') < card (members b)"
  by (cases b rule: bm_next_cases) (auto intro!: psubset_card_mono simp del: card_Diff_insert)

lemma bm_pop_eq_next: "bm_pop b = bm_next b"
  by (simp add: bm_pop_def bm_next_def)

text \<open>\<open>Vec::from(bitmap)\<close>: the loop that drains the iterator.\<close>

function bm_into_vec :: "bitmap \<Rightarrow> u64 list" where
  "bm_into_vec b = (case bm_next b of (b', Some n) \<Rightarrow> n # bm_into_vec b' | (_, None) \<Rightarrow> [])"
  by auto
termination
  by (relation "measure (\<lambda>b. card (members b))") (simp_all add: bm_next_shrinks [OF sym])

declare bm_into_vec.simps [simp del]

lemma set_into_vec: "set (bm_into_vec b) = members b"
proof (induction b rule: bm_into_vec.induct)
  case (1 b)
  then show ?case
    by (cases b rule: bm_next_cases) (subst bm_into_vec.simps; auto)+
qed

lemma into_vec_descending: "sorted_wrt (>) (bm_into_vec b)"
proof (induction b rule: bm_into_vec.induct)
  case (1 b)
  then show ?case
    by (cases b rule: bm_next_cases)
      (subst bm_into_vec.simps; auto simp: set_into_vec order.strict_iff_order)+
qed

interpretation bm: item_set "\<lambda>_. True" "\<lambda>i. unat i < 64" members bm_new bm_insert bm_union
    bm_intersection bm_contains bm_is_empty
  by unfold_locales
    (simp_all add: members_insert members_union members_intersection contains_members is_empty_members)

lemma members_from_vec:
  assumes "\<And>v. is_valid v \<Longrightarrow> unat v < 64"
  shows "members (bm_from_vec is_valid vs) = {v \<in> set vs. is_valid v}"
  using bm.collect_items [of is_valid vs] assms by (simp add: bm_from_vec_def bm_new_def)

lemma members_from_iter:
  assumes "\<And>v. is_valid v \<Longrightarrow> unat v < 64"
  shows "members (bm_from_iter is_valid vs) = {v \<in> set vs. is_valid v}"
  using bm.collect_items [of is_valid vs] assms by (simp add: bm_from_iter_def)

lemma into_vec_eqI:
  "set xs = members b \<Longrightarrow> sorted_wrt (>) xs \<Longrightarrow> bm_into_vec b = xs"
  using strict_sorted_equal [of "rev xs" "rev (bm_into_vec b)"] into_vec_descending [of b]
  by (simp add: set_into_vec sorted_wrt_rev)

lemma bm_pop_greatest:
  "case bm_pop b of
     (b', None) \<Rightarrow> members b = {} \<and> b' = b
   | (b', Some n) \<Rightarrow> members b \<noteq> {} \<and> n = Max (members b) \<and> members b' = members b - {Max (members b)}"
proof (cases b rule: bm_next_cases)
  case nothing
  then show ?thesis by (simp add: bm_pop_eq_next)
next
  case (top n b')
  then have "Max (members b) = n" by (intro Max_eqI) auto
  with top show ?thesis by (auto simp: bm_pop_eq_next)
qed

text \<open>
  C29: Collecting items into a bitmap and iterating over it again yields exactly the distinct
  valid items, in descending order, and the iteration ends, provided every valid item is below 64.
  On any bitmap \<open>pop\<close> returns and removes the greatest member, and it returns nothing and leaves
  the bitmap as it is exactly when there is no member.
\<close>

theorem bitmap_collect_iterate:
  assumes "\<And>v. is_valid v \<Longrightarrow> v < 64"
  shows "bm_into_vec (bm_from_vec is_valid vs) = rev (sorted_list_of_set {v \<in> set vs. is_valid v}) \<and>
    (case bm_pop b of
       (b', None) \<Rightarrow> members b = {} \<and> b' = b
     | (b', Some n) \<Rightarrow>
         members b \<noteq> {} \<and> n = Max (members b) \<and> members b' = members b - {Max (members b)})"
proof (rule conjI [OF into_vec_eqI bm_pop_greatest])
  have "unat v < 64" if "is_valid v" for v
    using assms [OF that] by (simp add: word_less_nat_alt)
  from members_from_vec [OF this]
  show "set (rev (sorted_list_of_set {v \<in> set vs. is_valid v})) = members (bm_from_vec is_valid vs)"
    by simp
  show "sorted_wrt (>) (rev (sorted_list_of_set {v \<in> set vs. is_valid v}))"
    by (simp add: sorted_wrt_rev)
qed

theorem bitmap_collect_iterate_witness:
  "bm_into_vec (bm_from_vec (\<lambda>v. v < 10) [3, 12, 3, 9, 0]) = [9, 3, 0] \<and>
   bm_pop \<lparr>bitmap = 5\<rparr> = (\<lparr>bitmap = 1\<rparr>, Some 2)"
proof -
  have "v < 64" if "(v::u64) < 10" for v
    using that by (auto intro: order.strict_trans)
  moreover have "{v \<in> set [3, 12, 3, 9, 0]. v < 10} = {0, 3, 9 :: u64}" by auto
  moreover have "bm_pop \<lparr>bitmap = 5\<rparr> = (\<lparr>bitmap = 1\<rparr>, Some 2)" by code_simp
  ultimately show ?thesis
    using bitmap_collect_iterate [of "\<lambda>v. v < 10" "[3, 12, 3, 9, 0]" "\<lparr>bitmap = 5\<rparr>"] by simp
qed

end
