(* ===== verification/Bitset.thy ===== *)
theory Bitset
  imports Bitmap
begin

text \<open>
  The fixed-size bit set of several words, \<open>trc/src/ipc/bitset.rs\<close>, which the directory uses
  for permissions.  A \<open>Bitset<N>\<close> is the list of its \<open>N\<close> words; an index outside the array,
  on which the source panics, gives \<open>None\<close>.

  The lemmas show that the words behave as one set of indices below \<open>64 * N\<close> and that the
  structure provides the interface of a set of small items.
\<close>

type_synonym bitset = "usize list"

definition USIZE_BITS :: nat where
  "USIZE_BITS = 8 * 8"

definition USIZE_BITS_MASK :: nat where
  "USIZE_BITS_MASK = USIZE_BITS - 1"

definition bs_new :: "nat \<Rightarrow> bitset" where
  "bs_new N = replicate N 0"

definition bs_all :: "nat \<Rightarrow> bitset" where
  "bs_all N = replicate N (- 1)"

definition bs_set :: "bitset \<Rightarrow> nat \<Rightarrow> bitset option" where
  "bs_set b index =
     (let i = index div USIZE_BITS
      in if i < length b
         then Some (b[i := b ! i OR push_bit (index AND USIZE_BITS_MASK) 1])
         else None)"

definition bs_clear :: "bitset \<Rightarrow> nat \<Rightarrow> bitset option" where
  "bs_clear b index =
     (let i = index div USIZE_BITS
      in if i < length b
         then Some (b[i := b ! i AND NOT (push_bit (index AND USIZE_BITS_MASK) 1)])
         else None)"

definition bs_get :: "bitset \<Rightarrow> nat \<Rightarrow> bool option" where
  "bs_get b index =
     (let i = index div USIZE_BITS
      in if i < length b
         then Some (b ! i AND push_bit (index AND USIZE_BITS_MASK) 1 \<noteq> 0)
         else None)"

definition bs_union :: "bitset \<Rightarrow> bitset \<Rightarrow> bitset" where
  "bs_union b other = map2 (\<lambda>x y. x OR y) b other"

definition bs_intersection :: "bitset \<Rightarrow> bitset \<Rightarrow> bitset" where
  "bs_intersection b other = map2 (\<lambda>x y. x AND y) b other"

definition bs_difference :: "bitset \<Rightarrow> bitset \<Rightarrow> bitset" where
  "bs_difference b other = map2 (\<lambda>x y. x AND NOT y) b other"

definition bs_clear_all :: "bitset \<Rightarrow> bitset" where
  "bs_clear_all b = map (\<lambda>_. 0) b"

definition bs_is_empty :: "bitset \<Rightarrow> bool" where
  "bs_is_empty b = list_all (\<lambda>w. w = 0) b"

section \<open>The set a bitset denotes\<close>

definition indices :: "bitset \<Rightarrow> nat set" where
  "indices b = {i. i div 64 < length b \<and> bit (b ! (i div 64)) (i mod 64)}"

lemma index_parts: "index div USIZE_BITS = index div 64" "index AND USIZE_BITS_MASK = index mod 64"
proof -
  show "index div USIZE_BITS = index div 64" by (simp add: USIZE_BITS_def)
  have "index AND mask 6 = take_bit 6 index" by (simp add: take_bit_eq_mask)
  then show "index AND USIZE_BITS_MASK = index mod 64"
    by (simp add: USIZE_BITS_MASK_def USIZE_BITS_def mask_eq_exp_minus_1 take_bit_eq_mod)
qed

lemma index_eq_iff: "(i::nat) = j \<longleftrightarrow> i div 64 = j div 64 \<and> i mod 64 = j mod 64"
  by (metis div_mod_decomp)

lemma bs_set_Some: "index div 64 < length b \<Longrightarrow>
  \<exists>b'. bs_set b index = Some b' \<and> length b' = length b \<and> indices b' = insert index (indices b)"
  by (auto simp: bs_set_def Let_def index_parts indices_def bit_simps nth_list_update
      index_eq_iff [of _ index] split: if_splits)

lemma bs_get_indices:
  "index div 64 < length b \<Longrightarrow> bs_get b index = Some (index \<in> indices b)"
  by (simp add: bs_get_def Let_def index_parts indices_def and_exp_eq_0_iff_not_bit push_bit_of_1)

lemma indices_new: "indices (bs_new N) = {}"
  by (auto simp: indices_def bs_new_def)

lemma indices_all: "indices (bs_all N) = {i. i < 64 * N}"
  by (auto simp: indices_def bs_all_def bit_simps)

lemma length_bitset_ops [simp]:
  "length (bs_new N) = N" "length (bs_all N) = N"
  "length (bs_union b c) = min (length b) (length c)"
  "length (bs_intersection b c) = min (length b) (length c)"
  "length (bs_difference b c) = min (length b) (length c)"
  by (simp_all add: bs_new_def bs_all_def bs_union_def bs_intersection_def bs_difference_def)

lemma indices_union: "length b = length c \<Longrightarrow> indices (bs_union b c) = indices b \<union> indices c"
  by (auto simp: indices_def bs_union_def bit_simps)

lemma indices_intersection:
  "length b = length c \<Longrightarrow> indices (bs_intersection b c) = indices b \<inter> indices c"
  by (auto simp: indices_def bs_intersection_def bit_simps)

lemma indices_difference:
  "length b = length c \<Longrightarrow> indices (bs_difference b c) = indices b - indices c"
  by (auto simp: indices_def bs_difference_def bit_simps)

lemma bs_is_empty_indices: "bs_is_empty b \<longleftrightarrow> indices b = {}"
proof
  assume "bs_is_empty b"
  then show "indices b = {}" by (auto simp: bs_is_empty_def indices_def list_all_length)
next
  assume *: "indices b = {}"
  have "b ! n = 0" if "n < length b" for n
  proof (rule bit_word_eqI)
    fix i assume "i < LENGTH(64)"
    then have "(64 * n + i) div 64 = n" "(64 * n + i) mod 64 = i" by simp_all
    with * that show "bit (b ! n) i = bit 0 i"
      by (auto simp: indices_def dest!: spec [of _ "64 * n + i"])
  qed
  then show "bs_is_empty b" by (simp add: bs_is_empty_def list_all_length)
qed

lemma bs_set_ok:
  "i < 64 * length b \<Longrightarrow>
   length (the (bs_set b i)) = length b \<and> indices (the (bs_set b i)) = insert i (indices b)"
  using bs_set_Some [of i b] by fastforce

text \<open>Sets of items with a difference, as the permission sets need it.\<close>

locale item_set_diff = item_set +
  fixes diff :: "'a \<Rightarrow> 'a \<Rightarrow> 'a"
  assumes diff_set: "inv b \<Longrightarrow> inv c \<Longrightarrow> inv (diff b c) \<and> elems (diff b c) = elems b - elems c"
begin

text \<open>Granting the union of some sets except the union of others.\<close>

lemma granted_except:
  assumes "\<forall>b \<in> set bs. inv b" and "\<forall>c \<in> set cs. inv c"
  shows "elems (diff (foldl uni none bs) (foldl uni none cs)) =
    (\<Union>b \<in> set bs. elems b) - (\<Union>c \<in> set cs. elems c)"
  using union_all [of none bs] union_all [of none cs] assms by (simp add: diff_set none_set)

end

interpretation bs: item_set_diff "\<lambda>b. length b = N" "\<lambda>i. i < 64 * N" indices "bs_new N"
    "\<lambda>b i. the (bs_set b i)" bs_union bs_intersection "\<lambda>b i. bs_get b i = Some True" bs_is_empty
    bs_difference
  for N :: nat
  by unfold_locales
    (auto simp: indices_new indices_union indices_intersection indices_difference bs_get_indices
      bs_is_empty_indices bs_set_ok)

end
