(* ===== verification/Decimal.thy ===== *)
theory Decimal
  imports Prelude
begin

text \<open>
  Decimal numerals as the standard library prints and parses them: \<open>to_string\<close> and
  \<open>str::parse\<close> of the unsigned integers.  Several components convert numbers of the wire or of
  the configuration this way, and the round trip is shared here.

  \<open>parse_uint\<close> takes the width in bits: a numeral has an optional plus sign and at least one
  digit, and every multiplication and addition is checked against the width.
\<close>

definition digit_char :: "nat \<Rightarrow> char" where
  "digit_char d = char_of (48 + d)"

definition is_digit :: "char \<Rightarrow> bool" where
  "is_digit c = (48 \<le> (of_char c :: nat) \<and> of_char c \<le> (57 :: nat))"

definition digit_val :: "char \<Rightarrow> nat" where
  "digit_val c = of_char c - 48"

fun nat_to_string :: "nat \<Rightarrow> string" where
  "nat_to_string n =
     (if n < 10 then [digit_char n] else nat_to_string (n div 10) @ [digit_char (n mod 10)])"

declare nat_to_string.simps [simp del]

definition to_string :: "'a::len word \<Rightarrow> string" where
  "to_string w = nat_to_string (unat w)"

fun parse_digits :: "nat \<Rightarrow> nat \<Rightarrow> string \<Rightarrow> nat option" where
  "parse_digits bits acc [] = Some acc"
| "parse_digits bits acc (c # cs) =
     (if is_digit c then
        (let acc' = acc * 10 + digit_val c
         in if acc' < 2 ^ bits then parse_digits bits acc' cs else None)
      else None)"

definition parse_uint :: "nat \<Rightarrow> string \<Rightarrow> nat option" where
  "parse_uint bits s =
     (let ds = (case s of c # cs \<Rightarrow> if c = CHR ''+'' then cs else s | [] \<Rightarrow> s)
      in if ds = [] then None else parse_digits bits 0 ds)"

definition parse_u64 :: "string \<Rightarrow> u64 option" where
  "parse_u64 s = map_option of_nat (parse_uint 64 s)"

definition parse_u32 :: "string \<Rightarrow> u32 option" where
  "parse_u32 s = map_option of_nat (parse_uint 32 s)"

lemma digit_char [simp]:
  assumes "d < 10"
  shows "is_digit (digit_char d)" and "digit_val (digit_char d) = d" and "digit_char d \<noteq> CHR ''+''"
proof -
  have code: "of_char (digit_char d) = 48 + d"
    using assms by (simp add: digit_char_def)
  from code assms show "is_digit (digit_char d)" "digit_val (digit_char d) = d"
    by (simp_all add: is_digit_def digit_val_def)
  show "digit_char d \<noteq> CHR ''+''"
  proof
    assume "digit_char d = CHR ''+''"
    then have "of_char (digit_char d) = (43::nat)" by simp
    with code show False by simp
  qed
qed

lemma nat_to_string_not_Nil [simp]: "nat_to_string n \<noteq> []"
  by (subst nat_to_string.simps) simp

lemma nat_to_string_digits: "c \<in> set (nat_to_string n) \<Longrightarrow> is_digit c"
proof (induction n rule: nat_to_string.induct)
  case (1 n)
  then show ?case
    by (subst (asm) (2) nat_to_string.simps) (auto split: if_splits)
qed

lemma parse_digits_append:
  "parse_digits bits acc (xs @ ys) =
     (case parse_digits bits acc xs of None \<Rightarrow> None | Some a \<Rightarrow> parse_digits bits a ys)"
  by (induction bits acc xs rule: parse_digits.induct) (simp_all add: Let_def)

lemma parse_digits_nat_to_string:
  "n < 2 ^ bits \<Longrightarrow> parse_digits bits 0 (nat_to_string n) = Some n"
proof (induction n rule: nat_to_string.induct)
  case (1 n)
  show ?case
  proof (cases "n < 10")
    case True
    with 1(2) show ?thesis by (simp add: nat_to_string.simps [of n])
  next
    case False
    then have "parse_digits bits 0 (nat_to_string (n div 10)) = Some (n div 10)"
      using 1 by simp
    moreover have "n div 10 * 10 + n mod 10 = n" by simp
    ultimately show ?thesis
      using False 1(2) by (simp add: nat_to_string.simps [of n] parse_digits_append)
  qed
qed

lemma parse_digits_bound: "parse_digits bits acc ds = Some n \<Longrightarrow> acc < 2 ^ bits \<Longrightarrow> n < 2 ^ bits"
  by (induction bits acc ds rule: parse_digits.induct) (auto simp: Let_def split: if_splits)

lemma parse_uint_nat_to_string: "n < 2 ^ bits \<Longrightarrow> parse_uint bits (nat_to_string n) = Some n"
proof -
  assume n: "n < 2 ^ bits"
  obtain c cs where *: "nat_to_string n = c # cs" by (cases "nat_to_string n") auto
  then have "is_digit c" using nat_to_string_digits [of c n] by simp
  then have "c \<noteq> CHR ''+''" by (auto simp: is_digit_def)
  with * parse_digits_nat_to_string [OF n] show ?thesis by (simp add: parse_uint_def)
qed

lemma parse_uint_to_string:
  "LENGTH('a) = bits \<Longrightarrow> parse_uint bits (to_string (w::'a::len word)) = Some (unat w)"
  unfolding to_string_def by (rule parse_uint_nat_to_string) (metis unsigned_less)

lemma parse_to_string [simp]:
  "parse_u64 (to_string (w::u64)) = Some w" "parse_u32 (to_string (v::u32)) = Some v"
  by (simp_all add: parse_u64_def parse_u32_def parse_uint_to_string)

lemma to_string_inj: "to_string (v::u64) = to_string w \<longleftrightarrow> v = w"
  by (metis option.inject parse_to_string(1))

end
