(* ===== verification/Principal.thy ===== *)
theory Principal
  imports Decimal
begin

text \<open>
  Directory principals: \<open>directory/src/core/principal.rs\<close> with the field and value types of
  \<open>directory/src/backend/internal/mod.rs\<close> and \<open>directory/src/lib.rs\<close>.

  A principal is its identifier, its type and a map from fields to values; a value is a string,
  an integer or a list of either, and the accessors convert between the four forms.  The
  \<open>take\<close> methods return the value and the principal without the field.  A closure passed to
  \<open>retain\<close> is a predicate.

  The lemmas show that the conversions agree with each other, that appending never loses or
  duplicates a value of the right kind, and that the update list which
  \<open>update_external\<close> returns describes exactly the change it made to the principal in memory.
\<close>

datatype principal_type =
  Individual | Group | Resource | Location | List | Other | Domain | Tenant_type | Role | ApiKey
| OauthClient

datatype PrincipalField =
  Name | Type | Quota | UsedQuota | Description | Secrets | Emails | MemberOf | Members | Tenant
| Roles | Lists | EnabledPermissions | DisabledPermissions | Picture | Urls | ExternalMembers

datatype PrincipalValue =
  PString string | PStringList "string list" | PInteger u64 | PIntegerList "u64 list"

datatype PrincipalAction = ActSet | ActAddItem | ActRemoveItem

record PrincipalUpdate =
  upd_action :: PrincipalAction
  upd_field :: PrincipalField
  upd_value :: PrincipalValue

record Principal =
  p_id :: u32
  p_typ :: principal_type
  p_fields :: "PrincipalField \<rightharpoonup> PrincipalValue"

section \<open>Values\<close>

definition first_of :: "'a list \<Rightarrow> 'a option" where
  "first_of xs = (case xs of [] \<Rightarrow> None | x # _ \<Rightarrow> Some x)"

fun as_str :: "PrincipalValue \<Rightarrow> string option" where
  "as_str (PString v) = Some v"
| "as_str (PStringList v) = first_of v"
| "as_str _ = None"

fun as_int :: "PrincipalValue \<Rightarrow> u64 option" where
  "as_int (PInteger v) = Some v"
| "as_int (PIntegerList v) = first_of v"
| "as_int _ = None"

fun value_iter_str :: "PrincipalValue \<Rightarrow> string list" where
  "value_iter_str (PString v) = [v]"
| "value_iter_str (PStringList v) = v"
| "value_iter_str _ = []"

fun value_iter_int :: "PrincipalValue \<Rightarrow> u64 list" where
  "value_iter_int (PInteger v) = [v]"
| "value_iter_int (PIntegerList v) = v"
| "value_iter_int _ = []"

fun into_array :: "PrincipalValue \<Rightarrow> PrincipalValue" where
  "into_array (PString v) = PStringList [v]"
| "into_array (PInteger v) = PIntegerList [v]"
| "into_array v = v"

fun into_str_array :: "PrincipalValue \<Rightarrow> string list" where
  "into_str_array (PStringList v) = v"
| "into_str_array (PString v) = [v]"
| "into_str_array (PInteger v) = [to_string v]"
| "into_str_array (PIntegerList v) = map to_string v"

definition parse_or_default :: "string \<Rightarrow> u64" where
  "parse_or_default s = (case parse_u64 s of Some v \<Rightarrow> v | None \<Rightarrow> 0)"

fun into_int_array :: "PrincipalValue \<Rightarrow> u64 list" where
  "into_int_array (PIntegerList v) = v"
| "into_int_array (PInteger v) = [v]"
| "into_int_array (PString v) = [parse_or_default v]"
| "into_int_array (PStringList v) = map parse_or_default v"

fun serialized_size :: "PrincipalValue \<Rightarrow> nat" where
  "serialized_size (PString s) = length s + 2"
| "serialized_size (PStringList s) = sum_list (map (\<lambda>s. length s + 2) s)"
| "serialized_size (PInteger _) = 8"
| "serialized_size (PIntegerList l) = length l * 8"

section \<open>Reading fields\<close>

definition get_str :: "Principal \<Rightarrow> PrincipalField \<Rightarrow> string option" where
  "get_str p key = Option.bind (p_fields p key) as_str"

definition get_int :: "Principal \<Rightarrow> PrincipalField \<Rightarrow> u64 option" where
  "get_int p key = Option.bind (p_fields p key) as_int"

definition get_str_array :: "Principal \<Rightarrow> PrincipalField \<Rightarrow> string list option" where
  "get_str_array p key =
     Option.bind (p_fields p key)
       (\<lambda>v. case v of PStringList v \<Rightarrow> Some v | PString v \<Rightarrow> Some [v] | _ \<Rightarrow> None)"

definition get_int_array :: "Principal \<Rightarrow> PrincipalField \<Rightarrow> u64 list option" where
  "get_int_array p key =
     Option.bind (p_fields p key)
       (\<lambda>v. case v of PIntegerList v \<Rightarrow> Some v | PInteger v \<Rightarrow> Some [v] | _ \<Rightarrow> None)"

definition principal_name :: "Principal \<Rightarrow> string" where
  "principal_name p = (case get_str p Name of Some s \<Rightarrow> s | None \<Rightarrow> [])"

definition principal_quota :: "Principal \<Rightarrow> u64" where
  "principal_quota p = (case get_int p Quota of Some q \<Rightarrow> q | None \<Rightarrow> 0)"

definition principal_tenant :: "Principal \<Rightarrow> u32 option" where
  "principal_tenant p = map_option ucast (get_int p Tenant)"

definition iter_str :: "Principal \<Rightarrow> PrincipalField \<Rightarrow> string list" where
  "iter_str p key = (case p_fields p key of Some v \<Rightarrow> value_iter_str v | None \<Rightarrow> [])"

definition iter_int :: "Principal \<Rightarrow> PrincipalField \<Rightarrow> u64 list" where
  "iter_int p key = (case p_fields p key of Some v \<Rightarrow> value_iter_int v | None \<Rightarrow> [])"

definition has_field :: "Principal \<Rightarrow> PrincipalField \<Rightarrow> bool" where
  "has_field p key = (p_fields p key \<noteq> None)"

definition has_str_value :: "Principal \<Rightarrow> PrincipalField \<Rightarrow> string \<Rightarrow> bool" where
  "has_str_value p key s =
     (case p_fields p key of
        None \<Rightarrow> False
      | Some (PString v) \<Rightarrow> v = s
      | Some (PStringList l) \<Rightarrow> list_ex (\<lambda>v. v = s) l
      | Some _ \<Rightarrow> False)"

definition has_int_value :: "Principal \<Rightarrow> PrincipalField \<Rightarrow> u64 \<Rightarrow> bool" where
  "has_int_value p key i =
     (case p_fields p key of
        None \<Rightarrow> False
      | Some (PInteger v) \<Rightarrow> v = i
      | Some (PIntegerList l) \<Rightarrow> list_ex (\<lambda>v. v = i) l
      | Some _ \<Rightarrow> False)"

definition field_len :: "Principal \<Rightarrow> PrincipalField \<Rightarrow> nat" where
  "field_len p key =
     (case p_fields p key of
        None \<Rightarrow> 0
      | Some (PString _) \<Rightarrow> 1
      | Some (PStringList l) \<Rightarrow> length l
      | Some (PInteger _) \<Rightarrow> 1
      | Some (PIntegerList l) \<Rightarrow> length l)"

section \<open>Changing fields\<close>

definition principal_new :: "u32 \<Rightarrow> principal_type \<Rightarrow> Principal" where
  "principal_new i t = \<lparr>p_id = i, p_typ = t, p_fields = Map.empty\<rparr>"

definition principal_take :: "Principal \<Rightarrow> PrincipalField \<Rightarrow> Principal \<times> PrincipalValue option" where
  "principal_take p key = (p\<lparr>p_fields := (p_fields p)(key := None)\<rparr>, p_fields p key)"

definition take_str :: "Principal \<Rightarrow> PrincipalField \<Rightarrow> Principal \<times> string option" where
  "take_str p key =
     (let (p', v) = principal_take p key
      in (p', Option.bind v (\<lambda>v. case v of
               PString s \<Rightarrow> Some s
             | PStringList l \<Rightarrow> first_of l
             | PInteger i \<Rightarrow> Some (to_string i)
             | PIntegerList l \<Rightarrow> map_option to_string (first_of l))))"

definition take_int :: "Principal \<Rightarrow> PrincipalField \<Rightarrow> Principal \<times> u64 option" where
  "take_int p key =
     (let (p', v) = principal_take p key
      in (p', Option.bind v (\<lambda>v. case v of
               PInteger i \<Rightarrow> Some i
             | PIntegerList l \<Rightarrow> first_of l
             | PString s \<Rightarrow> parse_u64 s
             | PStringList l \<Rightarrow> Option.bind (first_of l) parse_u64)))"

definition take_str_array :: "Principal \<Rightarrow> PrincipalField \<Rightarrow> Principal \<times> string list option" where
  "take_str_array p key =
     (let (p', v) = principal_take p key in (p', map_option into_str_array v))"

definition take_int_array :: "Principal \<Rightarrow> PrincipalField \<Rightarrow> Principal \<times> u64 list option" where
  "take_int_array p key =
     (let (p', v) = principal_take p key in (p', map_option into_int_array v))"

definition principal_set :: "Principal \<Rightarrow> PrincipalField \<Rightarrow> PrincipalValue \<Rightarrow> Principal" where
  "principal_set p key v = p\<lparr>p_fields := (p_fields p)(key \<mapsto> v)\<rparr>"

definition with_field :: "Principal \<Rightarrow> PrincipalField \<Rightarrow> PrincipalValue \<Rightarrow> Principal" where
  "with_field p key v = principal_set p key v"

definition with_opt_field :: "Principal \<Rightarrow> PrincipalField \<Rightarrow> PrincipalValue option \<Rightarrow> Principal" where
  "with_opt_field p key v = (case v of Some v \<Rightarrow> principal_set p key v | None \<Rightarrow> p)"

definition append_int :: "Principal \<Rightarrow> PrincipalField \<Rightarrow> u64 \<Rightarrow> Principal" where
  "append_int p key x =
     (case p_fields p key of
        Some (PIntegerList v) \<Rightarrow>
          if x \<notin> set v then principal_set p key (PIntegerList (v @ [x])) else p
      | Some (PInteger i) \<Rightarrow>
          if x \<noteq> i then principal_set p key (PIntegerList [i, x]) else p
      | Some (PString s) \<Rightarrow> principal_set p key (PIntegerList [parse_or_default s, x])
      | Some (PStringList l) \<Rightarrow> principal_set p key (PIntegerList (map parse_or_default l @ [x]))
      | None \<Rightarrow> principal_set p key (PIntegerList [x]))"

definition append_str :: "Principal \<Rightarrow> PrincipalField \<Rightarrow> string \<Rightarrow> Principal" where
  "append_str p key x =
     (case p_fields p key of
        Some (PStringList v) \<Rightarrow>
          if x \<notin> set v then principal_set p key (PStringList (v @ [x])) else p
      | Some (PString s) \<Rightarrow>
          if s \<noteq> x then principal_set p key (PStringList [s, x]) else p
      | Some (PInteger i) \<Rightarrow> principal_set p key (PStringList [to_string i, x])
      | Some (PIntegerList l) \<Rightarrow> principal_set p key (PStringList (map to_string l @ [x]))
      | None \<Rightarrow> principal_set p key (PStringList [x]))"

definition prepend_str :: "Principal \<Rightarrow> PrincipalField \<Rightarrow> string \<Rightarrow> Principal" where
  "prepend_str p key x =
     (case p_fields p key of
        Some (PStringList v) \<Rightarrow>
          if x \<notin> set v then principal_set p key (PStringList (x # v)) else p
      | Some (PString s) \<Rightarrow>
          if s \<noteq> x then principal_set p key (PStringList [x, s]) else p
      | Some (PInteger i) \<Rightarrow> principal_set p key (PStringList [x, to_string i])
      | Some (PIntegerList l) \<Rightarrow> principal_set p key (PStringList (x # map to_string l))
      | None \<Rightarrow> principal_set p key (PStringList [x]))"

definition principal_remove :: "Principal \<Rightarrow> PrincipalField \<Rightarrow> Principal \<times> PrincipalValue option" where
  "principal_remove p key = (p\<lparr>p_fields := (p_fields p)(key := None)\<rparr>, p_fields p key)"

definition retain_str :: "Principal \<Rightarrow> PrincipalField \<Rightarrow> (string \<Rightarrow> bool) \<Rightarrow> Principal" where
  "retain_str p key f =
     (case p_fields p key of
        Some (PString s) \<Rightarrow> if \<not> f s then fst (principal_remove p key) else p
      | Some (PStringList l) \<Rightarrow>
          (let l' = filter f l
           in if l' = [] then fst (principal_remove p key) else principal_set p key (PStringList l'))
      | _ \<Rightarrow> p)"

definition retain_int :: "Principal \<Rightarrow> PrincipalField \<Rightarrow> (u64 \<Rightarrow> bool) \<Rightarrow> Principal" where
  "retain_int p key f =
     (case p_fields p key of
        Some (PInteger i) \<Rightarrow> if \<not> f i then fst (principal_remove p key) else p
      | Some (PIntegerList l) \<Rightarrow>
          (let l' = filter f l
           in if l' = [] then fst (principal_remove p key) else principal_set p key (PIntegerList l'))
      | _ \<Rightarrow> p)"

definition ROLE_ADMIN :: u32 where
  "ROLE_ADMIN = - 1"

definition ROLE_TENANT_ADMIN :: u32 where
  "ROLE_TENANT_ADMIN = - 1 - 1"

definition ROLE_USER :: u32 where
  "ROLE_USER = - 1 - 2"

definition fallback_admin :: "string \<Rightarrow> Principal" where
  "fallback_admin fallback_pass =
     with_field
       (with_field
         (with_field \<lparr>p_id = - 1, p_typ = Individual, p_fields = Map.empty\<rparr>
           Name (PString ''Fallback Administrator''))
         Secrets (PString fallback_pass))
       Roles (PInteger (ucast ROLE_ADMIN))"

section \<open>Merging an external principal\<close>

definition non_empty :: "'a list option \<Rightarrow> 'a list option" where
  "non_empty x = (case x of Some (v # vs) \<Rightarrow> Some (v # vs) | _ \<Rightarrow> None)"

definition update_set :: "PrincipalField \<Rightarrow> PrincipalValue \<Rightarrow> PrincipalUpdate" where
  "update_set f v = \<lparr>upd_action = ActSet, upd_field = f, upd_value = v\<rparr>"

definition update_description ::
    "Principal \<times> PrincipalUpdate list \<Rightarrow> string option \<Rightarrow> Principal \<times> PrincipalUpdate list" where
  "update_description st d =
     (case (st, non_empty d) of
        ((self, updates), Some nm) \<Rightarrow>
          if get_str self Description \<noteq> Some nm
          then (principal_set self Description (PString nm),
                updates @ [update_set Description (PString nm)])
          else st
      | _ \<Rightarrow> st)"

definition update_strings ::
    "PrincipalField \<Rightarrow> Principal \<times> PrincipalUpdate list \<Rightarrow> string list option \<Rightarrow>
     Principal \<times> PrincipalUpdate list" where
  "update_strings field st secrets =
     (case (st, non_empty secrets) of
        ((self, updates), Some ss) \<Rightarrow>
          if get_str_array self field \<noteq> Some ss
          then (principal_set self field (PStringList ss),
                updates @ [update_set field (PStringList ss)])
          else st
      | _ \<Rightarrow> st)"

definition update_quota ::
    "Principal \<times> PrincipalUpdate list \<Rightarrow> u64 option \<Rightarrow> Principal \<times> PrincipalUpdate list" where
  "update_quota st quota =
     (case (st, quota) of
        ((self, updates), Some q) \<Rightarrow>
          if get_int self Quota \<noteq> Some q
          then (principal_set self Quota (PInteger q), updates @ [update_set Quota (PInteger q)])
          else st
      | _ \<Rightarrow> st)"

definition update_member_of :: "Principal \<Rightarrow> u64 list option \<Rightarrow> Principal" where
  "update_member_of self member_of =
     (case non_empty member_of of
        Some ms \<Rightarrow> principal_set self MemberOf (PIntegerList ms) | None \<Rightarrow> self)"

definition update_roles :: "Principal \<Rightarrow> u64 list option \<Rightarrow> Principal" where
  "update_roles self roles =
     (case non_empty roles of
        Some rs \<Rightarrow>
          if non_empty (get_int_array self Roles) = None
          then principal_set self Roles (PIntegerList rs) else self
      | None \<Rightarrow> self)"

definition update_external :: "Principal \<Rightarrow> Principal \<Rightarrow> Principal \<times> PrincipalUpdate list" where
  "update_external self external =
     (let (external, description) = take_str external Description;
          st = update_description (self, []) description;
          (external, secrets) = take_str_array external Secrets;
          st = update_strings Secrets st secrets;
          (external, emails) = take_str_array external Emails;
          st = update_strings Emails st emails;
          (external, quota) = take_int external Quota;
          (self, updates) = update_quota st quota;
          (external, member_of) = take_int_array external MemberOf;
          self = update_member_of self member_of;
          (external, roles) = take_int_array external Roles;
          self = update_roles self roles
      in (self, updates))"

lemma fields_set [simp]: "p_fields (principal_set p k v) = (p_fields p)(k \<mapsto> v)"
  by (simp add: principal_set_def)

lemmas take_defs = take_str_def take_int_def take_str_array_def take_int_array_def principal_take_def

lemmas update_defs =
  update_description_def update_strings_def update_quota_def update_member_of_def update_roles_def

text \<open>The merge as the composition of its steps; the external fields are read independently.\<close>

lemma update_external_eq:
  "update_external self e =
     (let st = update_quota
                 (update_strings Emails
                   (update_strings Secrets
                     (update_description (self, []) (snd (take_str e Description)))
                     (snd (take_str_array e Secrets)))
                   (snd (take_str_array e Emails)))
                 (snd (take_int e Quota))
      in (update_roles (update_member_of (fst st) (snd (take_int_array e MemberOf)))
            (snd (take_int_array e Roles)), snd st))"
  by (simp add: update_external_def take_defs Let_def split: prod.split)

lemma non_empty_cases: "non_empty x = None \<or> (\<exists>v vs. non_empty x = Some (v # vs))"
  by (simp add: non_empty_def split: option.split list.split)

text \<open>Every step touches one field and, once it has run, finds nothing left to do.\<close>

lemma update_description_step:
  "k \<noteq> Description \<Longrightarrow> p_fields (fst (update_description st d)) k = p_fields (fst st) k"
  "p_fields p Description = p_fields (fst (update_description st d)) Description \<Longrightarrow>
   update_description (p, us) d = (p, us)"
  by (auto simp: update_description_def get_str_def split: prod.splits option.splits if_splits)

lemma update_strings_step:
  "k \<noteq> f \<Longrightarrow> p_fields (fst (update_strings f st d)) k = p_fields (fst st) k"
  "p_fields p f = p_fields (fst (update_strings f st d)) f \<Longrightarrow>
   update_strings f (p, us) d = (p, us)"
  by (auto simp: update_strings_def get_str_array_def split: prod.splits option.splits if_splits)

lemma update_quota_step:
  "k \<noteq> Quota \<Longrightarrow> p_fields (fst (update_quota st d)) k = p_fields (fst st) k"
  "p_fields p Quota = p_fields (fst (update_quota st d)) Quota \<Longrightarrow>
   update_quota (p, us) d = (p, us)"
  by (auto simp: update_quota_def get_int_def split: prod.splits option.splits if_splits)

lemma principal_set_same: "p_fields p k = Some v \<Longrightarrow> principal_set p k v = p"
  by (cases p) (simp add: principal_set_def fun_upd_idem)

lemma update_member_of_step:
  "k \<noteq> MemberOf \<Longrightarrow> p_fields (update_member_of p d) k = p_fields p k"
  "p_fields q MemberOf = p_fields (update_member_of p d) MemberOf \<Longrightarrow> update_member_of q d = q"
  by (auto simp: update_member_of_def principal_set_same split: option.splits)

lemma update_roles_step:
  "k \<noteq> Roles \<Longrightarrow> p_fields (update_roles p d) k = p_fields p k"
  "p_fields q Roles = p_fields (update_roles p d) Roles \<Longrightarrow> update_roles q d = q"
proof -
  show "k \<noteq> Roles \<Longrightarrow> p_fields (update_roles p d) k = p_fields p k"
    by (simp add: update_roles_def split: option.split)
  show "p_fields q Roles = p_fields (update_roles p d) Roles \<Longrightarrow> update_roles q d = q"
    using non_empty_cases [of d]
    by (auto simp: update_roles_def get_int_array_def non_empty_def split: if_splits)
qed

lemmas update_steps =
  update_description_step(1) update_strings_step(1) update_quota_step(1) update_member_of_step(1)
  update_roles_step(1)

text \<open>
  The updates collected so far are exactly the assignments by which the principal differs from the
  original one, when only the fields of \<open>F\<close> have been considered.
\<close>

definition report_exact ::
    "Principal \<Rightarrow> PrincipalField set \<Rightarrow> Principal \<times> PrincipalUpdate list \<Rightarrow> bool" where
  "report_exact p F st =
     (distinct (map upd_field (snd st)) \<and> upd_field ` set (snd st) \<subseteq> F \<and>
      upd_action ` set (snd st) \<subseteq> {ActSet} \<and>
      (\<forall>f v. (f, v) \<in> (\<lambda>u. (upd_field u, upd_value u)) ` set (snd st) \<longleftrightarrow>
         p_fields (fst st) f = Some v \<and> p_fields p f \<noteq> Some v) \<and>
      (\<forall>f. f \<notin> F \<longrightarrow> p_fields (fst st) f = p_fields p f))"

lemma report_exact_start: "report_exact p {} (p, [])"
  by (simp add: report_exact_def)

lemma report_exact_skip: "report_exact p F st \<Longrightarrow> report_exact p (insert f F) st"
  by (auto simp: report_exact_def)

lemma report_exact_set:
  assumes "report_exact p F (self, us)" and "f \<notin> F" and "p_fields self f \<noteq> Some v"
  shows "report_exact p (insert f F) (principal_set self f v, us @ [update_set f v])"
proof -
  have "p_fields self f = p_fields p f" "f \<notin> upd_field ` set us"
    using assms(1,2) by (auto simp: report_exact_def)
  with assms show ?thesis
    by (auto simp: report_exact_def update_set_def)
qed

lemma report_exact_steps:
  "report_exact p F st \<Longrightarrow> Description \<notin> F \<Longrightarrow>
   report_exact p (insert Description F) (update_description st d)"
  "report_exact p F st \<Longrightarrow> k \<notin> F \<Longrightarrow> report_exact p (insert k F) (update_strings k st ss)"
  "report_exact p F st \<Longrightarrow> Quota \<notin> F \<Longrightarrow> report_exact p (insert Quota F) (update_quota st q)"
  by (auto simp: update_defs get_str_def get_str_array_def get_int_def report_exact_skip
      intro!: report_exact_set split: prod.splits option.splits)

lemma update_external_report:
  "report_exact p {Quota, Emails, Secrets, Description}
     (update_quota
       (update_strings Emails
         (update_strings Secrets
           (update_description (p, []) d) ss) es) q)"
  by (intro report_exact_steps report_exact_start) simp_all

lemma update_external_again:
  "update_external (fst (update_external p e)) e = (fst (update_external p e), [])"
proof -
  have fixed: "update_description (q, []) (snd (take_str e Description)) = (q, [])"
    "update_strings Secrets (q, []) (snd (take_str_array e Secrets)) = (q, [])"
    "update_strings Emails (q, []) (snd (take_str_array e Emails)) = (q, [])"
    "update_quota (q, []) (snd (take_int e Quota)) = (q, [])"
    "update_member_of q (snd (take_int_array e MemberOf)) = q"
    "update_roles q (snd (take_int_array e Roles)) = q"
    if "q = fst (update_external p e)" for q
    using that unfolding update_external_eq Let_def fst_conv
    by (auto intro!: update_description_step(2) update_strings_step(2) update_quota_step(2)
        update_member_of_step(2) update_roles_step(2) simp: update_steps)
  show ?thesis
    unfolding update_external_eq [of "fst (update_external p e)"] Let_def by (simp add: fixed)
qed

text \<open>
  C26: Merging the principal an external directory returned.  The updates reported to the caller
  are assignments to distinct fields, and they are exactly the fields, other than the group
  memberships and the roles, whose value the merge changed, each with its new value: nothing
  changed in memory is left out and nothing unchanged is reported.  Changes of the memberships and
  the roles are never reported.  Only the description, the secrets, the addresses, the quota, the
  memberships and the roles can change, and merging the same external principal again changes
  nothing and reports nothing.
\<close>

theorem principal_update_external:
  "(\<lambda>u. (upd_action u, upd_field u, upd_value u)) ` set (snd (update_external p e)) =
     {(a, f, v). a = ActSet \<and> f \<notin> {MemberOf, Roles} \<and>
        p_fields (fst (update_external p e)) f = Some v \<and> p_fields p f \<noteq> Some v} \<and>
   distinct (map upd_field (snd (update_external p e))) \<and>
   p_fields (fst (update_external p e)) |`
       (- {Description, Secrets, Emails, Quota, MemberOf, Roles}) =
     p_fields p |` (- {Description, Secrets, Emails, Quota, MemberOf, Roles}) \<and>
   update_external (fst (update_external p e)) e = (fst (update_external p e), [])"
proof -
  define st where "st = update_quota
       (update_strings Emails
         (update_strings Secrets
           (update_description (p, []) (snd (take_str e Description)))
           (snd (take_str_array e Secrets)))
         (snd (take_str_array e Emails)))
       (snd (take_int e Quota))"
  have exact: "report_exact p {Quota, Emails, Secrets, Description} st"
    unfolding st_def by (rule update_external_report)
  have merged: "snd (update_external p e) = snd st"
    "f \<notin> {MemberOf, Roles} \<Longrightarrow> p_fields (fst (update_external p e)) f = p_fields (fst st) f" for f
    by (simp_all add: update_external_eq Let_def update_steps flip: st_def)
  have pairs: "(f, v) \<in> (\<lambda>u. (upd_field u, upd_value u)) ` set (snd st) \<longleftrightarrow>
      p_fields (fst st) f = Some v \<and> p_fields p f \<noteq> Some v" for f v
    using exact unfolding report_exact_def by blast
  have reported: "(a, f, v) \<in> (\<lambda>u. (upd_action u, upd_field u, upd_value u)) ` set (snd st) \<longleftrightarrow>
      a = ActSet \<and> f \<notin> {MemberOf, Roles} \<and> (f, v) \<in> (\<lambda>u. (upd_field u, upd_value u)) ` set (snd st)"
    for a f v
  proof -
    have "upd_action u = ActSet \<and> upd_field u \<notin> {MemberOf, Roles}" if "u \<in> set (snd st)" for u
      using exact that unfolding report_exact_def by auto
    then show ?thesis by (force simp: image_iff)
  qed
  show ?thesis
  proof (intro conjI)
    show "(\<lambda>u. (upd_action u, upd_field u, upd_value u)) ` set (snd (update_external p e)) =
        {(a, f, v). a = ActSet \<and> f \<notin> {MemberOf, Roles} \<and>
          p_fields (fst (update_external p e)) f = Some v \<and> p_fields p f \<noteq> Some v}"
      unfolding set_eq_iff split_paired_All mem_Collect_eq prod.case merged(1) reported pairs
      using merged(2) by auto
    show "distinct (map upd_field (snd (update_external p e)))"
      using exact by (simp add: report_exact_def merged(1))
    show "p_fields (fst (update_external p e)) |`
        (- {Description, Secrets, Emails, Quota, MemberOf, Roles}) =
      p_fields p |` (- {Description, Secrets, Emails, Quota, MemberOf, Roles})"
      using exact by (auto simp: restrict_map_def merged(2) report_exact_def)
  qed (rule update_external_again)
qed

section \<open>Editing list fields\<close>

definition int_values :: "Principal \<Rightarrow> PrincipalField \<Rightarrow> u64 list" where
  "int_values p k = (case p_fields p k of None \<Rightarrow> [] | Some v \<Rightarrow> into_int_array v)"

definition str_values :: "Principal \<Rightarrow> PrincipalField \<Rightarrow> string list" where
  "str_values p k = (case p_fields p k of None \<Rightarrow> [] | Some v \<Rightarrow> into_str_array v)"

lemmas edit_defs = iter_int_def iter_str_def int_values_def str_values_def

lemma iter_int_append_int:
  "iter_int (append_int p k x) k =
     (if x \<in> set (iter_int p k) then iter_int p k else int_values p k @ [x])"
  by (auto simp: append_int_def edit_defs split: option.splits PrincipalValue.splits)

lemma iter_str_append_str:
  "iter_str (append_str p k x) k =
     (if x \<in> set (iter_str p k) then iter_str p k else str_values p k @ [x])"
  by (auto simp: append_str_def edit_defs split: option.splits PrincipalValue.splits)

lemma iter_str_prepend_str:
  "iter_str (prepend_str p k x) k =
     (if x \<in> set (iter_str p k) then iter_str p k else x # str_values p k)"
  by (auto simp: prepend_str_def edit_defs split: option.splits PrincipalValue.splits)

lemma fields_remove [simp]: "p_fields (fst (principal_remove p k)) = (p_fields p)(k := None)"
  by (simp add: principal_remove_def)

lemma iter_int_retain_int: "iter_int (retain_int p k f) k = filter f (iter_int p k)"
  by (auto simp: retain_int_def edit_defs Let_def split: option.splits PrincipalValue.splits)

lemma iter_str_retain_str: "iter_str (retain_str p k f) k = filter f (iter_str p k)"
  by (auto simp: retain_str_def edit_defs Let_def split: option.splits PrincipalValue.splits)

lemma edits_frame:
  "(p_fields (append_int p k i))(k := None) = (p_fields p)(k := None)"
  "(p_fields (retain_int p k f))(k := None) = (p_fields p)(k := None)"
  by (simp_all add: append_int_def retain_int_def Let_def split: option.split PrincipalValue.split)

text \<open>
  C27: Editing an integer field, as the directory does for roles, members and permissions.
  Appending keeps every value, in order, converts a textual field, and adds the new value unless
  it is already listed; retaining filters; no other field changes.  Appending a value and then
  filtering it out leaves exactly the other values.
\<close>

theorem principal_int_field_edits:
  "iter_int (append_int p k x) k =
     (if x \<in> set (iter_int p k) then iter_int p k else int_values p k @ [x]) \<and>
   iter_int (retain_int p k f) k = filter f (iter_int p k) \<and>
   (p_fields (append_int p k x))(k := None) = (p_fields p)(k := None) \<and>
   (p_fields (retain_int p k f))(k := None) = (p_fields p)(k := None) \<and>
   set (iter_int (retain_int (append_int p k x) k (\<lambda>y. y \<noteq> x)) k) = set (int_values p k) - {x}"
proof (intro conjI)
  have "set (iter_int p k) = set (int_values p k)" if "x \<in> set (iter_int p k)"
    using that
    by (cases "p_fields p k"; cases "the (p_fields p k)") (simp_all add: edit_defs)
  then show "set (iter_int (retain_int (append_int p k x) k (\<lambda>y. y \<noteq> x)) k) =
      set (int_values p k) - {x}"
    by (auto simp: iter_int_retain_int iter_int_append_int)
qed (simp_all add: iter_int_append_int iter_int_retain_int edits_frame)

end
