(* ===== verification/Roles.thy ===== *)
theory Roles
  imports Bitset Principal
begin

text \<open>
  Role permissions, \<open>common/src/auth/roles.rs\<close>: a role enables and disables permissions and
  inherits from the roles it lists; the permissions of a role are collected by a depth-first walk
  over the inheritance graph, with a cache.

  The surroundings of the walk are the record \<open>auth_env\<close>: the classification of the
  permissions, the revision counters and the directory query, each as it answers during one
  call.  The cache is a map; the real one may drop entries at any time, which the lemmas allow
  because they hold for every cache whose entries are right.

  The lemmas show that the walk always ends, also when roles inherit from each other in a
  circle, and that it grants exactly what the reachable roles grant.
\<close>

definition Permission_COUNT :: nat where
  "Permission_COUNT = 181"

definition PERMISSIONS_BITSET_SIZE :: nat where
  "PERMISSIONS_BITSET_SIZE = (Permission_COUNT + 8 - 1) div 8"

record RolePermissions =
  enabled :: bitset
  disabled :: bitset
  rp_revision :: u64

datatype auth_error =
  StoreError | PrincipalNotFound u32 | TenantNotFound u32 | AccountNotFound | CorruptedCollection u8
| IndexPanic

record auth_env =
  is_user_permission :: "nat \<Rightarrow> bool"
  is_tenant_admin_permission :: "nat \<Rightarrow> bool"
  fetch_token_revision :: "u32 \<Rightarrow> u64 option"
  query_id :: "u32 \<Rightarrow> auth_error + Principal option"

type_synonym role_cache = "u32 \<rightharpoonup> RolePermissions"

definition rp_default :: RolePermissions where
  "rp_default =
     \<lparr>enabled = bs_new PERMISSIONS_BITSET_SIZE, disabled = bs_new PERMISSIONS_BITSET_SIZE,
      rp_revision = 0\<rparr>"

definition rp_union :: "RolePermissions \<Rightarrow> RolePermissions \<Rightarrow> RolePermissions" where
  "rp_union self other =
     self\<lparr>enabled := bs_union (enabled self) (enabled other),
          disabled := bs_union (disabled self) (disabled other)\<rparr>"

definition rp_finalize :: "RolePermissions \<Rightarrow> bitset" where
  "rp_finalize self = bs_difference (enabled self) (disabled self)"

fun set_permissions :: "bitset \<Rightarrow> nat list \<Rightarrow> bitset option" where
  "set_permissions b [] = Some b"
| "set_permissions b (p # ps) = Option.bind (bs_set b p) (\<lambda>b. set_permissions b ps)"

definition class_permissions :: "(nat \<Rightarrow> bool) \<Rightarrow> RolePermissions" where
  "class_permissions is_class =
     rp_default\<lparr>enabled :=
       the (set_permissions (enabled rp_default) (filter is_class [0..<Permission_COUNT]))\<rparr>"

definition tenant_admin_permissions :: "auth_env \<Rightarrow> RolePermissions" where
  "tenant_admin_permissions env = class_permissions (is_tenant_admin_permission env)"

definition user_permissions :: "auth_env \<Rightarrow> RolePermissions" where
  "user_permissions env = class_permissions (is_user_permission env)"

definition admin_permissions :: RolePermissions where
  "admin_permissions =
     \<lparr>enabled = bs_all PERMISSIONS_BITSET_SIZE, disabled = bs_new PERMISSIONS_BITSET_SIZE,
      rp_revision = 0\<rparr>"

text \<open>The inner loop that adds the permissions listed in a field, ignoring unknown numbers.\<close>

definition add_permissions :: "bitset \<Rightarrow> u64 list \<Rightarrow> bitset option" where
  "add_permissions b ps =
     set_permissions b (filter (\<lambda>permission. permission < Permission_COUNT) (map unat ps))"

definition add_principal_permissions ::
    "RolePermissions \<Rightarrow> Principal \<Rightarrow> RolePermissions option" where
  "add_principal_permissions rp prin =
     Option.bind (add_permissions (enabled rp) (iter_int prin EnabledPermissions)) (\<lambda>en.
     Option.bind (add_permissions (disabled rp) (iter_int prin DisabledPermissions)) (\<lambda>dis.
       Some (rp\<lparr>enabled := en, disabled := dis\<rparr>)))"

definition cached_role :: "auth_env \<Rightarrow> role_cache \<Rightarrow> u32 \<Rightarrow> RolePermissions option" where
  "cached_role env cache role_id =
     (case cache role_id of
        Some p \<Rightarrow> if Some (rp_revision p) = fetch_token_revision env role_id then Some p else None
      | None \<Rightarrow> None)"

definition unwrap_or :: "'a option \<Rightarrow> 'a \<Rightarrow> 'a" where
  "unwrap_or x d = (case x of Some v \<Rightarrow> v | None \<Rightarrow> d)"

definition is_builtin_role :: "u32 \<Rightarrow> bool" where
  "is_builtin_role r = (r = ROLE_USER \<or> r = ROLE_ADMIN \<or> r = ROLE_TENANT_ADMIN)"

function role_walk ::
    "auth_env \<Rightarrow> u64 list \<Rightarrow> u64 list list \<Rightarrow> u32 set \<Rightarrow> RolePermissions \<Rightarrow> role_cache \<Rightarrow>
     (auth_error + RolePermissions) \<times> role_cache" where
  "role_walk env (r # role_ids) stack fetched acc cache =
     (let role_id = ucast r in
      if role_id \<in> fetched then role_walk env role_ids stack fetched acc cache
      else let fetched = insert role_id fetched in
      if role_id = ROLE_USER then
        role_walk env role_ids stack fetched (rp_union acc (user_permissions env)) cache
      else if role_id = ROLE_ADMIN then (Inr (rp_union acc admin_permissions), cache)
      else if role_id = ROLE_TENANT_ADMIN then
        role_walk env role_ids stack fetched (rp_union acc (tenant_admin_permissions env)) cache
      else
        (case cached_role env cache role_id of
           Some p \<Rightarrow> role_walk env role_ids stack fetched (rp_union acc p) cache
         | None \<Rightarrow>
           (case query_id env role_id of
              Inl e \<Rightarrow> (Inl e, cache)
            | Inr None \<Rightarrow> (Inl (PrincipalNotFound role_id), cache)
            | Inr (Some prin) \<Rightarrow>
                (case add_principal_permissions
                   (rp_default\<lparr>rp_revision := unwrap_or (fetch_token_revision env role_id) (- 1)\<rparr>)
                   prin of
                   None \<Rightarrow> (Inl IndexPanic, cache)
                 | Some rp \<Rightarrow>
                     (case non_empty (snd (take_int_array prin Roles)) of
                        Some parent_role_ids \<Rightarrow>
                          role_walk env parent_role_ids (role_ids # stack) fetched
                            (rp_union acc rp) cache
                      | None \<Rightarrow>
                          role_walk env role_ids stack fetched (rp_union acc rp)
                            (cache(role_id \<mapsto> rp)))))))"
| "role_walk env [] (prev_role_ids # stack) fetched acc cache =
     role_walk env prev_role_ids stack fetched acc cache"
| "role_walk env [] [] fetched acc cache = (Inr acc, cache)"
  by pat_completeness auto
termination
  by (relation "inv_image (less_than <*lex*> less_than)
      (\<lambda>(env, role_ids, stack, fetched, acc, cache).
        (card (- fetched), length role_ids + length (concat stack) + length stack))")
    (auto simp: card_gt_0_iff intro!: psubset_card_mono)

declare role_walk.simps [simp del]

definition build_role_permissions ::
    "auth_env \<Rightarrow> role_cache \<Rightarrow> u32 \<Rightarrow> u64 \<Rightarrow> (auth_error + RolePermissions) \<times> role_cache" where
  "build_role_permissions env cache role_id revision =
     role_walk env [ucast role_id] [] {} (rp_default\<lparr>rp_revision := revision\<rparr>) cache"

definition get_role_permissions ::
    "auth_env \<Rightarrow> role_cache \<Rightarrow> u32 \<Rightarrow> (auth_error + RolePermissions) \<times> role_cache" where
  "get_role_permissions env cache role_id =
     (if role_id = ROLE_USER then (Inr (user_permissions env), cache)
      else if role_id = ROLE_ADMIN then (Inr admin_permissions, cache)
      else if role_id = ROLE_TENANT_ADMIN then (Inr (tenant_admin_permissions env), cache)
      else
        (let revision = fetch_token_revision env role_id in
         case cached_role env cache role_id of
           Some permissions \<Rightarrow> (Inr permissions, cache)
         | None \<Rightarrow>
           (case build_role_permissions env cache role_id (unwrap_or revision (- 1)) of
              (Inl e, cache) \<Rightarrow> (Inl e, cache)
            | (Inr permissions, cache) \<Rightarrow> (Inr permissions, cache(role_id \<mapsto> permissions)))))"

section \<open>Permission sets\<close>

abbreviation permission_space :: "nat set" where
  "permission_space \<equiv> {i. i < 64 * PERMISSIONS_BITSET_SIZE}"

definition rp_ok :: "RolePermissions \<Rightarrow> bool" where
  "rp_ok rp = (length (enabled rp) = PERMISSIONS_BITSET_SIZE \<and>
     length (disabled rp) = PERMISSIONS_BITSET_SIZE)"

definition listed :: "u64 list \<Rightarrow> nat set" where
  "listed ps = {i \<in> unat ` set ps. i < Permission_COUNT}"

lemma permission_in_space: "i < Permission_COUNT \<Longrightarrow> i < 64 * PERMISSIONS_BITSET_SIZE"
  by (simp add: Permission_COUNT_def PERMISSIONS_BITSET_SIZE_def)

lemma set_permissions_ok:
  "\<forall>p \<in> set ps. p < 64 * length b \<Longrightarrow>
   \<exists>b'. set_permissions b ps = Some b' \<and> length b' = length b \<and> indices b' = indices b \<union> set ps"
proof (induction ps arbitrary: b)
  case (Cons p ps)
  then obtain b1 where b1: "bs_set b p = Some b1" "length b1 = length b"
      "indices b1 = insert p (indices b)"
    using bs_set_Some [of p b] by (auto simp: less_mult_imp_div_less ac_simps)
  with Cons.IH [of b1] Cons.prems show ?case by auto
qed simp

lemma add_permissions_ok:
  assumes "length b = PERMISSIONS_BITSET_SIZE"
  shows "\<exists>b'. add_permissions b ps = Some b' \<and> length b' = PERMISSIONS_BITSET_SIZE \<and>
    indices b' = indices b \<union> listed ps"
  using set_permissions_ok [of "filter (\<lambda>p. p < Permission_COUNT) (map unat ps)" b] assms
  by (auto simp: add_permissions_def listed_def permission_in_space)

lemma add_principal_permissions_ok:
  assumes "rp_ok rp"
  shows "\<exists>rp'. add_principal_permissions rp prin = Some rp' \<and> rp_ok rp' \<and>
    rp_revision rp' = rp_revision rp \<and>
    indices (enabled rp') = indices (enabled rp) \<union> listed (iter_int prin EnabledPermissions) \<and>
    indices (disabled rp') = indices (disabled rp) \<union> listed (iter_int prin DisabledPermissions)"
  using add_permissions_ok [of "enabled rp" "iter_int prin EnabledPermissions"]
    add_permissions_ok [of "disabled rp" "iter_int prin DisabledPermissions"] assms
  by (auto simp: add_principal_permissions_def rp_ok_def)

lemma rp_default_ok [simp]:
  "rp_ok rp_default" "rp_ok (rp_default\<lparr>rp_revision := v\<rparr>)"
  "indices (enabled rp_default) = {}" "indices (disabled rp_default) = {}"
  by (simp_all add: rp_ok_def rp_default_def indices_new)

lemma class_permissions_ok:
  "rp_ok (class_permissions is_class)"
  "indices (enabled (class_permissions is_class)) = {i. i < Permission_COUNT \<and> is_class i}"
  "indices (disabled (class_permissions is_class)) = {}"
  using set_permissions_ok [of "filter is_class [0..<Permission_COUNT]" "enabled rp_default"]
    permission_in_space
  by (auto simp: class_permissions_def rp_ok_def rp_default_def indices_new)

lemma admin_permissions_ok:
  "rp_ok admin_permissions" "indices (enabled admin_permissions) = permission_space"
  "indices (disabled admin_permissions) = {}"
  by (simp_all add: admin_permissions_def rp_ok_def indices_new indices_all)

lemma rp_union_ok:
  assumes "rp_ok a" and "rp_ok b"
  shows "rp_ok (rp_union a b)"
    and "indices (enabled (rp_union a b)) = indices (enabled a) \<union> indices (enabled b)"
    and "indices (disabled (rp_union a b)) = indices (disabled a) \<union> indices (disabled b)"
    and "rp_revision (rp_union a b) = rp_revision a"
  using assms by (simp_all add: rp_ok_def rp_union_def indices_union)

lemma rp_revision_union: "rp_revision (rp_union a b) = rp_revision a"
  by (simp add: rp_union_def)

lemma rp_finalize_ok:
  "rp_ok a \<Longrightarrow> length (rp_finalize a) = PERMISSIONS_BITSET_SIZE \<and>
     indices (rp_finalize a) = indices (enabled a) - indices (disabled a)"
  by (simp add: rp_ok_def rp_finalize_def indices_difference)

section \<open>What a role grants\<close>

definition own_enabled :: "auth_env \<Rightarrow> u32 \<Rightarrow> nat set" where
  "own_enabled env r =
     (if r = ROLE_USER then {i. i < Permission_COUNT \<and> is_user_permission env i}
      else if r = ROLE_ADMIN then permission_space
      else if r = ROLE_TENANT_ADMIN then {i. i < Permission_COUNT \<and> is_tenant_admin_permission env i}
      else case query_id env r of
             Inr (Some p) \<Rightarrow> listed (iter_int p EnabledPermissions) | _ \<Rightarrow> {})"

definition own_disabled :: "auth_env \<Rightarrow> u32 \<Rightarrow> nat set" where
  "own_disabled env r =
     (if is_builtin_role r then {}
      else case query_id env r of
             Inr (Some p) \<Rightarrow> listed (iter_int p DisabledPermissions) | _ \<Rightarrow> {})"

definition parent_roles :: "auth_env \<Rightarrow> u32 \<Rightarrow> u32 set" where
  "parent_roles env r =
     (if is_builtin_role r then {}
      else case query_id env r of Inr (Some p) \<Rightarrow> ucast ` set (int_values p Roles) | _ \<Rightarrow> {})"

definition inherits :: "auth_env \<Rightarrow> (u32 \<times> u32) set" where
  "inherits env = {(r, s). s \<in> parent_roles env r}"

definition role_reach :: "auth_env \<Rightarrow> u32 \<Rightarrow> u32 set" where
  "role_reach env r = {s. (r, s) \<in> (inherits env)\<^sup>*}"

definition role_enabled :: "auth_env \<Rightarrow> u32 \<Rightarrow> nat set" where
  "role_enabled env r = (\<Union>s \<in> role_reach env r. own_enabled env s)"

definition role_disabled :: "auth_env \<Rightarrow> u32 \<Rightarrow> nat set" where
  "role_disabled env r = (\<Union>s \<in> role_reach env r. own_disabled env s)"

definition role_answer :: "auth_env \<Rightarrow> u32 \<Rightarrow> RolePermissions \<Rightarrow> bool" where
  "role_answer env r rp =
     (rp_ok rp \<and> indices (enabled rp) = role_enabled env r \<and>
      indices (disabled rp) \<subseteq> role_disabled env r \<and>
      (ROLE_ADMIN \<notin> role_reach env r \<longrightarrow> indices (disabled rp) = role_disabled env r))"

definition cache_ok :: "auth_env \<Rightarrow> role_cache \<Rightarrow> bool" where
  "cache_ok env cache =
     (\<forall>r rp. \<not> is_builtin_role r \<longrightarrow> cached_role env cache r = Some rp \<longrightarrow> role_answer env r rp)"

lemma own_enabled_space: "own_enabled env r \<subseteq> permission_space"
  by (auto simp: own_enabled_def listed_def permission_in_space split: sum.split option.split)

lemma role_reach_refl [simp]: "r \<in> role_reach env r"
  by (simp add: role_reach_def)

lemma role_reach_step: "r \<in> role_reach env root \<Longrightarrow> s \<in> parent_roles env r \<Longrightarrow> s \<in> role_reach env root"
  by (auto simp: role_reach_def inherits_def intro: rtrancl_into_rtrancl)

lemma role_reach_trans: "r \<in> role_reach env root \<Longrightarrow> role_reach env r \<subseteq> role_reach env root"
  by (auto simp: role_reach_def)

lemma role_reach_leaf: "parent_roles env r = {} \<Longrightarrow> role_reach env r = {r}"
  by (auto simp: role_reach_def inherits_def elim: converse_rtranclE)

lemma role_closure_mono:
  assumes "r \<in> role_reach env root"
  shows "role_enabled env r \<subseteq> role_enabled env root" "role_disabled env r \<subseteq> role_disabled env root"
    and "own_enabled env r \<subseteq> role_enabled env root" "own_disabled env r \<subseteq> role_disabled env root"
  using assms role_reach_trans [OF assms] unfolding role_enabled_def role_disabled_def by blast+

section \<open>The invariant of the walk\<close>

definition accounted ::
    "auth_env \<Rightarrow> u32 set \<Rightarrow> RolePermissions \<Rightarrow> u32 \<Rightarrow> bool" where
  "accounted env known acc r =
     ((own_enabled env r \<subseteq> indices (enabled acc) \<and> own_disabled env r \<subseteq> indices (disabled acc) \<and>
        parent_roles env r \<subseteq> known) \<or>
      (role_enabled env r \<subseteq> indices (enabled acc) \<and>
        (ROLE_ADMIN \<notin> role_reach env r \<longrightarrow> role_disabled env r \<subseteq> indices (disabled acc))))"

definition walk_inv ::
    "auth_env \<Rightarrow> u32 \<Rightarrow> u32 set \<Rightarrow> u32 set \<Rightarrow> RolePermissions \<Rightarrow> bool" where
  "walk_inv env root pending fetched acc =
     (rp_ok acc \<and> root \<in> fetched \<union> pending \<and> fetched \<union> pending \<subseteq> role_reach env root \<and>
      indices (enabled acc) \<subseteq> role_enabled env root \<and>
      indices (disabled acc) \<subseteq> role_disabled env root \<and>
      (\<forall>r \<in> fetched. accounted env (fetched \<union> pending) acc r))"

lemma accounted_mono:
  "accounted env known acc r \<Longrightarrow> known \<subseteq> known' \<Longrightarrow>
   indices (enabled acc) \<subseteq> indices (enabled acc') \<Longrightarrow>
   indices (disabled acc) \<subseteq> indices (disabled acc') \<Longrightarrow> accounted env known' acc' r"
  unfolding accounted_def by blast

lemma walk_inv_skip: "walk_inv env root (insert r P) F acc \<Longrightarrow> r \<in> F \<Longrightarrow> walk_inv env root P F acc"
  by (simp add: walk_inv_def insert_absorb)

lemma walk_inv_add:
  assumes inv: "walk_inv env root (insert r P) F acc" and rp: "rp_ok rp"
    and sub: "indices (enabled rp) \<subseteq> role_enabled env r" "indices (disabled rp) \<subseteq> role_disabled env r"
    and P': "P \<subseteq> P'" "P' \<subseteq> P \<union> parent_roles env r"
    and acc: "accounted env (insert r F \<union> P') (rp_union acc rp) r"
  shows "walk_inv env root P' (insert r F) (rp_union acc rp)"
proof -
  have ok: "rp_ok acc" and r: "r \<in> role_reach env root"
    using inv by (auto simp: walk_inv_def)
  note u = rp_union_ok [OF ok rp] and cl = role_closure_mono [OF r]
  have P'_reach: "P' \<subseteq> role_reach env root"
    using inv P'(2) role_reach_step [OF r] by (auto simp: walk_inv_def)
  have old: "accounted env (insert r F \<union> P') (rp_union acc rp) s" if "s \<in> F" for s
    using inv that P'(1) u by (auto simp: walk_inv_def intro: accounted_mono)
  show ?thesis
    unfolding walk_inv_def
  proof (intro conjI ballI)
    show "root \<in> insert r F \<union> P'" using inv P'(1) by (auto simp: walk_inv_def)
    show "insert r F \<union> P' \<subseteq> role_reach env root"
      using inv r P'_reach by (auto simp: walk_inv_def)
    show "indices (enabled (rp_union acc rp)) \<subseteq> role_enabled env root"
      "indices (disabled (rp_union acc rp)) \<subseteq> role_disabled env root"
      using inv u sub cl by (auto simp: walk_inv_def)
    show "accounted env (insert r F \<union> P') (rp_union acc rp) s" if "s \<in> insert r F" for s
      using that acc old by auto
  qed (rule u(1))
qed

lemma accounted_closure:
  assumes "\<forall>r \<in> F. accounted env F acc r" and "(r, s) \<in> (inherits env)\<^sup>*" and "r \<in> F"
  shows "own_enabled env s \<subseteq> indices (enabled acc) \<and>
    (ROLE_ADMIN \<notin> role_reach env r \<longrightarrow> own_disabled env s \<subseteq> indices (disabled acc))"
  using assms(2,3)
proof (induction rule: converse_rtrancl_induct)
  case base
  with assms(1) have "accounted env F acc s" by blast
  then show ?case
    using role_closure_mono(3,4) [of s env s] unfolding accounted_def by auto
next
  case (step r t)
  have s: "s \<in> role_reach env r" and t: "t \<in> role_reach env r"
    using step.hyps by (auto simp: role_reach_def intro: converse_rtrancl_into_rtrancl)
  note admin = role_reach_trans [OF t]
  from assms(1) step.prems have "accounted env F acc r" by blast
  then consider "t \<in> F" | "role_enabled env r \<subseteq> indices (enabled acc)"
      "ROLE_ADMIN \<notin> role_reach env r \<longrightarrow> role_disabled env r \<subseteq> indices (disabled acc)"
    using step.hyps(1) by (auto simp: accounted_def inherits_def)
  then show ?case
  proof cases
    case 1
    with step.IH admin show ?thesis by blast
  next
    case 2
    with role_closure_mono(3,4) [OF s] show ?thesis by blast
  qed
qed

lemma walk_inv_final:
  assumes "walk_inv env root {} F acc"
  shows "role_answer env root acc"
proof -
  have F: "\<forall>r \<in> F. accounted env F acc r" "root \<in> F"
    using assms by (simp_all add: walk_inv_def)
  have "own_enabled env s \<subseteq> indices (enabled acc) \<and>
      (ROLE_ADMIN \<notin> role_reach env root \<longrightarrow> own_disabled env s \<subseteq> indices (disabled acc))"
    if "s \<in> role_reach env root" for s
    using accounted_closure [OF F(1) _ F(2)] that by (simp add: role_reach_def)
  then have "role_enabled env root \<subseteq> indices (enabled acc)"
    "ROLE_ADMIN \<notin> role_reach env root \<Longrightarrow> role_disabled env root \<subseteq> indices (disabled acc)"
    unfolding role_enabled_def role_disabled_def by blast+
  with assms show ?thesis unfolding walk_inv_def role_answer_def by blast
qed

lemma walk_inv_admin:
  assumes "walk_inv env root (insert ROLE_ADMIN P) F acc"
  shows "role_answer env root (rp_union acc admin_permissions)"
proof -
  have ok: "rp_ok acc" and adm: "ROLE_ADMIN \<in> role_reach env root"
    using assms by (auto simp: walk_inv_def)
  have "own_enabled env ROLE_ADMIN = permission_space"
    by (simp add: own_enabled_def ROLE_ADMIN_def ROLE_USER_def)
  then have "permission_space = role_enabled env root"
    using adm own_enabled_space by (auto simp: role_enabled_def)
  then show ?thesis
    using assms adm rp_union_ok [OF ok admin_permissions_ok(1)]
    by (auto simp: walk_inv_def role_answer_def admin_permissions_ok)
qed

section \<open>The walk is correct\<close>

lemma cached_role_upd:
  "cached_role env (cache(r \<mapsto> rp)) s = Some p \<Longrightarrow> s = r \<and> p = rp \<or> cached_role env cache s = Some p"
  by (auto simp: cached_role_def split: if_splits)

lemma cache_ok_insert: "cache_ok env cache \<Longrightarrow> role_answer env r rp \<Longrightarrow> cache_ok env (cache(r \<mapsto> rp))"
  unfolding cache_ok_def by (blast dest: cached_role_upd)

lemma non_empty_roles:
  "non_empty (snd (take_int_array p Roles)) = (if int_values p Roles = [] then None else Some (int_values p Roles))"
  by (simp add: take_int_array_def principal_take_def int_values_def non_empty_def
      split: option.split list.split)

lemma builtin_role_answer:
  "role_answer env ROLE_USER (user_permissions env)"
  "role_answer env ROLE_TENANT_ADMIN (tenant_admin_permissions env)"
  "role_answer env ROLE_ADMIN admin_permissions"
proof -
  have reach: "role_reach env r = {r}" if "is_builtin_role r" for r
    using that by (simp add: role_reach_leaf parent_roles_def)
  have distinct: "ROLE_USER \<noteq> ROLE_ADMIN" "ROLE_TENANT_ADMIN \<noteq> ROLE_ADMIN" "ROLE_TENANT_ADMIN \<noteq> ROLE_USER"
    by (simp_all add: ROLE_ADMIN_def ROLE_USER_def ROLE_TENANT_ADMIN_def)
  show "role_answer env ROLE_USER (user_permissions env)"
    "role_answer env ROLE_TENANT_ADMIN (tenant_admin_permissions env)"
    "role_answer env ROLE_ADMIN admin_permissions"
    using distinct
    by (auto simp: role_answer_def role_enabled_def role_disabled_def reach is_builtin_role_def
        own_enabled_def own_disabled_def user_permissions_def tenant_admin_permissions_def
        class_permissions_ok admin_permissions_ok)
qed

lemma accounted_answer:
  assumes "rp_ok acc" and "role_answer env r rp"
  shows "accounted env known (rp_union acc rp) r"
    and "rp_ok rp" "indices (enabled rp) \<subseteq> role_enabled env r" "indices (disabled rp) \<subseteq> role_disabled env r"
  using assms rp_union_ok [of acc rp] by (auto simp: role_answer_def accounted_def)

lemma walk_inv_answer:
  assumes "walk_inv env root (insert r P) F acc" and "role_answer env r rp"
  shows "walk_inv env root P (insert r F) (rp_union acc rp)"
proof (rule walk_inv_add [OF assms(1)])
  have "rp_ok acc" using assms(1) by (simp add: walk_inv_def)
  from accounted_answer [OF this assms(2)]
  show "rp_ok rp" "indices (enabled rp) \<subseteq> role_enabled env r"
    "indices (disabled rp) \<subseteq> role_disabled env r"
    "accounted env (insert r F \<union> P) (rp_union acc rp) r"
    by blast+
qed auto

lemma fetched_role:
  assumes "\<not> is_builtin_role r" and "query_id env r = Inr (Some prin)"
  obtains rp where
    "add_principal_permissions (rp_default\<lparr>rp_revision := v\<rparr>) prin = Some rp"
    "rp_ok rp" "indices (enabled rp) = own_enabled env r" "indices (disabled rp) = own_disabled env r"
    "parent_roles env r = ucast ` set (int_values prin Roles)"
  using add_principal_permissions_ok [of "rp_default\<lparr>rp_revision := v\<rparr>" prin] assms
  by (auto simp: own_enabled_def own_disabled_def parent_roles_def is_builtin_role_def)

lemma walk_inv_fetched:
  assumes inv: "walk_inv env root (insert r P) F acc" and rp: "rp_ok rp"
    and own: "indices (enabled rp) = own_enabled env r" "indices (disabled rp) = own_disabled env r"
  shows "walk_inv env root (parent_roles env r \<union> P) (insert r F) (rp_union acc rp)"
proof (rule walk_inv_add [OF inv rp])
  show "indices (enabled rp) \<subseteq> role_enabled env r" "indices (disabled rp) \<subseteq> role_disabled env r"
    unfolding own by (simp_all add: role_closure_mono)
  have "rp_ok acc" using inv by (simp add: walk_inv_def)
  from rp_union_ok [OF this rp] own
  show "accounted env (insert r F \<union> (parent_roles env r \<union> P)) (rp_union acc rp) r"
    unfolding accounted_def by auto
qed auto

lemma role_answer_leaf:
  assumes "rp_ok rp" "indices (enabled rp) = own_enabled env r"
    "indices (disabled rp) = own_disabled env r" "parent_roles env r = {}"
  shows "role_answer env r rp"
  using assms by (simp add: role_answer_def role_enabled_def role_disabled_def role_reach_leaf)

definition pending_roles :: "u64 list \<Rightarrow> u64 list list \<Rightarrow> u32 set" where
  "pending_roles role_ids stack = ucast ` (set role_ids \<union> set (concat stack))"

lemma pending_roles_simps [simp]:
  "pending_roles (r # rs) stack = insert (ucast r) (pending_roles rs stack)"
  "pending_roles [] (rs # stack) = pending_roles rs stack"
  "pending_roles [] [] = {}"
  "pending_roles ps (rs # stack) = ucast ` set ps \<union> pending_roles rs stack"
  by (auto simp: pending_roles_def)

lemma role_walk_correct:
  assumes "walk_inv env root (pending_roles role_ids stack) fetched acc" and "cache_ok env cache"
    and "\<forall>r \<in> role_reach env root. \<not> is_builtin_role r \<longrightarrow> (\<exists>p. query_id env r = Inr (Some p))"
  shows "\<exists>rp cache'. role_walk env role_ids stack fetched acc cache = (Inr rp, cache') \<and>
    role_answer env root rp \<and> rp_revision rp = rp_revision acc \<and> cache_ok env cache'"
  using assms
proof (induction env role_ids stack fetched acc cache rule: role_walk.induct)
  case (1 env r role_ids stack fetched acc cache)
  let ?r = "ucast r :: u32" and ?F = "insert (ucast r) fetched"
  let ?P = "pending_roles role_ids stack"
  have inv: "walk_inv env root (insert ?r ?P) fetched acc" using "1.prems"(1) by simp
  have acc: "rp_ok acc" and reach: "?r \<in> role_reach env root"
    using inv by (auto simp: walk_inv_def)
  consider (seen) "?r \<in> fetched"
    | (user) "?r \<notin> fetched" "?r = ROLE_USER"
    | (admin) "?r \<notin> fetched" "?r = ROLE_ADMIN" "?r \<noteq> ROLE_USER"
    | (tenant) "?r \<notin> fetched" "?r = ROLE_TENANT_ADMIN" "?r \<noteq> ROLE_USER" "?r \<noteq> ROLE_ADMIN"
    | (cached) p where "?r \<notin> fetched" "\<not> is_builtin_role ?r" "cached_role env cache ?r = Some p"
    | (fetch) "?r \<notin> fetched" "\<not> is_builtin_role ?r" "cached_role env cache ?r = None"
    unfolding is_builtin_role_def by (cases "cached_role env cache ?r") blast+
  then show ?case
  proof cases
    case seen
    then show ?thesis
      using 1(1) [OF refl] "1.prems"(2,3) walk_inv_skip [OF inv] by (simp add: role_walk.simps)
  next
    case user
    have "walk_inv env root ?P ?F (rp_union acc (user_permissions env))"
      using walk_inv_answer [OF inv, of "user_permissions env"] builtin_role_answer user by simp
    with user acc show ?thesis
      using 1(2) [OF refl _ refl] "1.prems"(2,3) by (simp add: role_walk.simps rp_revision_union Let_def)
  next
    case admin
    then show ?thesis
      using inv walk_inv_admin "1.prems"(2) by (simp add: role_walk.simps rp_revision_union Let_def)
  next
    case tenant
    have "walk_inv env root ?P ?F (rp_union acc (tenant_admin_permissions env))"
      using walk_inv_answer [OF inv, of "tenant_admin_permissions env"] builtin_role_answer tenant by simp
    with tenant acc show ?thesis
      using 1(3) [OF refl _ refl] "1.prems"(2,3) by (simp add: role_walk.simps rp_revision_union Let_def)
  next
    case (cached p)
    have "walk_inv env root ?P ?F (rp_union acc p)"
      using walk_inv_answer [OF inv, of p] cached "1.prems"(2) by (simp add: cache_ok_def)
    with cached show ?thesis
      using 1(6) [OF refl _ refl _ _ _ cached(3)] "1.prems"(2,3)
      by (simp add: role_walk.simps rp_revision_union Let_def is_builtin_role_def)
  next
    case fetch
    obtain prin where prin: "query_id env ?r = Inr (Some prin)"
      using "1.prems"(3) reach fetch(2) by blast
    obtain rp where rp:
      "add_principal_permissions
         (rp_default\<lparr>rp_revision := unwrap_or (fetch_token_revision env ?r) (- 1)\<rparr>) prin = Some rp"
      "rp_ok rp" "indices (enabled rp) = own_enabled env ?r"
      "indices (disabled rp) = own_disabled env ?r"
      "parent_roles env ?r = ucast ` set (int_values prin Roles)"
      using fetched_role [OF fetch(2) prin] by metis
    note inv' = walk_inv_fetched [OF inv rp(2-4)]
    show ?thesis
    proof (cases "int_values prin Roles = []")
      case True
      then have leaf: "parent_roles env ?r = {}" using rp(5) by simp
      have "cache_ok env (cache(?r \<mapsto> rp))"
        using cache_ok_insert [OF "1.prems"(2) role_answer_leaf [OF rp(2-4) leaf]] .
      with True fetch prin rp(1) inv' leaf show ?thesis
        using 1(4) [OF refl _ refl _ _ _ fetch(3) prin refl rp(1)] "1.prems"(3)
        by (simp add: role_walk.simps rp_revision_union Let_def is_builtin_role_def non_empty_roles fun_upd_def)
    next
      case False
      with fetch prin rp(1,5) inv' show ?thesis
        using 1(5) [OF refl _ refl _ _ _ fetch(3) prin refl rp(1)] "1.prems"(2,3)
        by (simp add: role_walk.simps rp_revision_union Let_def is_builtin_role_def non_empty_roles)
    qed
  qed
next
  case (2 env prev_role_ids stack fetched acc cache)
  then show ?case by (simp add: role_walk.simps)
next
  case (3 env fetched acc cache)
  then show ?case by (simp add: role_walk.simps walk_inv_final)
qed

lemma build_role_permissions_correct:
  assumes "cache_ok env cache"
    and "\<forall>r \<in> role_reach env role_id. \<not> is_builtin_role r \<longrightarrow> (\<exists>p. query_id env r = Inr (Some p))"
  shows "\<exists>rp cache'. build_role_permissions env cache role_id revision = (Inr rp, cache') \<and>
    role_answer env role_id rp \<and> rp_revision rp = revision \<and> cache_ok env cache'"
proof -
  have "ucast (ucast role_id :: u64) = role_id"
    by (rule bit_eqI) (auto simp: bit_simps dest: bit_imp_le_length)
  then have "walk_inv env role_id (pending_roles [ucast role_id] []) {}
      (rp_default\<lparr>rp_revision := revision\<rparr>)"
    by (simp add: walk_inv_def pending_roles_def)
  from role_walk_correct [OF this assms] show ?thesis by (simp add: build_role_permissions_def)
qed

lemma get_role_permissions_answer:
  assumes "cache_ok env cache"
    and "\<forall>r \<in> role_reach env role_id. \<not> is_builtin_role r \<longrightarrow> (\<exists>p. query_id env r = Inr (Some p))"
  shows "\<exists>rp cache'. get_role_permissions env cache role_id = (Inr rp, cache') \<and>
    role_answer env role_id rp \<and> cache_ok env cache'"
proof (cases "is_builtin_role role_id")
  case True
  then show ?thesis
    using builtin_role_answer [of env] assms(1)
    by (auto simp: get_role_permissions_def is_builtin_role_def)
next
  case False
  show ?thesis
  proof (cases "cached_role env cache role_id")
    case None
    obtain rp cache' where
      "build_role_permissions env cache role_id
         (unwrap_or (fetch_token_revision env role_id) (- 1)) = (Inr rp, cache')"
      "role_answer env role_id rp" "cache_ok env cache'"
      using build_role_permissions_correct [OF assms] by blast
    with False None show ?thesis
      by (auto simp: get_role_permissions_def is_builtin_role_def Let_def cache_ok_insert)
  next
    case (Some rp)
    with False assms(1) show ?thesis
      by (auto simp: get_role_permissions_def is_builtin_role_def cache_ok_def)
  qed
qed

text \<open>
  C5: Looking up the permissions of a role.  With a cache whose current entries are right, and
  with every inherited role present in the directory, the lookup returns (also when the
  inheritance has cycles), the enabled permissions are exactly those some reachable role
  enables, and, unless the administrator role is among them, the effective permissions are those
  minus whatever any reachable role disables; the cache stays right.
\<close>

theorem role_permissions_correct:
  assumes "cache_ok env cache"
    and "\<forall>r \<in> role_reach env role_id. \<not> is_builtin_role r \<longrightarrow> (\<exists>p. query_id env r = Inr (Some p))"
  shows "\<exists>rp cache'. get_role_permissions env cache role_id = (Inr rp, cache') \<and>
    indices (enabled rp) = role_enabled env role_id \<and>
    (ROLE_ADMIN \<notin> role_reach env role_id \<longrightarrow>
       indices (rp_finalize rp) = role_enabled env role_id - role_disabled env role_id) \<and>
    cache_ok env cache'"
  using get_role_permissions_answer [OF assms] by (auto simp: role_answer_def rp_finalize_ok)

definition cyclic_env :: auth_env where
  "cyclic_env =
     \<lparr>is_user_permission = (\<lambda>i. i < 3), is_tenant_admin_permission = (\<lambda>i. i < 9),
      fetch_token_revision = (\<lambda>_. Some 1),
      query_id = (\<lambda>r. Inr (Some \<lparr>p_id = r, p_typ = Role,
        p_fields = [Roles \<mapsto> PIntegerList [7, 8], EnabledPermissions \<mapsto> PIntegerList [3, 5],
                    DisabledPermissions \<mapsto> PInteger 5]\<rparr>))\<rparr>"

theorem role_permissions_correct_witness:
  "\<exists>rp cache'. get_role_permissions cyclic_env Map.empty 7 = (Inr rp, cache') \<and>
     indices (enabled rp) = role_enabled cyclic_env 7 \<and> cache_ok cyclic_env cache'"
proof -
  have "cache_ok cyclic_env Map.empty" by (simp add: cache_ok_def cached_role_def)
  moreover have "\<forall>r \<in> role_reach cyclic_env 7. \<not> is_builtin_role r \<longrightarrow>
      (\<exists>p. query_id cyclic_env r = Inr (Some p))"
    by (simp add: cyclic_env_def)
  ultimately show ?thesis using role_permissions_correct [of cyclic_env Map.empty 7] by blast
qed

section \<open>The administrator role ends the walk\<close>

definition upto_admin :: "u64 list \<Rightarrow> u64 list" where
  "upto_admin role_ids = takeWhile (\<lambda>r. (ucast r :: u32) \<noteq> ROLE_ADMIN) role_ids"

definition with_principal :: "auth_env \<Rightarrow> u32 \<Rightarrow> Principal \<Rightarrow> auth_env" where
  "with_principal env role prin = env\<lparr>query_id := (query_id env)(role := Inr (Some prin))\<rparr>"

lemma role_walk_pop:
  "role_ids @ concat stack = r # rest \<Longrightarrow>
   \<exists>ids stack'. ids @ concat stack' = rest \<and>
     role_walk env role_ids stack fetched acc cache = role_walk env (r # ids) stack' fetched acc cache"
proof (induction stack arbitrary: role_ids)
  case Nil
  then have "rest @ concat [] = rest" "role_ids = r # rest" by simp_all
  then show ?case by blast
next
  case (Cons ids stack)
  show ?case
  proof (cases role_ids)
    case Nil
    with Cons.prems have "ids @ concat stack = r # rest" by simp
    from Cons.IH [OF this] Nil show ?thesis by (simp add: role_walk.simps)
  next
    case (Cons a list)
    with Cons.prems have "list @ concat (ids # stack) = rest" "role_ids = r # list" by simp_all
    then show ?thesis by blast
  qed
qed

lemma pending_roles_flat: "pending_roles role_ids stack = ucast ` set (role_ids @ concat stack)"
  by (simp add: pending_roles_def)

lemma with_principal_simps [simp]:
  "fetch_token_revision (with_principal env role prin) = fetch_token_revision env"
  "query_id (with_principal env role prin) = (query_id env)(role := Inr (Some prin))"
  "user_permissions (with_principal env role prin) = user_permissions env"
  "tenant_admin_permissions (with_principal env role prin) = tenant_admin_permissions env"
  "cached_role (with_principal env role prin) = cached_role env"
  by (simp_all add: with_principal_def user_permissions_def tenant_admin_permissions_def
      cached_role_def fun_eq_iff split: option.split)

text \<open>
  Two walks that agree on the roles pending before the administrator have the same result, whatever
  else is pending and whatever the directory answers for a role that was already fetched.
\<close>

lemma role_walk_upto_admin:
  assumes "role \<in> fetched" and "ROLE_ADMIN \<notin> fetched"
    and "ROLE_ADMIN \<in> pending_roles role_ids stack" and "ROLE_ADMIN \<in> pending_roles role_ids' stack'"
    and "upto_admin (role_ids @ concat stack) = upto_admin (role_ids' @ concat stack')"
  shows "role_walk env role_ids stack fetched acc cache =
    role_walk (with_principal env role prin) role_ids' stack' fetched acc cache"
  using assms
proof (induction env role_ids stack fetched acc cache arbitrary: role_ids' stack' rule: role_walk.induct)
  case (1 env r role_ids stack fetched acc cache)
  let ?e = "with_principal env role prin"
  obtain r' rest where rest: "role_ids' @ concat stack' = r' # rest"
    using "1.prems"(4) by (cases "role_ids' @ concat stack'") (auto simp: pending_roles_def)
  from role_walk_pop [OF this] obtain ids' stack'' where flat: "ids' @ concat stack'' = rest"
    and pop: "role_walk ?e role_ids' stack' fetched acc cache =
      role_walk ?e (r' # ids') stack'' fetched acc cache"
    by blast
  show ?case
  proof (cases "(ucast r :: u32) = ROLE_ADMIN")
    case True
    then have "upto_admin (role_ids' @ concat stack') = []"
      using "1.prems"(5) by (simp add: upto_admin_def)
    then have "(ucast r' :: u32) = ROLE_ADMIN"
      by (simp add: rest upto_admin_def split: if_splits)
    with True "1.prems"(2) show ?thesis
      unfolding pop by (simp add: role_walk.simps(1) Let_def ROLE_ADMIN_def ROLE_USER_def)
  next
    case False
    then have "upto_admin (r' # rest) = r # upto_admin (role_ids @ concat stack)"
      using "1.prems"(5) rest by (simp add: upto_admin_def)
    then have r': "r' = r" and upto: "upto_admin (ids' @ concat stack'') = upto_admin (role_ids @ concat stack)"
      by (simp_all add: flat upto_admin_def split: if_splits)
    have pend: "ROLE_ADMIN \<in> pending_roles role_ids stack" "ROLE_ADMIN \<in> pending_roles ids' stack''"
      using "1.prems"(3,4) False unfolding pending_roles_flat rest flat r' by auto
    have prepend: "upto_admin (ps @ concat (role_ids # stack)) = upto_admin (ps @ concat (ids' # stack''))" for ps
      using upto by (simp add: upto_admin_def takeWhile_append)
    have F: "role \<in> insert (ucast r) fetched" "ROLE_ADMIN \<notin> insert (ucast r) fetched"
      using "1.prems"(1,2) False by auto
    have unfold: "role_walk ?e role_ids' stack' fetched acc cache =
        role_walk ?e (r # ids') stack'' fetched acc cache"
      using pop r' by simp
    note walk = role_walk.simps(1) Let_def False
    note same = pend upto [symmetric]
    consider (seen) "ucast r \<in> fetched"
      | (user) "ucast r \<notin> fetched" "ucast r = ROLE_USER"
      | (tenant) "ucast r \<notin> fetched" "ucast r = ROLE_TENANT_ADMIN" "ucast r \<noteq> ROLE_USER"
      | (cached) p where "ucast r \<notin> fetched" "\<not> is_builtin_role (ucast r)"
          "cached_role env cache (ucast r) = Some p"
      | (fetch) "ucast r \<notin> fetched" "\<not> is_builtin_role (ucast r)"
          "cached_role env cache (ucast r) = None"
      using False unfolding is_builtin_role_def by (cases "cached_role env cache (ucast r)") blast+
    then show ?thesis
    proof cases
      case seen
      with 1(1) [OF refl _ "1.prems"(1,2) same] show ?thesis unfolding unfold by (simp add: walk)
    next
      case user
      with 1(2) [OF refl _ refl _ F same] show ?thesis unfolding unfold by (simp add: walk)
    next
      case tenant
      with 1(3) [OF refl _ refl _ _ _ F same] False show ?thesis unfolding unfold by (simp add: walk)
    next
      case (cached p)
      with 1(6) [OF refl _ refl _ _ _ cached(3) F same] show ?thesis
        unfolding unfold by (simp add: walk is_builtin_role_def)
    next
      case fetch
      have other: "ucast r \<noteq> role" using fetch(1) "1.prems"(1) by auto
      have ids: "ROLE_ADMIN \<in> pending_roles ps (role_ids # stack)"
        "ROLE_ADMIN \<in> pending_roles ps (ids' # stack'')" for ps
        using pend by simp_all
      show ?thesis
      proof (cases "\<exists>q rp. query_id env (ucast r) = Inr (Some q) \<and> add_principal_permissions
          (rp_default\<lparr>rp_revision := unwrap_or (fetch_token_revision env (ucast r)) (- 1)\<rparr>) q = Some rp")
        case True
        then obtain q rp where q: "query_id env (ucast r) = Inr (Some q)"
          and rp: "add_principal_permissions
            (rp_default\<lparr>rp_revision := unwrap_or (fetch_token_revision env (ucast r)) (- 1)\<rparr>) q = Some rp"
          by blast
        show ?thesis
          using fetch 1(4) [OF refl _ refl _ _ _ fetch(3) q refl rp _ F same]
            1(5) [OF refl _ refl _ _ _ fetch(3) q refl rp _ F ids prepend]
          unfolding unfold
          by (cases "non_empty (snd (take_int_array q Roles))")
            (simp_all add: role_walk.simps(1) Let_def False other q rp is_builtin_role_def fun_upd_def)
      next
        case none: False
        then show ?thesis
          unfolding unfold using fetch
          by (auto simp: role_walk.simps(1) Let_def False other is_builtin_role_def
              split: sum.split option.split)
      qed
    qed
  qed
next
  case (2 env prev_role_ids stack fetched acc cache)
  have "role_walk env prev_role_ids stack fetched acc cache =
      role_walk (with_principal env role prin) role_ids' stack' fetched acc cache"
    by (rule 2(1)) (use "2.prems" in simp_all)
  then show ?case by (simp add: role_walk.simps(2))
next
  case (3 env fetched acc cache)
  then show ?case by simp
qed

definition ordered_env :: auth_env where
  "ordered_env =
     \<lparr>is_user_permission = (\<lambda>i. False), is_tenant_admin_permission = (\<lambda>i. False),
      fetch_token_revision = (\<lambda>_. Some 1),
      query_id = (\<lambda>r.
        if r = 10 then Inr (Some \<lparr>p_id = r, p_typ = Role,
          p_fields = [Roles \<mapsto> PIntegerList [0xFFFFFFFF, 12]]\<rparr>)
        else if r = 11 then Inr (Some \<lparr>p_id = r, p_typ = Role,
          p_fields = [Roles \<mapsto> PIntegerList [12, 0xFFFFFFFF]]\<rparr>)
        else if r = 12 then Inr (Some \<lparr>p_id = r, p_typ = Role,
          p_fields = [DisabledPermissions \<mapsto> PInteger 5]\<rparr>)
        else Inr None)\<rparr>"

definition effective :: "(auth_error + RolePermissions) \<times> role_cache \<Rightarrow> nat \<Rightarrow> bool option" where
  "effective answer permission =
     (case fst answer of Inr rp \<Rightarrow> bs_get (rp_finalize rp) permission | Inl _ \<Rightarrow> None)"

text \<open>
  C25: The administrator role ends the walk.  When the parent list of a role that is not built in
  and not cached contains the administrator role, everything listed behind it is ignored: the
  lookup answers, and leaves the cache, as if the list ended there, whatever those parents are and
  whatever they disable.
\<close>

theorem role_admin_order_matters:
  assumes "\<not> is_builtin_role role" and "cached_role env cache role = None"
    and "query_id env role = Inr (Some prin)"
    and "p_fields prin Roles = Some (PIntegerList (before @ ucast ROLE_ADMIN # behind))"
  shows "get_role_permissions env cache role =
    get_role_permissions
      (with_principal env role (principal_set prin Roles (PIntegerList (before @ [ucast ROLE_ADMIN]))))
      cache role"
proof -
  let ?prin = "principal_set prin Roles (PIntegerList (before @ [ucast ROLE_ADMIN]))"
  have ucast: "ucast (ucast r :: u64) = r" for r :: u32
    by (rule bit_eqI) (auto simp: bit_simps dest: bit_imp_le_length)
  have "ROLE_ADMIN \<noteq> role" using assms(1) by (auto simp: is_builtin_role_def)
  then have walk: "role_walk env (before @ ucast ROLE_ADMIN # behind) [[]] {role} acc c =
      role_walk (with_principal env role ?prin) (before @ [ucast ROLE_ADMIN]) [[]] {role} acc c" for acc c
    by (intro role_walk_upto_admin)
      (auto simp: pending_roles_def upto_admin_def ucast takeWhile_append intro: image_eqI [of _ _ "ucast ROLE_ADMIN"])
  have same: "add_principal_permissions rp ?prin = add_principal_permissions rp prin" for rp
    by (simp add: add_principal_permissions_def iter_int_def)
  have "build_role_permissions env cache role revision =
      build_role_permissions (with_principal env role ?prin) cache role revision" for revision
    using assms walk
    by (simp add: build_role_permissions_def is_builtin_role_def role_walk.simps(1) Let_def ucast same
        non_empty_roles int_values_def split: option.split)
  with assms(1,2) show ?thesis by (simp add: get_role_permissions_def is_builtin_role_def)
qed

theorem role_admin_order_matters_witness:
  "get_role_permissions ordered_env Map.empty 10 =
     get_role_permissions
       (with_principal ordered_env 10 \<lparr>p_id = 10, p_typ = Role,
          p_fields = [Roles \<mapsto> PIntegerList [ucast ROLE_ADMIN]]\<rparr>) Map.empty 10 \<and>
   effective (get_role_permissions ordered_env Map.empty 10) 5 = Some True \<and>
   effective (get_role_permissions ordered_env Map.empty 11) 5 = Some False"
proof (intro conjI)
  let ?prin = "\<lparr>p_id = 10, p_typ = Role, p_fields = [Roles \<mapsto> PIntegerList [0xFFFFFFFF, 12]]\<rparr>"
  have "ucast ROLE_ADMIN = (0xFFFFFFFF :: u64)" by code_simp
  then have "p_fields ?prin Roles = Some (PIntegerList ([] @ ucast ROLE_ADMIN # [12]))" by simp
  moreover have "\<not> is_builtin_role 10" by code_simp
  moreover have "cached_role ordered_env Map.empty 10 = None" by (simp add: cached_role_def)
  moreover have "query_id ordered_env 10 = Inr (Some ?prin)" by (simp add: ordered_env_def)
  ultimately show "get_role_permissions ordered_env Map.empty 10 =
      get_role_permissions
        (with_principal ordered_env 10 \<lparr>p_id = 10, p_typ = Role,
           p_fields = [Roles \<mapsto> PIntegerList [ucast ROLE_ADMIN]]\<rparr>) Map.empty 10"
    using role_admin_order_matters [of 10 ordered_env Map.empty ?prin "[]" "[12]"]
    by (simp add: principal_set_def)
qed code_simp+

end
