(* ===== verification/AclTypes.thy ===== *)
theory AclTypes
  imports Bitmap
begin

text \<open>
  The enumerations of the access-control layer: collections
  (\<open>jmap-proto/src/types/collection.rs\<close>), access rights (\<open>jmap-proto/src/types/acl.rs\<close>), and
  the rights of the IMAP ACL extension with their letters
  (\<open>imap-proto/src/protocol/acl.rs\<close>, \<open>imap-proto/src/parser/acl.rs\<close>).

  The variants called \<open>None\<close> and \<open>Collection::Principal\<close> are \<open>NoAcl\<close>, \<open>NoCollection\<close> and
  \<open>PrincipalCollection\<close>.  The lemmas are the round trips between the variants, their numbers,
  their names and their letters.
\<close>

section \<open>Collections\<close>

datatype Collection =
  Email | Mailbox | Thread | Identity | EmailSubmission | SieveScript | PushSubscription
| PrincipalCollection | NoCollection

definition collection_from_u8 :: "u8 \<Rightarrow> Collection" where
  "collection_from_u8 v =
     (if v = 0 then Email else if v = 1 then Mailbox else if v = 2 then Thread
      else if v = 3 then Identity else if v = 4 then EmailSubmission
      else if v = 5 then SieveScript else if v = 6 then PushSubscription
      else if v = 7 then PrincipalCollection else NoCollection)"

definition collection_from_u64 :: "u64 \<Rightarrow> Collection" where
  "collection_from_u64 v =
     (if v = 0 then Email else if v = 1 then Mailbox else if v = 2 then Thread
      else if v = 3 then Identity else if v = 4 then EmailSubmission
      else if v = 5 then SieveScript else if v = 6 then PushSubscription
      else if v = 7 then PrincipalCollection else NoCollection)"

fun collection_to_u8 :: "Collection \<Rightarrow> u8" where
  "collection_to_u8 Email = 0"
| "collection_to_u8 Mailbox = 1"
| "collection_to_u8 Thread = 2"
| "collection_to_u8 Identity = 3"
| "collection_to_u8 EmailSubmission = 4"
| "collection_to_u8 SieveScript = 5"
| "collection_to_u8 PushSubscription = 6"
| "collection_to_u8 PrincipalCollection = 7"
| "collection_to_u8 NoCollection = 8"

definition collection_to_u64 :: "Collection \<Rightarrow> u64" where
  "collection_to_u64 c = ucast (collection_to_u8 c)"

fun collection_as_str :: "Collection \<Rightarrow> string" where
  "collection_as_str PushSubscription = ''pushSubscription''"
| "collection_as_str Email = ''email''"
| "collection_as_str Mailbox = ''mailbox''"
| "collection_as_str Thread = ''thread''"
| "collection_as_str Identity = ''identity''"
| "collection_as_str EmailSubmission = ''emailSubmission''"
| "collection_as_str SieveScript = ''sieveScript''"
| "collection_as_str PrincipalCollection = ''principal''"
| "collection_as_str NoCollection = []"

definition collection_from_str :: "string \<Rightarrow> Collection option" where
  "collection_from_str s =
     (if s = ''pushSubscription'' then Some PushSubscription
      else if s = ''email'' then Some Email
      else if s = ''mailbox'' then Some Mailbox
      else if s = ''thread'' then Some Thread
      else if s = ''identity'' then Some Identity
      else if s = ''emailSubmission'' then Some EmailSubmission
      else if s = ''sieveScript'' then Some SieveScript
      else if s = ''principal'' then Some PrincipalCollection
      else None)"

definition collection_is_valid :: "Collection \<Rightarrow> bool" where
  "collection_is_valid c = (c \<noteq> NoCollection)"

lemma collection_roundtrip [simp]:
  "collection_from_u8 (collection_to_u8 c) = c"
  "collection_from_u64 (collection_to_u64 c) = c"
  "collection_is_valid c \<Longrightarrow> collection_from_str (collection_as_str c) = Some c"
  by (cases c; simp add: collection_from_u8_def collection_from_u64_def collection_to_u64_def
      collection_from_str_def collection_is_valid_def)+

lemma collection_to_u64_bound: "unat (collection_to_u64 c) < 64"
  by (cases c) (simp_all add: collection_to_u64_def)

section \<open>Access rights\<close>

datatype Acl =
  Read | Modify | Delete | ReadItems | AddItems | ModifyItems | RemoveItems | CreateChild
| Administer | Submit | NoAcl

fun acl_to_u64 :: "Acl \<Rightarrow> u64" where
  "acl_to_u64 Read = 0"
| "acl_to_u64 Modify = 1"
| "acl_to_u64 Delete = 2"
| "acl_to_u64 ReadItems = 3"
| "acl_to_u64 AddItems = 4"
| "acl_to_u64 ModifyItems = 5"
| "acl_to_u64 RemoveItems = 6"
| "acl_to_u64 CreateChild = 7"
| "acl_to_u64 Administer = 8"
| "acl_to_u64 Submit = 9"
| "acl_to_u64 NoAcl = 10"

definition acl_from_u64 :: "u64 \<Rightarrow> Acl" where
  "acl_from_u64 v =
     (if v = 0 then Read else if v = 1 then Modify else if v = 2 then Delete
      else if v = 3 then ReadItems else if v = 4 then AddItems else if v = 5 then ModifyItems
      else if v = 6 then RemoveItems else if v = 7 then CreateChild
      else if v = 8 then Administer else if v = 9 then Submit else NoAcl)"

definition acl_is_valid :: "Acl \<Rightarrow> bool" where
  "acl_is_valid a = (a \<noteq> NoAcl)"

definition acl_max :: u64 where
  "acl_max = acl_to_u64 NoAcl"

fun acl_as_str :: "Acl \<Rightarrow> string" where
  "acl_as_str Read = ''read''"
| "acl_as_str Modify = ''modify''"
| "acl_as_str Delete = ''delete''"
| "acl_as_str ReadItems = ''readItems''"
| "acl_as_str AddItems = ''addItems''"
| "acl_as_str ModifyItems = ''modifyItems''"
| "acl_as_str RemoveItems = ''removeItems''"
| "acl_as_str CreateChild = ''createChild''"
| "acl_as_str Administer = ''administer''"
| "acl_as_str Submit = ''submit''"
| "acl_as_str NoAcl = []"

text \<open>The JSON parser packs the unescaped bytes of the token into a \<open>u128\<close>, lowest first.\<close>

fun acl_hash :: "u128 \<Rightarrow> nat \<Rightarrow> bytes \<Rightarrow> u128 option" where
  "acl_hash hash shift [] = Some hash"
| "acl_hash hash shift (ch # bs) =
     (if shift < 128 then acl_hash (hash OR push_bit shift (ucast ch)) (shift + 8) bs else None)"

definition acl_parse :: "bytes \<Rightarrow> Acl option" where
  "acl_parse bs =
     (case acl_hash 0 0 bs of
        None \<Rightarrow> None
      | Some hash \<Rightarrow>
          if hash = 0x64616572 then Some Read
          else if hash = 0x796669646f6d then Some Modify
          else if hash = 0x6574656c6564 then Some Delete
          else if hash = 0x00736d65744964616572 then Some ReadItems
          else if hash = 0x736d657449646461 then Some AddItems
          else if hash = 0x00736d657449796669646f6d then Some ModifyItems
          else if hash = 0x00736d65744965766f6d6572 then Some RemoveItems
          else if hash = 0x00646c696843657461657263 then Some CreateChild
          else if hash = 0x72657473696e696d6461 then Some Administer
          else if hash = 0x74696d627573 then Some Submit
          else None)"

lemma acl_u64_roundtrip [simp]: "acl_from_u64 (acl_to_u64 a) = a"
  by (cases a) (simp_all add: acl_from_u64_def)

lemma acl_to_u64_bound [simp]: "unat (acl_to_u64 a) < 64"
  by (cases a) simp_all

lemma acl_to_u64_inj: "acl_to_u64 a = acl_to_u64 b \<longleftrightarrow> a = b"
  by (metis acl_u64_roundtrip)

lemma acl_parse_as_str:
  assumes "acl_is_valid a"
  shows "acl_parse (map of_char (acl_as_str a)) = Some a"
  using assms by (cases a) (simp_all add: acl_is_valid_def acl_parse_def or_numerals)

section \<open>Rights of the IMAP ACL extension\<close>

datatype Rights =
  R_Lookup | R_Read | R_Seen | R_Write | R_Insert | R_Post | R_CreateMailbox | R_DeleteMailbox
| R_DeleteMessages | R_Expunge | R_Administer

datatype ModRightsOp = OpAdd | OpRemove | OpReplace

record ModRights =
  mr_op :: ModRightsOp
  mr_rights :: "Rights list"

fun to_char :: "Rights \<Rightarrow> char" where
  "to_char R_Lookup = CHR ''l''"
| "to_char R_Read = CHR ''r''"
| "to_char R_Seen = CHR ''s''"
| "to_char R_Write = CHR ''w''"
| "to_char R_Insert = CHR ''i''"
| "to_char R_Post = CHR ''p''"
| "to_char R_CreateMailbox = CHR ''k''"
| "to_char R_DeleteMailbox = CHR ''x''"
| "to_char R_DeleteMessages = CHR ''t''"
| "to_char R_Expunge = CHR ''e''"
| "to_char R_Administer = CHR ''a''"

fun acl_from_rights :: "Rights \<Rightarrow> Acl" where
  "acl_from_rights R_Lookup = Read"
| "acl_from_rights R_Read = ReadItems"
| "acl_from_rights R_Seen = ModifyItems"
| "acl_from_rights R_Write = ModifyItems"
| "acl_from_rights R_Insert = AddItems"
| "acl_from_rights R_Post = Submit"
| "acl_from_rights R_CreateMailbox = CreateChild"
| "acl_from_rights R_DeleteMailbox = Delete"
| "acl_from_rights R_DeleteMessages = RemoveItems"
| "acl_from_rights R_Expunge = RemoveItems"
| "acl_from_rights R_Administer = Administer"

definition right_of_char :: "char \<Rightarrow> Rights option" where
  "right_of_char ch =
     (if ch = CHR ''l'' then Some R_Lookup
      else if ch = CHR ''r'' then Some R_Read
      else if ch = CHR ''s'' then Some R_Seen
      else if ch = CHR ''w'' then Some R_Write
      else if ch = CHR ''i'' then Some R_Insert
      else if ch = CHR ''p'' then Some R_Post
      else if ch = CHR ''k'' then Some R_CreateMailbox
      else if ch = CHR ''x'' then Some R_DeleteMailbox
      else if ch = CHR ''t'' then Some R_DeleteMessages
      else if ch = CHR ''e'' then Some R_Expunge
      else if ch = CHR ''a'' then Some R_Administer
      else if ch = CHR ''d'' then Some R_DeleteMessages
      else if ch = CHR ''c'' then Some R_CreateMailbox
      else None)"

definition push_unique :: "'a list \<Rightarrow> 'a \<Rightarrow> 'a list" where
  "push_unique xs x = (if x \<in> set xs then xs else xs @ [x])"

datatype rights_error = InvalidCharacter char | NoRights

fun mod_rights_loop ::
    "nat \<Rightarrow> ModRightsOp \<Rightarrow> Rights list \<Rightarrow> string \<Rightarrow> rights_error + (ModRightsOp \<times> Rights list)" where
  "mod_rights_loop pos op rights [] = Inr (op, rights)"
| "mod_rights_loop pos op rights (ch # cs) =
     (case right_of_char ch of
        Some r \<Rightarrow> mod_rights_loop (Suc pos) op (push_unique rights r) cs
      | None \<Rightarrow>
          if ch = CHR ''+'' \<and> pos = 0 then mod_rights_loop (Suc pos) OpAdd rights cs
          else if ch = CHR ''-'' \<and> pos = 0 then mod_rights_loop (Suc pos) OpRemove rights cs
          else Inl (InvalidCharacter ch))"

definition mod_rights_parse :: "string \<Rightarrow> rights_error + ModRights" where
  "mod_rights_parse s =
     (case mod_rights_loop 0 OpReplace [] s of
        Inl e \<Rightarrow> Inl e
      | Inr (op, rights) \<Rightarrow>
          if rights \<noteq> [] then Inr \<lparr>mr_op = op, mr_rights = rights\<rparr> else Inl NoRights)"

lemma right_of_to_char [simp]: "right_of_char (to_char r) = Some r"
  by (cases r) (simp_all add: right_of_char_def)

lemma right_of_char_sign [simp]: "right_of_char CHR ''+'' = None" "right_of_char CHR ''-'' = None"
  by (simp_all add: right_of_char_def)

lemma mod_rights_loop_letters:
  "distinct (done @ rs) \<Longrightarrow>
   mod_rights_loop pos op done (map to_char rs) = Inr (op, done @ rs)"
  by (induction rs arbitrary: pos "done") (auto simp: push_unique_def)

fun op_sign :: "ModRightsOp \<Rightarrow> string" where
  "op_sign OpAdd = ''+''"
| "op_sign OpRemove = ''-''"
| "op_sign OpReplace = []"

text \<open>
  C30: The rights argument of \<open>SETACL\<close>: the sign of an operation followed by the letters of
  distinct rights parses back to that operation and those rights.
\<close>

theorem mod_rights_roundtrip:
  assumes "distinct rs" and "rs \<noteq> []"
  shows "mod_rights_parse (op_sign op @ map to_char rs) = Inr \<lparr>mr_op = op, mr_rights = rs\<rparr>"
  using assms mod_rights_loop_letters [of "[]" rs]
  by (cases op) (simp_all add: mod_rights_parse_def)

theorem mod_rights_roundtrip_witness:
  "mod_rights_parse ''-lr'' = Inr \<lparr>mr_op = OpRemove, mr_rights = [R_Lookup, R_Read]\<rparr>"
  using mod_rights_roundtrip [of "[R_Lookup, R_Read]" OpRemove] by simp

end
