(* ===== verification/VecMap.thy ===== *)
theory VecMap
  imports Prelude "HOL-Library.Product_Lexorder"
begin

text \<open>
  The small association map of \<open>utils/src/map/vec_map.rs\<close>: a vector of key/value pairs that is
  searched front to back.

  Nothing in the structure forbids a key from occurring twice: \<open>append\<close>, \<open>insert\<close> and the
  collecting constructors do not look for it.  What every operation promises is therefore
  stated over the list of values stored under a key, \<open>iter_by_key\<close>, of which \<open>get\<close> shows the
  first; a map in the usual sense is the case where every such list has at most one element.

  A method that returns \<open>&mut V\<close> is modelled by the update its caller makes through the
  reference, passed as a function.  A method that panics on an index out of range returns
  \<open>None\<close> there.
\<close>

type_synonym ('k, 'v) vec_map = "('k \<times> 'v) list"

definition vm_new :: "('k, 'v) vec_map" where
  "vm_new = []"

definition vm_set :: "('k, 'v) vec_map \<Rightarrow> 'k \<Rightarrow> 'v \<Rightarrow> ('k, 'v) vec_map \<times> bool" where
  "vm_set m key v =
     (case position (\<lambda>kv. fst kv = key) m of
        Some pos \<Rightarrow> (m[pos := (fst (m ! pos), v)], False)
      | None \<Rightarrow> (m @ [(key, v)], True))"

definition vm_append :: "('k, 'v) vec_map \<Rightarrow> 'k \<Rightarrow> 'v \<Rightarrow> ('k, 'v) vec_map" where
  "vm_append m key v = m @ [(key, v)]"

definition vm_insert :: "('k, 'v) vec_map \<Rightarrow> nat \<Rightarrow> 'k \<Rightarrow> 'v \<Rightarrow> ('k, 'v) vec_map option" where
  "vm_insert m idx key v =
     (if idx \<le> length m then Some (take idx m @ (key, v) # drop idx m) else None)"

definition vm_get :: "('k, 'v) vec_map \<Rightarrow> 'k \<Rightarrow> 'v option" where
  "vm_get m key = map_option snd (find (\<lambda>kv. fst kv = key) m)"

definition vm_get_mut :: "('k, 'v) vec_map \<Rightarrow> 'k \<Rightarrow> ('v \<Rightarrow> 'v) \<Rightarrow> ('k, 'v) vec_map option" where
  "vm_get_mut m key f =
     (case position (\<lambda>kv. fst kv = key) m of
        Some pos \<Rightarrow> Some (m[pos := (fst (m ! pos), f (snd (m ! pos)))])
      | None \<Rightarrow> None)"

definition vm_contains_key :: "('k, 'v) vec_map \<Rightarrow> 'k \<Rightarrow> bool" where
  "vm_contains_key m key = list_ex (\<lambda>kv. fst kv = key) m"

definition remove_at :: "nat \<Rightarrow> 'a list \<Rightarrow> 'a list" where
  "remove_at pos xs = take pos xs @ drop (Suc pos) xs"

definition vm_remove :: "('k, 'v) vec_map \<Rightarrow> 'k \<Rightarrow> ('k, 'v) vec_map \<times> 'v option" where
  "vm_remove m key =
     (case position (\<lambda>kv. fst kv = key) m of
        Some pos \<Rightarrow> (remove_at pos m, Some (snd (m ! pos)))
      | None \<Rightarrow> (m, None))"

definition vm_remove_all :: "('k, 'v) vec_map \<Rightarrow> 'k \<Rightarrow> ('k, 'v) vec_map" where
  "vm_remove_all m key = filter (\<lambda>kv. fst kv \<noteq> key) m"

definition vm_remove_entry ::
    "('k, 'v) vec_map \<Rightarrow> 'k \<Rightarrow> ('k, 'v) vec_map \<times> ('k \<times> 'v) option" where
  "vm_remove_entry m key =
     (case position (\<lambda>kv. fst kv = key) m of
        Some pos \<Rightarrow> (remove_at pos m, Some (m ! pos))
      | None \<Rightarrow> (m, None))"

definition vm_swap_remove :: "('k, 'v) vec_map \<Rightarrow> nat \<Rightarrow> (('k, 'v) vec_map \<times> 'v) option" where
  "vm_swap_remove m index =
     (if index < length m then Some (butlast (m[index := last m]), snd (m ! index)) else None)"

definition vm_clear :: "('k, 'v) vec_map \<Rightarrow> ('k, 'v) vec_map" where
  "vm_clear m = []"

definition vm_iter_by_key :: "('k, 'v) vec_map \<Rightarrow> 'k \<Rightarrow> 'v list" where
  "vm_iter_by_key m key = map snd (filter (\<lambda>kv. fst kv = key) m)"

definition vm_iter_mut_by_key ::
    "('k, 'v) vec_map \<Rightarrow> 'k \<Rightarrow> ('v \<Rightarrow> 'v) \<Rightarrow> ('k, 'v) vec_map" where
  "vm_iter_mut_by_key m key f = map (\<lambda>kv. if fst kv = key then (fst kv, f (snd kv)) else kv) m"

definition vm_keys :: "('k, 'v) vec_map \<Rightarrow> 'k list" where
  "vm_keys m = map fst m"

definition vm_values :: "('k, 'v) vec_map \<Rightarrow> 'v list" where
  "vm_values m = map snd m"

definition vm_get_mut_or_insert_with ::
    "('k, 'v) vec_map \<Rightarrow> 'k \<Rightarrow> 'v \<Rightarrow> ('v \<Rightarrow> 'v) \<Rightarrow> ('k, 'v) vec_map" where
  "vm_get_mut_or_insert_with m key dflt f =
     (case position (\<lambda>kv. fst kv = key) m of
        Some pos \<Rightarrow> m[pos := (fst (m ! pos), f (snd (m ! pos)))]
      | None \<Rightarrow> m @ [(key, f dflt)])"

definition vm_with_key_value :: "('k, 'v) vec_map \<Rightarrow> 'k \<Rightarrow> 'v \<Rightarrow> ('k, 'v) vec_map" where
  "vm_with_key_value m key v = vm_append m key v"

definition vm_sort_unstable :: "('k::linorder, 'v::linorder) vec_map \<Rightarrow> ('k, 'v) vec_map" where
  "vm_sort_unstable m = sort m"

definition vm_from_iter :: "('k \<times> 'v) list \<Rightarrow> ('k, 'v) vec_map" where
  "vm_from_iter kvs = foldl (\<lambda>m kv. vm_append m (fst kv) (snd kv)) vm_new kvs"

section \<open>The contract: a list of values under every key\<close>

text \<open>
  The interface the clients rely on.  \<open>entries m k\<close> is what the store holds under \<open>k\<close>, oldest
  first; \<open>upsert\<close> updates the first entry or creates one from a default.
\<close>

locale keyed_store =
  fixes empty_store :: 'm
    and entries :: "'m \<Rightarrow> 'k \<Rightarrow> 'v list"
    and upsert :: "'m \<Rightarrow> 'k \<Rightarrow> 'v \<Rightarrow> ('v \<Rightarrow> 'v) \<Rightarrow> 'm"
    and discard :: "'m \<Rightarrow> 'k \<Rightarrow> 'm"
  assumes entries_empty: "entries empty_store k = []"
    and entries_upsert:
      "entries (upsert m k d f) k' =
         (if k' = k then case entries m k of [] \<Rightarrow> [f d] | v # vs \<Rightarrow> f v # vs
          else entries m k')"
    and entries_discard:
      "entries (discard m k) k' = (if k' = k then tl (entries m k) else entries m k')"
begin

definition single_valued :: "'m \<Rightarrow> bool" where
  "single_valued m = (\<forall>k. length (entries m k) \<le> 1)"

lemma single_valued_empty: "single_valued empty_store"
  by (simp add: single_valued_def entries_empty)

lemma single_valued_upsert: "single_valued m \<Longrightarrow> single_valued (upsert m k d f)"
proof (unfold single_valued_def, rule allI)
  fix k'
  assume "\<forall>k. length (entries m k) \<le> 1"
  then have "length (entries m k) \<le> 1" "length (entries m k') \<le> 1" by blast+
  then show "length (entries (upsert m k d f) k') \<le> 1"
    by (cases "entries m k") (simp_all add: entries_upsert)
qed

lemma single_valued_discard: "single_valued m \<Longrightarrow> single_valued (discard m k)"
  by (simp add: single_valued_def entries_discard diff_le_mono)

lemma entries_upserts_other:
  "k \<notin> fst ` set es \<Longrightarrow>
   entries (foldl (\<lambda>m e. upsert m (fst e) d (step (snd e))) m es) k = entries m k"
  by (induction es arbitrary: m) (auto simp: entries_upsert)

text \<open>
  A client that records a stream of keyed events keeps, under every key, exactly the fold of
  the events of that key: the keys do not interfere.
\<close>

lemma entries_upserts_single:
  "entries m k = [v] \<Longrightarrow>
   entries (foldl (\<lambda>m e. upsert m (fst e) d (step (snd e))) m es) k =
     [foldl (\<lambda>v x. step x v) v (map snd (filter (\<lambda>e. fst e = k) es))]"
  by (induction es arbitrary: m v) (auto simp: entries_upsert)

lemma entries_upserts:
  "entries m k = [] \<Longrightarrow>
   entries (foldl (\<lambda>m e. upsert m (fst e) d (step (snd e))) m es) k =
     (case map snd (filter (\<lambda>e. fst e = k) es) of
        [] \<Rightarrow> []
      | x # xs \<Rightarrow> [foldl (\<lambda>v x. step x v) d (x # xs)])"
proof (induction es arbitrary: m)
  case (Cons e es)
  show ?case
  proof (cases "fst e = k")
    case True
    then have "entries (upsert m (fst e) d (step (snd e))) k = [step (snd e) d]"
      by (simp add: entries_upsert Cons.prems)
    from entries_upserts_single [OF this] True show ?thesis by simp
  next
    case False
    then have "entries (upsert m (fst e) d (step (snd e))) k = []"
      by (simp add: entries_upsert Cons.prems)
    from Cons.IH [OF this] False show ?thesis by simp
  qed
qed simp

end

section \<open>The vector map meets the contract\<close>

lemma iter_by_key_Nil [simp]: "vm_iter_by_key [] k = []"
  by (simp add: vm_iter_by_key_def)

lemma iter_by_key_Cons [simp]:
  "vm_iter_by_key (kv # m) k = (if fst kv = k then snd kv # vm_iter_by_key m k else vm_iter_by_key m k)"
  by (simp add: vm_iter_by_key_def)

lemma iter_by_key_append [simp]: "vm_iter_by_key (m @ n) k = vm_iter_by_key m k @ vm_iter_by_key n k"
  by (simp add: vm_iter_by_key_def)

lemma iter_by_key_eq_Nil: "vm_iter_by_key m k = [] \<longleftrightarrow> k \<notin> fst ` set m"
  by (induction m) auto

lemma iter_by_key_absent [simp]: "\<forall>kv \<in> set m. fst kv \<noteq> k \<Longrightarrow> vm_iter_by_key m k = []"
  by (auto simp: iter_by_key_eq_Nil)

lemma position_key_cases:
  obtains (absent) "position (\<lambda>kv. fst kv = k) m = None" "\<forall>kv \<in> set m. fst kv \<noteq> k"
  | (present) ys v zs where "position (\<lambda>kv. fst kv = k) m = Some (length ys)"
      "m = ys @ (k, v) # zs" "\<forall>kv \<in> set ys. fst kv \<noteq> k"
proof (cases "position (\<lambda>kv. fst kv = k) m")
  case None
  then show ?thesis by (intro absent) (simp_all add: position_eq_None_iff)
next
  case (Some i)
  from position_split [OF this] obtain ys y zs
    where *: "m = ys @ y # zs" "length ys = i" "fst y = k" "\<forall>kv \<in> set ys. fst kv \<noteq> k"
    by blast
  show ?thesis
  proof (rule present)
    show "position (\<lambda>kv. fst kv = k) m = Some (length ys)" using Some *(2) by simp
    show "m = ys @ (k, snd y) # zs" using *(1,3) by (metis prod.collapse)
    show "\<forall>kv \<in> set ys. fst kv \<noteq> k" by (rule *(4))
  qed
qed

lemma iter_by_key_upsert:
  "vm_iter_by_key (vm_get_mut_or_insert_with m k d f) k' =
     (if k' = k then case vm_iter_by_key m k of [] \<Rightarrow> [f d] | v # vs \<Rightarrow> f v # vs
      else vm_iter_by_key m k')"
proof (cases rule: position_key_cases [of k m])
  case absent
  then show ?thesis by (auto simp: vm_get_mut_or_insert_with_def)
next
  case (present ys v zs)
  then show ?thesis by (auto simp: vm_get_mut_or_insert_with_def)
qed

lemma keys_upsert: "fst ` set (vm_get_mut_or_insert_with m k d f) = insert k (fst ` set m)"
proof (cases rule: position_key_cases [of k m])
  case absent
  then show ?thesis by (simp add: vm_get_mut_or_insert_with_def)
next
  case (present ys v zs)
  then show ?thesis by (simp add: vm_get_mut_or_insert_with_def)
qed

lemma upsert_entry_cases:
  assumes "(k', v') \<in> set (vm_get_mut_or_insert_with m k d f)"
  shows "(k', v') \<in> set m \<or> v' = f d \<or> (\<exists>v. (k, v) \<in> set m \<and> v' = f v)"
proof (cases rule: position_key_cases [of k m])
  case absent
  with assms show ?thesis by (auto simp: vm_get_mut_or_insert_with_def)
next
  case (present ys v zs)
  with assms show ?thesis by (auto simp: vm_get_mut_or_insert_with_def)
qed

lemma iter_by_key_remove:
  "vm_iter_by_key (fst (vm_remove m k)) k' =
     (if k' = k then tl (vm_iter_by_key m k) else vm_iter_by_key m k')"
proof (cases rule: position_key_cases [of k m])
  case absent
  then show ?thesis by (auto simp: vm_remove_def)
next
  case (present ys v zs)
  then show ?thesis by (auto simp: vm_remove_def remove_at_def)
qed

interpretation vm: keyed_store vm_new vm_iter_by_key vm_get_mut_or_insert_with "\<lambda>m k. fst (vm_remove m k)"
  by unfold_locales (simp_all add: vm_new_def iter_by_key_upsert iter_by_key_remove)

lemma vm_get_eq: "vm_get m k = (case vm_iter_by_key m k of [] \<Rightarrow> None | v # _ \<Rightarrow> Some v)"
  by (induction m) (simp_all add: vm_get_def)

lemma vm_contains_key_eq: "vm_contains_key m k \<longleftrightarrow> vm_iter_by_key m k \<noteq> []"
  by (induction m) (auto simp: vm_contains_key_def)

lemma vm_remove_value: "snd (vm_remove m k) = vm_get m k"
proof (cases rule: position_key_cases [of k m])
  case absent
  then show ?thesis by (simp add: vm_remove_def vm_get_eq)
next
  case (present ys v zs)
  then show ?thesis by (simp add: vm_remove_def vm_get_eq)
qed

lemma vm_set_eq:
  "vm_set m k v = (vm_get_mut_or_insert_with m k v (\<lambda>_. v), \<not> vm_contains_key m k)"
proof (cases rule: position_key_cases [of k m])
  case absent
  then show ?thesis by (simp add: vm_set_def vm_get_mut_or_insert_with_def vm_contains_key_eq)
next
  case (present ys w zs)
  then show ?thesis by (simp add: vm_set_def vm_get_mut_or_insert_with_def vm_contains_key_eq)
qed

lemma iter_by_key_remove_all:
  "vm_iter_by_key (vm_remove_all m k) k' = (if k' = k then [] else vm_iter_by_key m k')"
  by (induction m) (auto simp: vm_remove_all_def)

lemma vm_from_iter_eq: "vm_from_iter kvs = kvs"
proof -
  have "foldl (\<lambda>m kv. vm_append m (fst kv) (snd kv)) m kvs = m @ kvs" for m
    by (induction kvs arbitrary: m) (simp_all add: vm_append_def)
  then show ?thesis by (simp add: vm_from_iter_def vm_new_def)
qed


end
