(* ===== verification/TokenRevision.thy ===== *)
theory TokenRevision
  imports AccessToken
begin

text \<open>
  Invalidation of cached tokens: the set of changed principals
  (\<open>ChangedPrincipals\<close> in \<open>directory/src/backend/internal/manage.rs\<close>) and the propagation of a
  change to the members of roles and tenants (\<open>increment_token_revision\<close> in
  \<open>common/src/auth/access_token.rs\<close>).

  The hash map of changed principals is an association map; its iteration order carries no
  meaning and the lemmas speak about sets.  The listing of a tenant's principals and of the
  members of a principal are arguments; a failed listing is logged and skipped, as in the code.
  The result of the propagation is the sequence of principals whose revision is incremented.
\<close>

record ChangedPrincipal =
  cp_typ :: principal_type
  member_change :: bool

type_synonym changed_principals = "(u32, ChangedPrincipal) vec_map"

definition changed_new :: "principal_type \<Rightarrow> ChangedPrincipal" where
  "changed_new t = \<lparr>cp_typ = t, member_change = False\<rparr>"

definition update_member_change :: "bool \<Rightarrow> ChangedPrincipal \<Rightarrow> ChangedPrincipal" where
  "update_member_change m c = (if \<not> member_change c \<and> m then c\<lparr>member_change := True\<rparr> else c)"

definition account_field :: "PrincipalField \<Rightarrow> bool" where
  "account_field f =
     (f \<in> {Name, Quota, Secrets, Emails, MemberOf, Members, Tenant, Roles, EnabledPermissions,
           DisabledPermissions})"

definition role_field :: "PrincipalField \<Rightarrow> bool" where
  "role_field f =
     (f \<in> {MemberOf, Members, Secrets, Tenant, Roles, EnabledPermissions, DisabledPermissions})"

definition is_relevant_change :: "principal_type \<Rightarrow> PrincipalField \<Rightarrow> bool" where
  "is_relevant_change t f =
     (t \<in> {Individual, Group} \<and> account_field f \<or>
      t \<in> {Tenant_type, Role, ApiKey, OauthClient} \<and> role_field f)"

definition add_change ::
    "changed_principals \<Rightarrow> u32 \<Rightarrow> principal_type \<Rightarrow> PrincipalField \<Rightarrow> changed_principals" where
  "add_change m i t f =
     (if is_relevant_change t f \<and> i < ROLE_USER
      then vm_get_mut_or_insert_with m i (changed_new t)
        (update_member_change
          (f \<in> {EnabledPermissions, DisabledPermissions} \<and> t \<in> {Role, Tenant_type}))
      else m)"

definition from_change :: "u32 \<Rightarrow> principal_type \<Rightarrow> PrincipalField \<Rightarrow> changed_principals" where
  "from_change i t f = add_change vm_new i t f"

definition or_insert :: "changed_principals \<Rightarrow> u32 \<Rightarrow> principal_type \<Rightarrow> changed_principals" where
  "or_insert m i t = vm_get_mut_or_insert_with m i (changed_new t) (\<lambda>c. c)"

definition add_member_change ::
    "changed_principals \<Rightarrow> u32 \<Rightarrow> principal_type \<Rightarrow> u32 \<Rightarrow> principal_type \<Rightarrow> changed_principals" where
  "add_member_change m pid ptyp mid mtyp =
     (if ptyp \<in> {Group, Role} \<and> mtyp \<in> {Individual, ApiKey, OauthClient} then or_insert m mid mtyp
      else if ptyp \<in> {Individual, ApiKey, OauthClient} \<and> mtyp \<in> {Group, Role} then
        or_insert m pid ptyp
      else if ptyp \<in> {Group, Tenant_type, Role} \<and> mtyp \<in> {Individual, Group, Tenant_type, Role} then
        (let m = (if pid < ROLE_USER
                  then vm_get_mut_or_insert_with m pid (changed_new ptyp)
                         (update_member_change (mtyp = Role))
                  else m)
         in if mid < ROLE_USER
            then vm_get_mut_or_insert_with m mid (changed_new mtyp)
                   (update_member_change (ptyp = Role))
            else m)
      else m)"

definition add_deletion :: "changed_principals \<Rightarrow> u32 \<Rightarrow> principal_type \<Rightarrow> changed_principals" where
  "add_deletion m i t =
     (if t \<in> {Individual, Group, Tenant_type, Role, ApiKey, OauthClient} then or_insert m i t else m)"

definition changed_contains :: "changed_principals \<Rightarrow> u32 \<Rightarrow> bool" where
  "changed_contains m i = vm_contains_key m i"

section \<open>Propagation\<close>

fun direct_increments ::
    "(u32 \<Rightarrow> auth_error + u32 list) \<Rightarrow> changed_principals \<Rightarrow> changed_principals \<Rightarrow>
     u32 list \<times> u32 list" where
  "direct_increments list_tenant all [] = ([], [])"
| "direct_increments list_tenant all ((i, c) # rest) =
     (let (incs, nested) = direct_increments list_tenant all rest in
      if member_change c then
        if cp_typ c = Tenant_type then
          (case list_tenant i of
             Inr items \<Rightarrow> (i # filter (\<lambda>p. \<not> changed_contains all p) items @ incs, nested)
           | Inl e \<Rightarrow> (i # incs, nested))
        else (i # incs, i # nested)
      else (i # incs, nested))"

function member_walk ::
    "(u32 \<Rightarrow> auth_error + u32 list) \<Rightarrow> changed_principals \<Rightarrow> u32 list \<Rightarrow> u32 list list \<Rightarrow> u32 set \<Rightarrow>
     u32 list \<Rightarrow> u32 list" where
  "member_walk get_members all (i # ids) stack fetched incs =
     (if i \<in> fetched then member_walk get_members all ids stack fetched incs
      else
        (let incs = (if \<not> changed_contains all i then incs @ [i] else incs) in
         case get_members i of
           Inr ms \<Rightarrow> member_walk get_members all ms (ids # stack) (insert i fetched) incs
         | Inl e \<Rightarrow> member_walk get_members all ids stack (insert i fetched) incs))"
| "member_walk get_members all [] (prev_ids # stack) fetched incs =
     member_walk get_members all prev_ids stack fetched incs"
| "member_walk get_members all [] [] fetched incs = incs"
  by pat_completeness auto
termination
  by (relation "inv_image (less_than <*lex*> less_than)
      (\<lambda>(get_members, all, ids, stack, fetched, incs).
        (card (- fetched), length ids + length (concat stack) + length stack))")
    (auto simp: card_gt_0_iff intro!: psubset_card_mono)

declare member_walk.simps [simp del]

definition increment_token_revision ::
    "(u32 \<Rightarrow> auth_error + u32 list) \<Rightarrow> (u32 \<Rightarrow> auth_error + u32 list) \<Rightarrow> changed_principals \<Rightarrow>
     u32 list" where
  "increment_token_revision list_tenant get_members changed =
     (let (incs, nested) = direct_increments list_tenant changed changed
      in if nested \<noteq> [] then member_walk get_members changed nested [] {} incs else incs)"

section \<open>Every affected principal is reached\<close>

definition member_rel :: "(u32 \<Rightarrow> auth_error + u32 list) \<Rightarrow> (u32 \<times> u32) set" where
  "member_rel get_members = {(i, j). \<exists>ms. get_members i = Inr ms \<and> j \<in> set ms}"

definition nested_roots :: "changed_principals \<Rightarrow> u32 set" where
  "nested_roots changed = {i. \<exists>c. (i, c) \<in> set changed \<and> member_change c \<and> cp_typ c \<noteq> Tenant_type}"

definition tenant_members :: "(u32 \<Rightarrow> auth_error + u32 list) \<Rightarrow> changed_principals \<Rightarrow> u32 set" where
  "tenant_members list_tenant changed =
     (\<Union>(i, c) \<in> set changed.
        if member_change c \<and> cp_typ c = Tenant_type
        then case list_tenant i of Inr items \<Rightarrow> set items | Inl _ \<Rightarrow> {} else {})"

lemma tenant_members_Cons:
  "tenant_members list_tenant ((i, c) # rest) =
     (if member_change c \<and> cp_typ c = Tenant_type
      then case list_tenant i of Inr items \<Rightarrow> set items | Inl _ \<Rightarrow> {} else {}) \<union>
     tenant_members list_tenant rest"
  by (simp add: tenant_members_def)

lemma nested_roots_Cons:
  "nested_roots ((i, c) # rest) =
     (if member_change c \<and> cp_typ c \<noteq> Tenant_type then {i} else {}) \<union> nested_roots rest"
  by (auto simp: nested_roots_def)

lemma direct_increments_correct:
  "set (fst (direct_increments list_tenant all changed)) =
     fst ` set changed \<union> {p \<in> tenant_members list_tenant changed. \<not> changed_contains all p} \<and>
   set (snd (direct_increments list_tenant all changed)) = nested_roots changed"
proof (induction list_tenant all changed rule: direct_increments.induct)
  case (1 list_tenant all)
  then show ?case by (simp add: tenant_members_def nested_roots_def)
next
  case (2 list_tenant all i c rest)
  obtain incs nested where *: "direct_increments list_tenant all rest = (incs, nested)" by fastforce
  have "set (fst (direct_increments list_tenant all ((i, c) # rest))) =
     insert i ((if member_change c \<and> cp_typ c = Tenant_type
      then case list_tenant i of Inr items \<Rightarrow> {p \<in> set items. \<not> changed_contains all p} | Inl _ \<Rightarrow> {}
      else {}) \<union> set incs)"
    and "set (snd (direct_increments list_tenant all ((i, c) # rest))) =
     (if member_change c \<and> cp_typ c \<noteq> Tenant_type then {i} else {}) \<union> set nested"
    by (auto simp: * split: sum.split)
  with 2 * show ?case
    unfolding tenant_members_Cons nested_roots_Cons
    by (cases "list_tenant i") auto
qed

lemma closed_reach:
  assumes "\<forall>x \<in> F. \<forall>y. (x, y) \<in> R \<longrightarrow> y \<in> F \<union> P"
  shows "R\<^sup>* `` F \<subseteq> F \<union> R\<^sup>* `` P"
proof
  fix y assume "y \<in> R\<^sup>* `` F"
  then obtain x where "(x, y) \<in> R\<^sup>*" "x \<in> F" by blast
  then show "y \<in> F \<union> R\<^sup>* `` P"
    by (induction rule: converse_rtrancl_induct) (use assms in auto)
qed

lemma reach_unfold: "R\<^sup>* `` {i} = insert i (R\<^sup>* `` (R `` {i}))"
  by (auto elim: converse_rtranclE intro: converse_rtrancl_into_rtrancl)

lemma member_successors:
  "member_rel get_members `` {i} = (case get_members i of Inr ms \<Rightarrow> set ms | Inl _ \<Rightarrow> {})"
  by (auto simp: member_rel_def split: sum.split)

lemma member_walk_correct:
  assumes "\<forall>i \<in> fetched. \<forall>j. (i, j) \<in> member_rel get_members \<longrightarrow> j \<in> fetched \<union> (set ids \<union> set (concat stack))"
    and "fetched \<subseteq> fst ` set all \<union> set incs"
  shows "fst ` set all \<union> set (member_walk get_members all ids stack fetched incs) =
    fst ` set all \<union> set incs \<union> (member_rel get_members)\<^sup>* `` (set ids \<union> set (concat stack))"
  using assms
proof (induction get_members all ids stack fetched incs rule: member_walk.induct)
  case (1 get_members all i ids stack fetched incs)
  let ?R = "member_rel get_members" and ?Q = "set ids \<union> set (concat stack)"
  let ?incs = "if \<not> changed_contains all i then incs @ [i] else incs"
  have incs: "fst ` set all \<union> set ?incs = insert i (fst ` set all \<union> set incs)"
    by (auto simp: changed_contains_def vm_contains_key_def list_ex_iff)
  have split: "?R\<^sup>* `` (set (i # ids) \<union> set (concat stack)) = ?R\<^sup>* `` {i} \<union> ?R\<^sup>* `` ?Q"
    by auto
  show ?case
  proof (cases "i \<in> fetched")
    case True
    then have closed: "\<forall>x \<in> fetched. \<forall>j. (x, j) \<in> ?R \<longrightarrow> j \<in> fetched \<union> ?Q"
      using "1.prems"(1) by auto
    have "?R\<^sup>* `` {i} \<subseteq> fst ` set all \<union> set incs \<union> ?R\<^sup>* `` ?Q"
      using closed_reach [OF closed] True "1.prems"(2) by blast
    moreover have "member_walk get_members all (i # ids) stack fetched incs =
        member_walk get_members all ids stack fetched incs"
      using True by (simp add: member_walk.simps(1))
    ultimately show ?thesis
      unfolding split using 1(1) [OF True closed "1.prems"(2)] by (simp only:) blast
  next
    case False
    show ?thesis
    proof (cases "get_members i")
      case (Inl e)
      then have reach: "?R\<^sup>* `` {i} = {i}"
        by (subst reach_unfold) (simp add: member_successors)
      have "\<forall>x \<in> insert i fetched. \<forall>j. (x, j) \<in> ?R \<longrightarrow> j \<in> insert i fetched \<union> ?Q"
        using "1.prems"(1) Inl by (auto simp: member_rel_def)
      moreover have "insert i fetched \<subseteq> fst ` set all \<union> set ?incs"
        unfolding incs using "1.prems"(2) by blast
      moreover have "member_walk get_members all (i # ids) stack fetched incs =
          member_walk get_members all ids stack (insert i fetched) ?incs"
        using False Inl by (simp add: member_walk.simps(1))
      ultimately show ?thesis
        unfolding split reach using 1(2) [OF False refl Inl] incs by (simp only:) blast
    next
      case (Inr ms)
      then have reach: "?R\<^sup>* `` {i} = insert i (?R\<^sup>* `` set ms)"
        by (subst reach_unfold) (simp add: member_successors)
      have "\<forall>x \<in> insert i fetched. \<forall>j. (x, j) \<in> ?R \<longrightarrow>
          j \<in> insert i fetched \<union> (set ms \<union> set (concat (ids # stack)))"
        using "1.prems"(1) Inr by (auto simp: member_rel_def)
      moreover have "insert i fetched \<subseteq> fst ` set all \<union> set ?incs"
        unfolding incs using "1.prems"(2) by blast
      moreover have "member_walk get_members all (i # ids) stack fetched incs =
          member_walk get_members all ms (ids # stack) (insert i fetched) ?incs"
        using False Inr by (simp add: member_walk.simps(1))
      moreover have "?R\<^sup>* `` (set ms \<union> set (concat (ids # stack))) = ?R\<^sup>* `` set ms \<union> ?R\<^sup>* `` ?Q"
        by auto
      ultimately show ?thesis
        unfolding split reach using 1(3) [OF False refl Inr] incs by (simp only:) blast
    qed
  qed
next
  case (2 get_members all prev_ids stack fetched incs)
  then show ?case by (simp add: member_walk.simps Un_ac)
next
  case (3 get_members all fetched incs)
  then show ?case by (simp add: member_walk.simps)
qed

lemma member_walk_keeps: "set incs \<subseteq> set (member_walk get_members all ids stack fetched incs)"
proof (induction get_members all ids stack fetched incs rule: member_walk.induct)
  case (1 get_members all i ids stack fetched incs)
  then show ?case
    by (subst member_walk.simps) (fastforce simp: Let_def split: sum.splits if_splits)
qed (simp_all add: member_walk.simps)

lemma set_increment_token_revision:
  "set (increment_token_revision list_tenant get_members changed) =
     fst ` set changed \<union> tenant_members list_tenant changed \<union>
     (member_rel get_members)\<^sup>* `` nested_roots changed"
proof -
  obtain incs nested where *: "direct_increments list_tenant changed changed = (incs, nested)"
    by fastforce
  have contains: "changed_contains changed p \<longleftrightarrow> p \<in> fst ` set changed" for p
    by (auto simp: changed_contains_def vm_contains_key_def list_ex_iff)
  have direct: "set incs = fst ` set changed \<union> tenant_members list_tenant changed"
    "set nested = nested_roots changed"
    using direct_increments_correct [of list_tenant changed changed] by (auto simp: * contains)
  show ?thesis
  proof (cases "nested = []")
    case True
    with direct * show ?thesis by (simp add: increment_token_revision_def)
  next
    case False
    have "fst ` set changed \<subseteq> set (member_walk get_members changed nested [] {} incs)"
      using member_walk_keeps [of incs get_members changed nested "[]" "{}"] direct(1) by blast
    then have "fst ` set changed \<union> set (member_walk get_members changed nested [] {} incs) =
        set (member_walk get_members changed nested [] {} incs)"
      by blast
    with member_walk_correct [of "{}" get_members nested "[]" changed incs] direct * False
    show ?thesis by (simp add: increment_token_revision_def Un_assoc [symmetric])
  qed
qed

lemma from_change_entries:
  "from_change i t f =
     (if is_relevant_change t f \<and> i < ROLE_USER
      then [(i, \<lparr>cp_typ = t, member_change =
        f \<in> {EnabledPermissions, DisabledPermissions} \<and> t \<in> {Role, Tenant_type}\<rparr>)]
      else [])"
  by (auto simp: from_change_def add_change_def vm_get_mut_or_insert_with_def vm_contains_key_def
      vm_new_def vm_append_def changed_new_def update_member_change_def)

lemma add_change_keys:
  "fst ` set (add_change m i t f) =
     fst ` set m \<union> (if is_relevant_change t f \<and> i < ROLE_USER then {i} else {})"
  by (auto simp: add_change_def keys_upsert)


end
