(* ===== verification/AccessControl.thy ===== *)
theory AccessControl
  imports TokenRevision
begin

text \<open>
  Sharing of mailboxes: the JMAP access-control methods (\<open>jmap/src/auth/acl.rs\<close>) and the IMAP
  ACL commands (\<open>imap/src/op/acl.rs\<close>).

  The access-control list of an object is the value of its \<open>Acl\<close> property; \<open>jvalue\<close> keeps the
  variants of \<open>Value\<close> these functions distinguish and collapses the others into \<open>VOther\<close>.  The
  lookups of names in the directory, of mailboxes in the session and of stored values are
  arguments.  The commands return what they would store and report; the write, the change log and
  the broadcast that follow are not part of the decision.

  The lemmas give the effective rights of a token, the exact effect of every modification of a
  list, and who is allowed to make it.
\<close>

record AclGrant =
  ag_account_id :: u32
  ag_grants :: bitmap

datatype jvalue =
  VText string | VUnsignedInt u64 | VBool bool | VList "jvalue list" | VAcl "AclGrant list" | VOther

datatype maybe_patch = PatchValue jvalue | Patch "jvalue list"

datatype set_error =
  InvalidAcl | AccountDoesNotExist string | LookupFailure | PatchPanic

section \<open>Effective rights\<close>

definition effective_acl :: "jvalue option \<Rightarrow> AccessToken \<Rightarrow> bitmap" where
  "effective_acl property token =
     (case property of
        Some (VAcl items) \<Rightarrow>
          foldl (\<lambda>acl item. if is_member token (ag_account_id item) then bm_union acl (ag_grants item) else acl)
            bm_new items
      | _ \<Rightarrow> bm_new)"

fun has_access_to_document ::
    "(u32 \<Rightarrow> auth_error + u64 option) \<Rightarrow> u32 list \<Rightarrow> bitmap \<Rightarrow> auth_error + bool" where
  "has_access_to_document acl_value [] check_acls = Inr False"
| "has_access_to_document acl_value (grant_account_id # ids) check_acls =
     (case acl_value grant_account_id of
        Inl e \<Rightarrow> Inl e
      | Inr None \<Rightarrow> has_access_to_document acl_value ids check_acls
      | Inr (Some acls) \<Rightarrow>
          if \<not> bm_is_empty (bm_intersection \<lparr>bitmap = acls\<rparr> check_acls) then Inr True
          else has_access_to_document acl_value ids check_acls)"

definition token_has_access_to_document ::
    "(u32 \<Rightarrow> auth_error + u64 option) \<Rightarrow> AccessToken \<Rightarrow> bitmap \<Rightarrow> auth_error + bool" where
  "token_has_access_to_document acl_value token check_acls =
     has_access_to_document acl_value (primary_id token # member_of token) check_acls"

fun shared_document_ids ::
    "(u32 \<Rightarrow> auth_error + AclItem list) \<Rightarrow> u32 list \<Rightarrow> bitmap \<Rightarrow> u32 set \<Rightarrow> auth_error + u32 set" where
  "shared_document_ids acl_query [] check_acls document_ids = Inr document_ids"
| "shared_document_ids acl_query (grant_account_id # ids) check_acls document_ids =
     (case acl_query grant_account_id of
        Inl e \<Rightarrow> Inl e
      | Inr items \<Rightarrow>
          shared_document_ids acl_query ids check_acls
            (foldl (\<lambda>ids item.
                if \<not> bm_is_empty (bm_intersection \<lparr>bitmap = ai_permissions item\<rparr> check_acls)
                then insert (to_document_id item) ids else ids) document_ids items))"

definition shared_documents ::
    "(u32 \<Rightarrow> auth_error + AclItem list) \<Rightarrow> AccessToken \<Rightarrow> bitmap \<Rightarrow> auth_error + u32 set" where
  "shared_documents acl_query token check_acls =
     shared_document_ids acl_query (primary_id token # member_of token) check_acls {}"

definition owned_or_shared_documents ::
    "(u32 \<Rightarrow> auth_error + AclItem list) \<Rightarrow> u32 set \<Rightarrow> AccessToken \<Rightarrow> u32 \<Rightarrow> bitmap \<Rightarrow>
     auth_error + u32 set" where
  "owned_or_shared_documents acl_query document_ids token account_id check_acls =
     (if document_ids \<noteq> {} \<and> \<not> is_member token account_id
      then map_sum id (\<lambda>shared. document_ids \<inter> shared) (shared_documents acl_query token check_acls)
      else Inr document_ids)"

section \<open>JMAP: changing an access-control list\<close>

fun map_acl_set ::
    "(string \<Rightarrow> auth_error + u32 option) \<Rightarrow> jvalue list \<Rightarrow> set_error + AclGrant list" where
  "map_acl_set query_name (a # b # rest) =
     (case (a, b) of
        (VText account_name, VUnsignedInt grants) \<Rightarrow>
          (case query_name account_name of
             Inr (Some i) \<Rightarrow>
               map_sum id (\<lambda>acls. \<lparr>ag_account_id = i, ag_grants = \<lparr>bitmap = grants\<rparr>\<rparr> # acls)
                 (map_acl_set query_name rest)
           | Inr None \<Rightarrow> Inl (AccountDoesNotExist account_name)
           | Inl _ \<Rightarrow> Inl LookupFailure)
      | _ \<Rightarrow> Inl InvalidAcl)"
| "map_acl_set query_name _ = Inr []"

definition map_acl_patch ::
    "(string \<Rightarrow> auth_error + u32 option) \<Rightarrow> jvalue list \<Rightarrow> set_error + (AclGrant \<times> bool option)" where
  "map_acl_patch query_name patch =
     (case patch of
        VText account_name # VUnsignedInt grants # rest \<Rightarrow>
          (case query_name account_name of
             Inr (Some i) \<Rightarrow>
               Inr (\<lparr>ag_account_id = i, ag_grants = \<lparr>bitmap = grants\<rparr>\<rparr>,
                    case rest of [] \<Rightarrow> None | v # _ \<Rightarrow> Some (case v of VBool b \<Rightarrow> b | _ \<Rightarrow> False))
           | Inr None \<Rightarrow> Inl (AccountDoesNotExist account_name)
           | Inl _ \<Rightarrow> Inl LookupFailure)
      | _ # _ # _ \<Rightarrow> Inl InvalidAcl
      | _ \<Rightarrow> Inl PatchPanic)"

definition find_grant :: "u32 \<Rightarrow> AclGrant list \<Rightarrow> nat option" where
  "find_grant account acl = position (\<lambda>item. ag_account_id item = account) acl"

definition retain_others :: "u32 \<Rightarrow> AclGrant list \<Rightarrow> AclGrant list" where
  "retain_others account acl = filter (\<lambda>item. ag_account_id item \<noteq> account) acl"

definition set_grants :: "nat \<Rightarrow> bitmap \<Rightarrow> AclGrant list \<Rightarrow> AclGrant list" where
  "set_grants i g acl = acl[i := (acl ! i)\<lparr>ag_grants := g\<rparr>]"

definition apply_acl_patch :: "AclGrant list \<Rightarrow> AclGrant \<Rightarrow> bool option \<Rightarrow> AclGrant list" where
  "apply_acl_patch acl patch is_update =
     (case is_update of
        Some is_set \<Rightarrow>
          if \<not> bm_is_empty (ag_grants patch) then
            (case find_grant (ag_account_id patch) acl of
               Some i \<Rightarrow>
                 (case snd (bm_pop (ag_grants patch)) of
                    Some item \<Rightarrow>
                      if is_set then set_grants i (bm_insert (ag_grants (acl ! i)) item) acl
                      else
                        (let g = bm_remove (ag_grants (acl ! i)) item; acl = set_grants i g acl
                         in if bm_is_empty g then retain_others (ag_account_id patch) acl else acl)
                  | None \<Rightarrow> acl)
             | None \<Rightarrow> if is_set then acl @ [patch] else acl)
          else acl
      | None \<Rightarrow>
          if \<not> bm_is_empty (ag_grants patch) then
            (case find_grant (ag_account_id patch) acl of
               Some i \<Rightarrow> set_grants i (ag_grants patch) acl
             | None \<Rightarrow> acl @ [patch])
          else retain_others (ag_account_id patch) acl)"

definition acl_set ::
    "(string \<Rightarrow> auth_error + u32 option) \<Rightarrow> jvalue option \<Rightarrow> jvalue option \<Rightarrow> maybe_patch \<Rightarrow>
     set_error + jvalue" where
  "acl_set query_name changes current acl_changes =
     (case acl_changes of
        PatchValue (VList vs) \<Rightarrow> map_sum id VAcl (map_acl_set query_name vs)
      | Patch ps \<Rightarrow>
          (case map_acl_patch query_name ps of
             Inl e \<Rightarrow> Inl e
           | Inr (patch, is_update) \<Rightarrow>
               (case (case changes of Some v \<Rightarrow> v | None \<Rightarrow>
                        (case current of Some v \<Rightarrow> v | None \<Rightarrow> VAcl [])) of
                  VAcl acl \<Rightarrow> Inr (VAcl (apply_acl_patch acl patch is_update))
                | _ \<Rightarrow> Inl InvalidAcl))
      | _ \<Rightarrow> Inl InvalidAcl)"

definition acl_get_allowed :: "AclGrant list \<Rightarrow> AccessToken \<Rightarrow> u32 \<Rightarrow> bool" where
  "acl_get_allowed acl token account_id =
     (is_member token account_id \<or>
      list_ex (\<lambda>item. is_member token (ag_account_id item) \<and>
        bm_contains (ag_grants item) (acl_to_u64 Administer)) acl)"

definition acl_get ::
    "(u32 \<Rightarrow> string option) \<Rightarrow> AclGrant list \<Rightarrow> AccessToken \<Rightarrow> u32 \<Rightarrow> (string \<times> Acl list) list option" where
  "acl_get query_name_of acl token account_id =
     (if acl_get_allowed acl token account_id
      then Some (List.map_filter (\<lambda>item.
        map_option (\<lambda>name. (name, map acl_from_u64 (bm_into_vec (ag_grants item))))
          (query_name_of (ag_account_id item))) acl)
      else None)"

fun grants_of :: "u32 \<Rightarrow> AclGrant list \<Rightarrow> bitmap option" where
  "grants_of account [] = None"
| "grants_of account (item # items) =
     (if ag_account_id item = account then Some (ag_grants item) else grants_of account items)"

definition grant_differs :: "AclGrant list \<Rightarrow> AclGrant \<Rightarrow> bool" where
  "grant_differs acl item =
     (case grants_of (ag_account_id item) acl of Some g \<Rightarrow> g \<noteq> ag_grants item | None \<Rightarrow> True)"

definition add_grant_changes :: "changed_principals \<Rightarrow> AclGrant list \<Rightarrow> changed_principals" where
  "add_grant_changes changed_principals items =
     foldl (\<lambda>changed item. add_change changed (ag_account_id item) Individual EnabledPermissions)
       changed_principals items"

definition acl_changed_principals ::
    "AclGrant list \<Rightarrow> AclGrant list option \<Rightarrow> changed_principals" where
  "acl_changed_principals acl_changes current =
     (case current of
        Some acl_current \<Rightarrow>
          add_grant_changes
            (add_grant_changes vm_new (filter (grant_differs acl_changes) acl_current))
            (filter (grant_differs acl_current) acl_changes)
      | None \<Rightarrow> add_grant_changes vm_new acl_changes)"

definition refresh_acls ::
    "(u32 \<Rightarrow> auth_error + u32 list) \<Rightarrow> (u32 \<Rightarrow> auth_error + u32 list) \<Rightarrow>
     AclGrant list option \<Rightarrow> AclGrant list option \<Rightarrow> u32 list" where
  "refresh_acls list_tenant get_members changes current =
     (case changes of
        Some acl_changes \<Rightarrow>
          increment_token_revision list_tenant get_members (acl_changed_principals acl_changes current)
      | None \<Rightarrow> [])"

section \<open>IMAP: the ACL commands\<close>

datatype imap_error =
  MailboxDoesNotExist | NoPerm | NoSuchAccount | DataCorruption | Unauthorized nat | ServerFailure

record imap_env =
  mailbox_by_name :: "string \<Rightarrow> (u32 \<times> u32) option"
  mailbox_acl :: "u32 \<times> u32 \<Rightarrow> auth_error + jvalue option option"
  session_token :: "auth_error + AccessToken"
  account_by_name :: "string \<Rightarrow> auth_error + u32 option"
  account_name_of :: "u32 \<Rightarrow> auth_error + string option"

definition ImapAuthenticate :: nat where
  "ImapAuthenticate = 123"

definition ImapAclSet :: nat where
  "ImapAclSet = 125"

definition ImapMyRights :: nat where
  "ImapMyRights = 126"

definition assert_has_permission :: "AccessToken option \<Rightarrow> nat \<Rightarrow> imap_error option" where
  "assert_has_permission session permission =
     (case session of
        Some token \<Rightarrow> if has_permission token permission then None else Some (Unauthorized permission)
      | None \<Rightarrow> None)"

definition get_acl_mailbox ::
    "imap_env \<Rightarrow> string \<Rightarrow> bool \<Rightarrow> imap_error + ((u32 \<times> u32) \<times> jvalue option \<times> AccessToken)" where
  "get_acl_mailbox env mailbox_name validate =
     (case mailbox_by_name env mailbox_name of
        None \<Rightarrow> Inl MailboxDoesNotExist
      | Some mailbox \<Rightarrow>
          (case mailbox_acl env mailbox of
             Inl e \<Rightarrow> Inl ServerFailure
           | Inr None \<Rightarrow> Inl MailboxDoesNotExist
           | Inr (Some acl) \<Rightarrow>
               (case session_token env of
                  Inl e \<Rightarrow> Inl ServerFailure
                | Inr token \<Rightarrow>
                    if \<not> validate \<or> is_member token (fst mailbox) \<or>
                       bm_contains (effective_acl acl token) (acl_to_u64 Administer)
                    then Inr (mailbox, acl, token)
                    else Inl NoPerm)))"

fun rights_of_acl :: "Acl \<Rightarrow> Rights list" where
  "rights_of_acl Read = [R_Lookup]"
| "rights_of_acl Modify = [R_CreateMailbox]"
| "rights_of_acl Delete = [R_DeleteMailbox]"
| "rights_of_acl ReadItems = [R_Read]"
| "rights_of_acl AddItems = [R_Insert]"
| "rights_of_acl ModifyItems = [R_Write, R_Seen]"
| "rights_of_acl RemoveItems = [R_DeleteMessages, R_Expunge]"
| "rights_of_acl CreateChild = [R_CreateMailbox]"
| "rights_of_acl Administer = [R_Administer]"
| "rights_of_acl Submit = [R_Post]"
| "rights_of_acl NoAcl = []"

fun name_permissions ::
    "imap_env \<Rightarrow> AclGrant list \<Rightarrow> imap_error + (string \<times> Rights list) list" where
  "name_permissions env [] = Inr []"
| "name_permissions env (item # items) =
     (case account_name_of env (ag_account_id item) of
        Inl e \<Rightarrow> Inl ServerFailure
      | Inr None \<Rightarrow> name_permissions env items
      | Inr (Some name) \<Rightarrow>
          map_sum id (\<lambda>ps. (name, concat (map (rights_of_acl \<circ> acl_from_u64) (bm_into_vec (ag_grants item)))) # ps)
            (name_permissions env items))"

definition handle_get_acl ::
    "imap_env \<Rightarrow> AccessToken option \<Rightarrow> string \<Rightarrow> imap_error + (string \<times> Rights list) list" where
  "handle_get_acl env session mailbox_name =
     (case assert_has_permission session ImapAuthenticate of
        Some e \<Rightarrow> Inl e
      | None \<Rightarrow>
          (case get_acl_mailbox env mailbox_name True of
             Inl e \<Rightarrow> Inl e
           | Inr (mailbox, acl, token) \<Rightarrow>
               (case acl of Some (VAcl acls) \<Rightarrow> name_permissions env acls | _ \<Rightarrow> Inr [])))"

definition my_rights :: "bitmap \<Rightarrow> Rights list" where
  "my_rights acl =
     (if bm_contains acl (acl_to_u64 ReadItems) then [R_Read, R_Lookup] else []) @
     (if bm_contains acl (acl_to_u64 AddItems) then [R_Insert] else []) @
     (if bm_contains acl (acl_to_u64 RemoveItems) then [R_DeleteMessages, R_Expunge] else []) @
     (if bm_contains acl (acl_to_u64 ModifyItems) then [R_Seen, R_Write] else []) @
     (if bm_contains acl (acl_to_u64 CreateChild) then [R_CreateMailbox] else []) @
     (if bm_contains acl (acl_to_u64 Delete) then [R_DeleteMailbox] else []) @
     (if bm_contains acl (acl_to_u64 Submit) then [R_Post] else [])"

definition handle_my_rights ::
    "imap_env \<Rightarrow> AccessToken option \<Rightarrow> string \<Rightarrow> imap_error + Rights list" where
  "handle_my_rights env session mailbox_name =
     (case assert_has_permission session ImapMyRights of
        Some e \<Rightarrow> Inl e
      | None \<Rightarrow>
          (case get_acl_mailbox env mailbox_name False of
             Inl e \<Rightarrow> Inl e
           | Inr (mailbox, acl, token) \<Rightarrow>
               Inr (if is_shared token (fst mailbox) then my_rights (effective_acl acl token)
                    else [R_Read, R_Lookup, R_Insert, R_DeleteMessages, R_Expunge, R_Seen, R_Write,
                          R_CreateMailbox, R_DeleteMailbox, R_Post])))"

definition rights_bitmap :: "Rights list \<Rightarrow> bitmap" where
  "rights_bitmap rs = bm_from_iter (\<lambda>i. acl_is_valid (acl_from_u64 i)) (map (acl_to_u64 \<circ> acl_from_rights) rs)"

definition remove_rights :: "bitmap \<Rightarrow> bitmap \<Rightarrow> bitmap" where
  "remove_rights g rights = foldl bm_remove g (bm_into_vec rights)"

definition modify_acl :: "AclGrant list \<Rightarrow> u32 \<Rightarrow> ModRightsOp \<Rightarrow> bitmap \<Rightarrow> AclGrant list" where
  "modify_acl acl account op rights =
     (case find_grant account acl of
        Some i \<Rightarrow>
          (case op of
             OpReplace \<Rightarrow>
               if \<not> bm_is_empty rights then set_grants i rights acl else retain_others account acl
           | OpAdd \<Rightarrow> set_grants i (bm_union (ag_grants (acl ! i)) rights) acl
           | OpRemove \<Rightarrow>
               (let g = remove_rights (ag_grants (acl ! i)) rights; acl = set_grants i g acl
                in if bm_is_empty g then retain_others account acl else acl))
      | None \<Rightarrow>
          if \<not> bm_is_empty rights \<and> op \<noteq> OpRemove
          then acl @ [\<lparr>ag_account_id = account, ag_grants = rights\<rparr>] else acl)"

definition handle_set_acl ::
    "imap_env \<Rightarrow> AccessToken option \<Rightarrow> string \<Rightarrow> string \<Rightarrow> ModRights option \<Rightarrow>
     imap_error + ((u32 \<times> u32) \<times> AclGrant list)" where
  "handle_set_acl env session mailbox_name identifier mod_rights =
     (case assert_has_permission session ImapAclSet of
        Some e \<Rightarrow> Inl e
      | None \<Rightarrow>
          (case get_acl_mailbox env mailbox_name False of
             Inl e \<Rightarrow> Inl e
           | Inr (mailbox, acl, token) \<Rightarrow>
               (case account_by_name env identifier of
                  Inl e \<Rightarrow> Inl ServerFailure
                | Inr None \<Rightarrow> Inl NoSuchAccount
                | Inr (Some account) \<Rightarrow>
                    (let (op, rights) =
                       (case mod_rights of
                          Some mr \<Rightarrow> (mr_op mr, rights_bitmap (mr_rights mr))
                        | None \<Rightarrow> (OpReplace, bm_new))
                     in case (case acl of Some v \<Rightarrow> v | None \<Rightarrow> VAcl []) of
                          VAcl grants \<Rightarrow> Inr (mailbox, modify_acl grants account op rights)
                        | _ \<Rightarrow> Inl DataCorruption))))"

section \<open>Effective rights of a token\<close>

lemma members_effective_acl:
  "members (effective_acl (Some (VAcl items)) token) =
     (\<Union>item \<in> {item \<in> set items. is_member token (ag_account_id item)}. members (ag_grants item))"
proof -
  have "members (foldl (\<lambda>acl item. if is_member token (ag_account_id item)
      then bm_union acl (ag_grants item) else acl) b items) =
    members b \<union> (\<Union>item \<in> {item \<in> set items. is_member token (ag_account_id item)}. members (ag_grants item))"
    for b
    by (induction items arbitrary: b) (auto simp: members_union)
  from this [of bm_new] show ?thesis by (simp add: effective_acl_def)
qed

lemma has_access_to_document_correct:
  assumes "\<forall>g \<in> set ids. \<exists>v. acl_value g = Inr v"
  shows "has_access_to_document acl_value ids check_acls =
    Inr (\<exists>g \<in> set ids. \<exists>acls. acl_value g = Inr (Some acls) \<and>
      members \<lparr>bitmap = acls\<rparr> \<inter> members check_acls \<noteq> {})"
  using assms
proof (induction ids)
  case (Cons g ids)
  then obtain v where v: "acl_value g = Inr v" by auto
  with Cons show ?case by (cases v) (auto simp: bm.overlap_check)
qed simp

lemma shared_document_ids_correct:
  assumes "\<forall>g \<in> set ids. \<exists>v. acl_query g = Inr v"
  shows "shared_document_ids acl_query ids check_acls D =
    Inr (D \<union> {d. \<exists>g \<in> set ids. \<exists>items. acl_query g = Inr items \<and>
      (\<exists>item \<in> set items. to_document_id item = d \<and>
         members \<lparr>bitmap = ai_permissions item\<rparr> \<inter> members check_acls \<noteq> {})})"
  using assms
proof (induction ids arbitrary: D)
  case (Cons g ids)
  then obtain items where items: "acl_query g = Inr items" by auto
  have "foldl (\<lambda>ids item.
      if \<not> bm_is_empty (bm_intersection \<lparr>bitmap = ai_permissions item\<rparr> check_acls)
      then insert (to_document_id item) ids else ids) E items =
    E \<union> {d. \<exists>item \<in> set items. to_document_id item = d \<and>
      members \<lparr>bitmap = ai_permissions item\<rparr> \<inter> members check_acls \<noteq> {}}" for E
    by (induction items arbitrary: E) (auto simp: bm.overlap_check)
  with Cons items show ?case by auto
qed simp

section \<open>What a modification does\<close>

definition held :: "u32 \<Rightarrow> AclGrant list \<Rightarrow> u64 set" where
  "held account acl = (case grants_of account acl of Some g \<Rightarrow> members g | None \<Rightarrow> {})"

lemma find_grant_cases:
  obtains (absent) "find_grant a acl = None" "grants_of a acl = None"
  | (present) ys item zs where "find_grant a acl = Some (length ys)" "acl = ys @ item # zs"
      "ag_account_id item = a" "grants_of a acl = Some (ag_grants item)"
      "\<forall>y \<in> set ys. ag_account_id y \<noteq> a"
proof (cases "find_grant a acl")
  case None
  moreover from this have "grants_of a acl = None"
    unfolding find_grant_def position_eq_None_iff by (induction acl) auto
  ultimately show ?thesis by (rule absent)
next
  case (Some i)
  then obtain ys item zs where *: "acl = ys @ item # zs" "length ys = i" "ag_account_id item = a"
      "\<forall>y \<in> set ys. ag_account_id y \<noteq> a"
    using position_split unfolding find_grant_def by blast
  moreover from *(4) have "grants_of a (ys @ item # zs) = grants_of a (item # zs)"
    by (induction ys) auto
  ultimately show ?thesis using Some by (intro present) auto
qed

lemma grants_of_append: "grants_of a (xs @ ys) = (case grants_of a xs of Some g \<Rightarrow> Some g | None \<Rightarrow> grants_of a ys)"
  by (induction xs) auto

lemma grants_of_absent: "\<forall>y \<in> set ys. ag_account_id y \<noteq> a \<Longrightarrow> grants_of a ys = None"
  by (induction ys) auto

lemma grants_of_set_grants:
  assumes "find_grant a acl = Some i"
  shows "grants_of b (set_grants i g acl) = (if b = a then Some g else grants_of b acl)"
  using assms
  by (cases a acl rule: find_grant_cases)
    (auto simp: set_grants_def grants_of_append grants_of_absent split: option.splits)

lemma grants_of_retain: "grants_of b (retain_others a acl) = (if b = a then None else grants_of b acl)"
  by (induction acl) (auto simp: retain_others_def)

lemma strict_sorted_imp_distinct_rev: "sorted_wrt (>) (xs :: u64 list) \<Longrightarrow> distinct xs"
  by (induction xs) auto

lemma members_remove_rights: "members (remove_rights g rights) = sym_diff (members g) (members rights)"
proof -
  have "distinct xs \<Longrightarrow> \<forall>i \<in> set xs. unat i < 64 \<Longrightarrow>
      members (foldl bm_remove g xs) = sym_diff (members g) (set xs)" for xs g
    by (induction xs arbitrary: g) (auto simp: members_remove)
  moreover have "distinct (bm_into_vec rights)"
    using into_vec_descending [of rights] by (rule strict_sorted_imp_distinct_rev)
  moreover have "\<forall>i \<in> set (bm_into_vec rights). unat i < 64"
    by (simp add: set_into_vec members_def)
  ultimately show ?thesis by (simp add: remove_rights_def set_into_vec)
qed

lemma held_modify_other: "b \<noteq> a \<Longrightarrow> held b (modify_acl acl a op rights) = held b acl"
  by (auto simp: held_def modify_acl_def grants_of_set_grants grants_of_retain grants_of_append Let_def
      split: option.split ModRightsOp.split)

lemma held_replace: "held a (modify_acl acl a OpReplace rights) = members rights"
  by (auto simp: held_def modify_acl_def grants_of_set_grants grants_of_retain grants_of_append
      is_empty_members split: option.split) (cases a acl rule: find_grant_cases; auto)+

lemma held_add: "held a (modify_acl acl a OpAdd rights) = held a acl \<union> members rights"
proof (cases a acl rule: find_grant_cases)
  case absent
  then show ?thesis by (auto simp: held_def modify_acl_def grants_of_append is_empty_members)
next
  case (present ys item zs)
  then show ?thesis
    by (simp add: held_def modify_acl_def grants_of_set_grants members_union)
qed

lemma held_remove:
  "held a (modify_acl acl a OpRemove rights) =
     (if grants_of a acl = None then {} else sym_diff (held a acl) (members rights))"
proof (cases a acl rule: find_grant_cases)
  case absent
  then show ?thesis by (simp add: held_def modify_acl_def)
next
  case (present ys item zs)
  then show ?thesis
    by (auto simp: held_def modify_acl_def Let_def grants_of_set_grants grants_of_retain
        members_remove_rights is_empty_members)
qed

text \<open>
  C10: Modifying the access-control list of a mailbox (\<open>SETACL\<close>).  Replacing leaves the account
  with exactly the given rights and adding with the union; no other account is affected.
  Removing is not a set difference: an account that has an entry keeps its other rights but
  receives every listed right it did not hold.
\<close>

theorem modify_acl_effect:
  "held a (modify_acl acl a OpReplace rights) = members rights \<and>
   held a (modify_acl acl a OpAdd rights) = held a acl \<union> members rights \<and>
   held a (modify_acl acl a OpRemove rights) =
     (if grants_of a acl = None then {}
      else (held a acl - members rights) \<union> (members rights - held a acl)) \<and>
   (\<lambda>b. held b (modify_acl acl a op rights))(a := {}) = (\<lambda>b. held b acl)(a := {})"
proof (intro conjI)
  show "(\<lambda>b. held b (modify_acl acl a op rights))(a := {}) = (\<lambda>b. held b acl)(a := {})"
    by (rule ext) (simp add: held_modify_other)
qed (rule held_replace held_add held_remove)+

lemma set_acl_ignores_token:
  assumes "has_permission token ImapAclSet" and "has_permission token' ImapAclSet"
  shows "handle_set_acl (env\<lparr>session_token := Inr token\<rparr>) (Some token) name identifier mod_rights =
    handle_set_acl (env\<lparr>session_token := Inr token'\<rparr>) (Some token') name identifier mod_rights"
  using assms
  by (auto simp: handle_set_acl_def get_acl_mailbox_def assert_has_permission_def
      split: option.split sum.split)

lemma get_acl_validates:
  assumes "handle_get_acl (env\<lparr>session_token := Inr token\<rparr>) (Some token) name = Inr items"
  obtains mailbox acl where "mailbox_by_name env name = Some mailbox"
    "mailbox_acl env mailbox = Inr (Some acl)"
    "is_member token (fst mailbox) \<or> acl_to_u64 Administer \<in> members (effective_acl acl token)"
  using assms
  by (auto simp: handle_get_acl_def get_acl_mailbox_def assert_has_permission_def contains_members
      split: option.splits sum.splits if_splits)

lemma held_effective:
  assumes "i \<in> held a acl" and "is_member token a"
  shows "i \<in> members (effective_acl (Some (VAcl acl)) token)"
proof -
  from assms(1) obtain g where g: "grants_of a acl = Some g" "i \<in> members g"
    by (auto simp: held_def split: option.splits)
  then have "\<exists>item \<in> set acl. ag_account_id item = a \<and> ag_grants item = g"
    by (induction acl) (auto split: if_splits)
  with g assms(2) show ?thesis by (auto simp: members_effective_acl)
qed


definition reader_token :: AccessToken where
  "reader_token =
     \<lparr>primary_id = 2, member_of = [], access_to = [], tk_name = ''reader'', tk_description = None,
      tk_emails = [], tk_quota = 0,
      permissions = the (set_permissions (bs_new PERMISSIONS_BITSET_SIZE) [ImapAclSet, ImapAuthenticate]),
      tenant = None, tk_revision = 0\<rparr>"

definition shared_env :: imap_env where
  "shared_env =
     \<lparr>mailbox_by_name = (\<lambda>_. Some (1, 0)),
      mailbox_acl = (\<lambda>_. Inr (Some (Some (VAcl [\<lparr>ag_account_id = 2, ag_grants = \<lparr>bitmap = 1\<rparr>\<rparr>])))),
      session_token = Inr reader_token, account_by_name = (\<lambda>_. Inr (Some 2)),
      account_name_of = (\<lambda>_. Inr (Some ''reader''))\<rparr>"


lemma grants_of_distinct:
  "distinct (map ag_account_id acl) \<Longrightarrow>
   grants_of a acl = Some g \<longleftrightarrow> \<lparr>ag_account_id = a, ag_grants = g\<rparr> \<in> set acl"
proof (induction acl)
  case (Cons item acl)
  then show ?case by (cases item) (auto simp: rev_image_eqI image_iff)
qed simp

lemma differing_accounts:
  assumes "distinct (map ag_account_id acl)"
  shows "ag_account_id ` set (filter (grant_differs other) acl) =
    {a. \<exists>g. grants_of a acl = Some g \<and> grants_of a other \<noteq> Some g}"
proof (intro set_eqI iffI)
  fix a
  assume "a \<in> ag_account_id ` set (filter (grant_differs other) acl)"
  then obtain item where item: "item \<in> set acl" "grant_differs other item" "a = ag_account_id item"
    by auto
  have "\<lparr>ag_account_id = a, ag_grants = ag_grants item\<rparr> = item" unfolding item(3) by simp
  with item(1) have "\<lparr>ag_account_id = a, ag_grants = ag_grants item\<rparr> \<in> set acl" by simp
  then have "grants_of a acl = Some (ag_grants item)" using grants_of_distinct [OF assms] by blast
  with item show "a \<in> {a. \<exists>g. grants_of a acl = Some g \<and> grants_of a other \<noteq> Some g}"
    by (auto simp: grant_differs_def split: option.splits)
next
  fix a
  assume "a \<in> {a. \<exists>g. grants_of a acl = Some g \<and> grants_of a other \<noteq> Some g}"
  then obtain g where g: "\<lparr>ag_account_id = a, ag_grants = g\<rparr> \<in> set acl" "grants_of a other \<noteq> Some g"
    using grants_of_distinct [OF assms] by blast
  moreover from g(2) have "grant_differs other \<lparr>ag_account_id = a, ag_grants = g\<rparr>"
    by (auto simp: grant_differs_def split: option.split)
  ultimately show "a \<in> ag_account_id ` set (filter (grant_differs other) acl)"
    using image_eqI [of a ag_account_id "\<lparr>ag_account_id = a, ag_grants = g\<rparr>"] by simp
qed

lemma add_grant_changes_keys:
  "fst ` set (add_grant_changes m items) = fst ` set m \<union> {a \<in> ag_account_id ` set items. a < ROLE_USER}"
proof (induction items arbitrary: m)
  case (Cons item items)
  have "add_grant_changes m (item # items) =
      add_grant_changes (add_change m (ag_account_id item) Individual EnabledPermissions) items"
    by (simp add: add_grant_changes_def)
  with Cons show ?case
    by (auto simp: add_change_keys is_relevant_change_def account_field_def)
qed (simp add: add_grant_changes_def)

lemma add_grant_changes_plain:
  "\<forall>(i, c) \<in> set m. \<not> member_change c \<Longrightarrow> \<forall>(i, c) \<in> set (add_grant_changes m items). \<not> member_change c"
proof (induction items arbitrary: m)
  case (Cons item items)
  have "\<forall>(i, c) \<in> set (add_change m (ag_account_id item) Individual EnabledPermissions). \<not> member_change c"
    using Cons.prems
    by (auto simp: add_change_def update_member_change_def changed_new_def dest!: upsert_entry_cases)
  from Cons.IH [OF this] show ?case by (simp add: add_grant_changes_def)
qed (simp add: add_grant_changes_def)

lemma set_plain_increments:
  assumes "\<forall>(i, c) \<in> set changed. \<not> member_change c"
  shows "set (increment_token_revision list_tenant get_members changed) = fst ` set changed"
proof -
  have "nested_roots changed = {}" "tenant_members list_tenant changed = {}"
    using assms by (auto simp: nested_roots_def tenant_members_def)
  then show ?thesis by (simp add: set_increment_token_revision)
qed

text \<open>
  C14: Invalidation after an ACL change.  With at most one entry per account in the old and in the
  new list, the principals whose revision is incremented are exactly those, the built-in role
  numbers excepted, whose rights differ between the two lists, entries that appear or disappear
  included.  Nothing is propagated to the members of a group that gains or loses rights.
\<close>

theorem refresh_acls_exact:
  assumes "distinct (map ag_account_id acl_changes)" and "distinct (map ag_account_id acl_current)"
  shows "set (refresh_acls list_tenant get_members (Some acl_changes) (Some acl_current)) =
    {a. a < ROLE_USER \<and> grants_of a acl_changes \<noteq> grants_of a acl_current}"
proof -
  let ?changed = "acl_changed_principals acl_changes (Some acl_current)"
  have plain: "\<forall>(i, c) \<in> set ?changed. \<not> member_change c"
    unfolding acl_changed_principals_def option.case
    by (intro add_grant_changes_plain) (simp add: vm_new_def)
  have "fst ` set ?changed = {a. a < ROLE_USER \<and>
      ((\<exists>g. grants_of a acl_current = Some g \<and> grants_of a acl_changes \<noteq> Some g) \<or>
       (\<exists>g. grants_of a acl_changes = Some g \<and> grants_of a acl_current \<noteq> Some g))}"
    unfolding acl_changed_principals_def option.case add_grant_changes_keys
      differing_accounts [OF assms(1)] differing_accounts [OF assms(2)]
    by (auto simp: vm_new_def)
  also have "\<dots> = {a. a < ROLE_USER \<and> grants_of a acl_changes \<noteq> grants_of a acl_current}"
    by (auto simp: not_None_eq [symmetric]) (metis option.exhaust)+
  finally show ?thesis
    unfolding refresh_acls_def option.case set_plain_increments [OF plain] .
qed

theorem refresh_acls_exact_witness:
  "distinct (map ag_account_id [\<lparr>ag_account_id = 2, ag_grants = bm_new\<rparr>]) \<and>
   set (refresh_acls (\<lambda>_. Inr [5]) (\<lambda>_. Inr [6]) (Some [\<lparr>ag_account_id = 2, ag_grants = bm_new\<rparr>])
     (Some [\<lparr>ag_account_id = 3, ag_grants = bm_new\<rparr>])) = {2, 3}"
proof
  have "(2::u32) < ROLE_USER" "(3::u32) < ROLE_USER" by code_simp+
  then show "set (refresh_acls (\<lambda>_. Inr [5]) (\<lambda>_. Inr [6]) (Some [\<lparr>ag_account_id = 2, ag_grants = bm_new\<rparr>])
      (Some [\<lparr>ag_account_id = 3, ag_grants = bm_new\<rparr>])) = {2, 3}"
    using refresh_acls_exact [of "[\<lparr>ag_account_id = 2, ag_grants = bm_new\<rparr>]"
        "[\<lparr>ag_account_id = 3, ag_grants = bm_new\<rparr>]"]
    by (auto split: if_splits)
qed simp

end
