(* ===== verification/Bytes.thy ===== *)
theory Bytes
  imports Decimal
begin

text \<open>
  Byte strings on the wire: ASCII text as bytes, the case-insensitive comparison and the UTF-8
  check of the standard library, and decimal numerals as bytes.
\<close>

definition str :: "string \<Rightarrow> bytes" where
  "str s = map of_char s"

definition CR :: u8 where "CR = 13"
definition LF :: u8 where "LF = 10"
definition DOT :: u8 where "DOT = 46"

definition is_ascii_lower :: "u8 \<Rightarrow> bool" where
  "is_ascii_lower b \<longleftrightarrow> 97 \<le> b \<and> b \<le> 122"

definition is_ascii_upper :: "u8 \<Rightarrow> bool" where
  "is_ascii_upper b \<longleftrightarrow> 65 \<le> b \<and> b \<le> 90"

definition is_ascii_digit :: "u8 \<Rightarrow> bool" where
  "is_ascii_digit b \<longleftrightarrow> 48 \<le> b \<and> b \<le> 57"

definition to_ascii_lowercase :: "u8 \<Rightarrow> u8" where
  "to_ascii_lowercase b = (if is_ascii_upper b then b + 32 else b)"

definition eq_ignore_ascii_case :: "bytes \<Rightarrow> bytes \<Rightarrow> bool" where
  "eq_ignore_ascii_case a b \<longleftrightarrow> map to_ascii_lowercase a = map to_ascii_lowercase b"

definition dec :: "nat \<Rightarrow> bytes" where
  "dec n = str (nat_to_string n)"

text \<open>\<open>str::from_utf8\<close>: no overlong form, no surrogate, nothing above U+10FFFF.\<close>

definition is_cont :: "u8 \<Rightarrow> bool" where
  "is_cont b \<longleftrightarrow> 0x80 \<le> b \<and> b \<le> 0xBF"

fun is_utf8 :: "bytes \<Rightarrow> bool" where
  "is_utf8 [] = True"
| "is_utf8 (b # bs) =
     (if b < 0x80 then is_utf8 bs
      else if 0xC2 \<le> b \<and> b \<le> 0xDF then
        (case bs of c # r \<Rightarrow> is_cont c \<and> is_utf8 r | _ \<Rightarrow> False)
      else if 0xE0 \<le> b \<and> b \<le> 0xEF then
        (case bs of
           c # d # r \<Rightarrow>
             (if b = 0xE0 then 0xA0 \<le> c \<and> c \<le> 0xBF else if b = 0xED then 0x80 \<le> c \<and> c \<le> 0x9F else is_cont c) \<and>
             is_cont d \<and> is_utf8 r
         | _ \<Rightarrow> False)
      else if 0xF0 \<le> b \<and> b \<le> 0xF4 then
        (case bs of
           c # d # e # r \<Rightarrow>
             (if b = 0xF0 then 0x90 \<le> c \<and> c \<le> 0xBF else if b = 0xF4 then 0x80 \<le> c \<and> c \<le> 0x8F else is_cont c) \<and>
             is_cont d \<and> is_cont e \<and> is_utf8 r
         | _ \<Rightarrow> False)
      else False)"

text \<open>\<open>String::from_utf8_lossy\<close>: the start of an ill-formed sequence becomes one U+FFFD.\<close>

definition REPLACEMENT :: bytes where "REPLACEMENT = [0xEF, 0xBF, 0xBD]"

definition second_ok :: "u8 \<Rightarrow> u8 \<Rightarrow> bool" where
  "second_ok b c =
     (if b = 0xE0 then 0xA0 \<le> c \<and> c \<le> 0xBF else if b = 0xED then 0x80 \<le> c \<and> c \<le> 0x9F
      else if b = 0xF0 then 0x90 \<le> c \<and> c \<le> 0xBF else if b = 0xF4 then 0x80 \<le> c \<and> c \<le> 0x8F
      else is_cont c)"

fun from_utf8_lossy :: "bytes \<Rightarrow> bytes" where
  "from_utf8_lossy [] = []"
| "from_utf8_lossy (b # bs) =
     (if b < 0x80 then b # from_utf8_lossy bs
      else if 0xC2 \<le> b \<and> b \<le> 0xDF then
        (case bs of
           c # r \<Rightarrow> (if is_cont c then b # c # from_utf8_lossy r else REPLACEMENT @ from_utf8_lossy bs)
         | [] \<Rightarrow> REPLACEMENT)
      else if 0xE0 \<le> b \<and> b \<le> 0xEF then
        (case bs of
           c # r \<Rightarrow>
             (if second_ok b c then
                (case r of
                   d # r' \<Rightarrow> (if is_cont d then b # c # d # from_utf8_lossy r' else REPLACEMENT @ from_utf8_lossy r)
                 | [] \<Rightarrow> REPLACEMENT)
              else REPLACEMENT @ from_utf8_lossy bs)
         | [] \<Rightarrow> REPLACEMENT)
      else if 0xF0 \<le> b \<and> b \<le> 0xF4 then
        (case bs of
           c # r \<Rightarrow>
             (if second_ok b c then
                (case r of
                   d # r' \<Rightarrow>
                     (if is_cont d then
                        (case r' of
                           e # r'' \<Rightarrow>
                             (if is_cont e then b # c # d # e # from_utf8_lossy r''
                              else REPLACEMENT @ from_utf8_lossy r')
                         | [] \<Rightarrow> REPLACEMENT)
                      else REPLACEMENT @ from_utf8_lossy r)
                 | [] \<Rightarrow> REPLACEMENT)
              else REPLACEMENT @ from_utf8_lossy bs)
         | [] \<Rightarrow> REPLACEMENT)
      else REPLACEMENT @ from_utf8_lossy bs)"

definition unstr :: "bytes \<Rightarrow> string" where
  "unstr bs = map (\<lambda>b. char_of (unat b)) bs"

lemma str_unstr [simp]: "str (unstr bs) = bs"
proof -
  have "of_char (char_of (unat b)) = b" for b :: u8
    using unsigned_less [of b, where ?'a = nat]
    by (simp add: of_nat_of_char [symmetric, where ?'a = u8])
  then show ?thesis by (simp add: str_def unstr_def comp_def)
qed

lemma is_utf8_ascii: "\<forall>b \<in> set bs. b < 0x80 \<Longrightarrow> is_utf8 bs"
  by (induction bs) auto

lemma str_append: "str (a @ b) = str a @ str b"
  by (simp add: str_def)

lemma length_str [simp]: "length (str s) = length s"
  by (simp add: str_def)

lemma dec_not_Nil [simp]: "dec n \<noteq> []"
  by (simp add: dec_def str_def)

lemma of_char_digit: "is_digit c \<Longrightarrow> is_ascii_digit (of_char c)"
proof -
  assume "is_digit c"
  then have n: "48 \<le> (of_char c :: nat)" "of_char c \<le> (57 :: nat)" by (simp_all add: is_digit_def)
  have "(of_char c :: u8) = of_nat (of_char c :: nat)" by (rule of_nat_of_char [symmetric])
  moreover have "unat (of_nat (of_char c :: nat) :: u8) = of_char c"
    using n by (simp add: unsigned_of_nat take_bit_nat_eq_self)
  ultimately have "unat (of_char c :: u8) = of_char c" by simp
  with n show ?thesis by (simp add: is_ascii_digit_def word_le_nat_alt)
qed

lemma dec_digits: "b \<in> set (dec n) \<Longrightarrow> is_ascii_digit b"
  by (auto simp: dec_def str_def dest!: nat_to_string_digits of_char_digit)

end
