(* ===== verification/ExprValue.thy ===== *)
theory ExprValue
  imports Decimal
begin

text \<open>
  The values of the configuration expression language (\<open>crates/common/src/expr/mod.rs\<close> and the
  \<open>Variable\<close> methods of \<open>crates/common/src/expr/eval.rs\<close>): strings, signed 64-bit integers,
  floats and arrays, with the arithmetic, comparison and conversion operations the evaluator
  applies to them.

  A string is the list of its UTF-8 bytes.  An \<open>i64\<close> is a 64-bit word read with \<open>sint\<close>;
  \<open>saturating_add\<close> and its kind clamp, and the plain negation wraps as it does in a release
  build.  IEEE 754 arithmetic is a parameter: the type \<open>'f\<close> with the operations of the record
  \<open>float_ops\<close>, of which nothing is assumed.
\<close>

type_synonym i64 = "64 word"

datatype ordering = Less | Equal | Greater

record 'f float_ops =
  f_add :: "'f \<Rightarrow> 'f \<Rightarrow> 'f"
  f_sub :: "'f \<Rightarrow> 'f \<Rightarrow> 'f"
  f_mul :: "'f \<Rightarrow> 'f \<Rightarrow> 'f"
  f_div :: "'f \<Rightarrow> 'f \<Rightarrow> 'f"
  f_neg :: "'f \<Rightarrow> 'f"
  f_of_i64 :: "i64 \<Rightarrow> 'f"
  f_to_i64 :: "'f \<Rightarrow> i64"
  f_to_usize :: "'f \<Rightarrow> usize"
  f_to_u64 :: "'f \<Rightarrow> u64"
  f_eq :: "'f \<Rightarrow> 'f \<Rightarrow> bool"
  f_cmp :: "'f \<Rightarrow> 'f \<Rightarrow> ordering option"
  f_parse :: "string \<Rightarrow> 'f option"
  f_show :: "'f \<Rightarrow> string"

definition f_zero :: "('f, 'z) float_ops_scheme \<Rightarrow> 'f" where
  "f_zero F = f_of_i64 F 0"

section \<open>Signed integers\<close>

definition i64_max :: int where "i64_max = 2 ^ 63 - 1"
definition i64_min :: int where "i64_min = - (2 ^ 63)"

definition clamp_i64 :: "int \<Rightarrow> i64" where
  "clamp_i64 x = word_of_int (max i64_min (min i64_max x))"

definition i64_saturating_add :: "i64 \<Rightarrow> i64 \<Rightarrow> i64" where
  "i64_saturating_add a b = clamp_i64 (sint a + sint b)"

definition i64_saturating_sub :: "i64 \<Rightarrow> i64 \<Rightarrow> i64" where
  "i64_saturating_sub a b = clamp_i64 (sint a - sint b)"

definition i64_saturating_mul :: "i64 \<Rightarrow> i64 \<Rightarrow> i64" where
  "i64_saturating_mul a b = clamp_i64 (sint a * sint b)"

definition i64_cmp :: "i64 \<Rightarrow> i64 \<Rightarrow> ordering" where
  "i64_cmp a b = (if sint a < sint b then Less else if a = b then Equal else Greater)"

text \<open>\<open>i64::from_str\<close> and the decimal form of an \<open>i64\<close>.\<close>

definition parse_i64 :: "string \<Rightarrow> i64 option" where
  "parse_i64 s =
     (case s of
        c # ds \<Rightarrow>
          if c = CHR ''-'' then
            (if ds = [] then None
             else case parse_digits 64 0 ds of
                    Some n \<Rightarrow> if n \<le> 2 ^ 63 then Some (- of_nat n) else None
                  | None \<Rightarrow> None)
          else
            (case parse_uint 64 s of
               Some n \<Rightarrow> if n < 2 ^ 63 then Some (of_nat n) else None
             | None \<Rightarrow> None)
      | [] \<Rightarrow> None)"

definition i64_to_string :: "i64 \<Rightarrow> string" where
  "i64_to_string n =
     (if sint n < 0 then CHR ''-'' # nat_to_string (nat (- sint n)) else nat_to_string (nat (sint n)))"

fun str_cmp :: "string \<Rightarrow> string \<Rightarrow> ordering" where
  "str_cmp [] [] = Equal"
| "str_cmp [] (_ # _) = Less"
| "str_cmp (_ # _) [] = Greater"
| "str_cmp (a # as) (b # bs) =
     (if (of_char a :: nat) < of_char b then Less
      else if a = b then str_cmp as bs else Greater)"

section \<open>Values\<close>

datatype 'f variable =
    VString string
  | VInteger i64
  | VFloat 'f
  | VArray "'f variable list"

datatype 'f Constant = CInteger i64 | CFloat 'f | CString string

definition default_variable :: "'f variable" where
  "default_variable = VString ''''"

definition variable_of_bool :: "bool \<Rightarrow> 'f variable" where
  "variable_of_bool b = VInteger (if b then 1 else 0)"

definition variable_of_usize :: "nat \<Rightarrow> 'f variable" where
  "variable_of_usize n = VInteger (of_nat n)"

fun variable_of_constant :: "'f Constant \<Rightarrow> 'f variable" where
  "variable_of_constant (CInteger i) = VInteger i"
| "variable_of_constant (CFloat f) = VFloat f"
| "variable_of_constant (CString s) = VString s"

fun var_is_empty :: "'f variable \<Rightarrow> bool" where
  "var_is_empty (VString s) = (s = [])"
| "var_is_empty _ = False"

fun to_bool :: "('f, 'z) float_ops_scheme \<Rightarrow> 'f variable \<Rightarrow> bool" where
  "to_bool F (VFloat f) = (\<not> f_eq F f (f_zero F))"
| "to_bool F (VInteger n) = (n \<noteq> 0)"
| "to_bool F (VString s) = (s \<noteq> [])"
| "to_bool F (VArray a) = (a \<noteq> [])"

fun parse_number :: "('f, 'z) float_ops_scheme \<Rightarrow> 'f variable \<Rightarrow> 'f variable" where
  "parse_number F (VString s) =
     (if s \<noteq> [] then
        (case parse_i64 s of
           Some n \<Rightarrow> VInteger n
         | None \<Rightarrow> (case f_parse F s of Some f \<Rightarrow> VFloat f | None \<Rightarrow> VInteger 0))
      else VInteger 0)"
| "parse_number F (VInteger n) = VInteger n"
| "parse_number F (VFloat f) = VFloat f"
| "parse_number F (VArray l) = VInteger (if l = [] then 1 else 0)"

text \<open>\<open>to_string\<close> and \<open>into_string\<close>, which agree but for the ownership of the result.\<close>

fun array_to_string :: "('f, 'z) float_ops_scheme \<Rightarrow> string \<Rightarrow> 'f variable list \<Rightarrow> string" where
  "array_to_string F result [] = result"
| "array_to_string F result (item # items) =
     (let result' = (if result \<noteq> [] then result @ [CHR 0x0D, CHR 0x0A] else result)
      in array_to_string F
           (case item of
              VString v \<Rightarrow> result' @ v
            | VInteger v \<Rightarrow> result' @ i64_to_string v
            | VFloat v \<Rightarrow> result' @ f_show F v
            | VArray _ \<Rightarrow> result') items)"

fun var_to_string :: "('f, 'z) float_ops_scheme \<Rightarrow> 'f variable \<Rightarrow> string" where
  "var_to_string F (VString s) = s"
| "var_to_string F (VInteger n) = i64_to_string n"
| "var_to_string F (VFloat n) = f_show F n"
| "var_to_string F (VArray l) = array_to_string F [] l"

text \<open>The \<open>Display\<close> form, which joins nested arrays with line feeds.\<close>

fun var_display :: "('f, 'z) float_ops_scheme \<Rightarrow> 'f variable \<Rightarrow> string"
  and vars_display :: "('f, 'z) float_ops_scheme \<Rightarrow> nat \<Rightarrow> 'f variable list \<Rightarrow> string" where
  "var_display F (VString v) = v"
| "var_display F (VInteger v) = i64_to_string v"
| "var_display F (VFloat v) = f_show F v"
| "var_display F (VArray v) = vars_display F 0 v"
| "vars_display F i [] = []"
| "vars_display F i (v # vs) =
     (if i > 0 then [CHR 0x0A] else []) @ var_display F v @ vars_display F (Suc i) vs"

fun to_integer :: "('f, 'z) float_ops_scheme \<Rightarrow> 'f variable \<Rightarrow> i64 option" where
  "to_integer F (VInteger n) = Some n"
| "to_integer F (VFloat n) = Some (f_to_i64 F n)"
| "to_integer F (VString s) = (if s \<noteq> [] then parse_i64 s else None)"
| "to_integer F (VArray _) = None"

fun to_usize :: "('f, 'z) float_ops_scheme \<Rightarrow> 'f variable \<Rightarrow> usize option" where
  "to_usize F (VInteger n) = Some n"
| "to_usize F (VFloat n) = Some (f_to_usize F n)"
| "to_usize F (VString s) = (if s \<noteq> [] then parse_u64 s else None)"
| "to_usize F (VArray _) = None"

fun into_array :: "'f variable \<Rightarrow> 'f variable list" where
  "into_array (VArray l) = l"
| "into_array v = (if \<not> var_is_empty v then [v] else [])"

section \<open>Comparison\<close>

fun num_eq :: "('f, 'z) float_ops_scheme \<Rightarrow> 'f variable \<Rightarrow> 'f variable \<Rightarrow> bool" where
  "num_eq F (VInteger a) (VInteger b) = (a = b)"
| "num_eq F (VFloat a) (VFloat b) = f_eq F a b"
| "num_eq F (VInteger a) (VFloat b) = f_eq F (f_of_i64 F a) b"
| "num_eq F (VFloat b) (VInteger a) = f_eq F (f_of_i64 F a) b"
| "num_eq F _ _ = False"

fun var_eq :: "('f, 'z) float_ops_scheme \<Rightarrow> 'f variable \<Rightarrow> 'f variable \<Rightarrow> bool"
  and vars_eq :: "('f, 'z) float_ops_scheme \<Rightarrow> 'f variable list \<Rightarrow> 'f variable list \<Rightarrow> bool" where
  "var_eq F (VString a) (VString b) = (a = b)"
| "var_eq F (VString a) (VInteger b) = num_eq F (parse_number F (VString a)) (VInteger b)"
| "var_eq F (VString a) (VFloat b) = num_eq F (parse_number F (VString a)) (VFloat b)"
| "var_eq F (VInteger a) (VString b) = num_eq F (VInteger a) (parse_number F (VString b))"
| "var_eq F (VFloat a) (VString b) = num_eq F (VFloat a) (parse_number F (VString b))"
| "var_eq F (VArray a) (VArray b) = vars_eq F a b"
| "var_eq F (VArray _) (VString _) = False"
| "var_eq F (VArray _) (VInteger _) = False"
| "var_eq F (VArray _) (VFloat _) = False"
| "var_eq F (VString _) (VArray _) = False"
| "var_eq F (VInteger _) (VArray _) = False"
| "var_eq F (VFloat _) (VArray _) = False"
| "var_eq F (VInteger a) (VInteger b) = num_eq F (VInteger a) (VInteger b)"
| "var_eq F (VInteger a) (VFloat b) = num_eq F (VInteger a) (VFloat b)"
| "var_eq F (VFloat a) (VInteger b) = num_eq F (VFloat a) (VInteger b)"
| "var_eq F (VFloat a) (VFloat b) = num_eq F (VFloat a) (VFloat b)"
| "vars_eq F [] [] = True"
| "vars_eq F (a # as) (b # bs) = (var_eq F a b \<and> vars_eq F as bs)"
| "vars_eq F [] (_ # _) = False"
| "vars_eq F (_ # _) [] = False"

fun num_cmp :: "('f, 'z) float_ops_scheme \<Rightarrow> 'f variable \<Rightarrow> 'f variable \<Rightarrow> ordering option" where
  "num_cmp F (VInteger a) (VInteger b) = Some (i64_cmp a b)"
| "num_cmp F (VFloat a) (VFloat b) = f_cmp F a b"
| "num_cmp F (VInteger a) (VFloat b) = f_cmp F (f_of_i64 F a) b"
| "num_cmp F (VFloat a) (VInteger b) = f_cmp F a (f_of_i64 F b)"
| "num_cmp F _ _ = None"

fun var_partial_cmp :: "('f, 'z) float_ops_scheme \<Rightarrow> 'f variable \<Rightarrow> 'f variable \<Rightarrow> ordering option"
  and vars_partial_cmp ::
    "('f, 'z) float_ops_scheme \<Rightarrow> 'f variable list \<Rightarrow> 'f variable list \<Rightarrow> ordering option" where
  "var_partial_cmp F (VString a) (VString b) = Some (str_cmp a b)"
| "var_partial_cmp F (VString a) (VInteger b) = num_cmp F (parse_number F (VString a)) (VInteger b)"
| "var_partial_cmp F (VString a) (VFloat b) = num_cmp F (parse_number F (VString a)) (VFloat b)"
| "var_partial_cmp F (VInteger a) (VString b) = num_cmp F (VInteger a) (parse_number F (VString b))"
| "var_partial_cmp F (VFloat a) (VString b) = num_cmp F (VFloat a) (parse_number F (VString b))"
| "var_partial_cmp F (VArray a) (VArray b) = vars_partial_cmp F a b"
| "var_partial_cmp F (VArray _) (VString _) = Some Greater"
| "var_partial_cmp F (VArray _) (VInteger _) = Some Greater"
| "var_partial_cmp F (VArray _) (VFloat _) = Some Greater"
| "var_partial_cmp F (VString _) (VArray _) = Some Greater"
| "var_partial_cmp F (VInteger _) (VArray _) = Some Less"
| "var_partial_cmp F (VFloat _) (VArray _) = Some Less"
| "var_partial_cmp F (VInteger a) (VInteger b) = num_cmp F (VInteger a) (VInteger b)"
| "var_partial_cmp F (VInteger a) (VFloat b) = num_cmp F (VInteger a) (VFloat b)"
| "var_partial_cmp F (VFloat a) (VInteger b) = num_cmp F (VFloat a) (VInteger b)"
| "var_partial_cmp F (VFloat a) (VFloat b) = num_cmp F (VFloat a) (VFloat b)"
| "vars_partial_cmp F [] [] = Some Equal"
| "vars_partial_cmp F (a # as) (b # bs) =
     (case var_partial_cmp F a b of Some Equal \<Rightarrow> vars_partial_cmp F as bs | c \<Rightarrow> c)"
| "vars_partial_cmp F [] (_ # _) = Some Less"
| "vars_partial_cmp F (_ # _) [] = Some Greater"

definition var_cmp :: "('f, 'z) float_ops_scheme \<Rightarrow> 'f variable \<Rightarrow> 'f variable \<Rightarrow> ordering" where
  "var_cmp F a b = (case var_partial_cmp F a b of Some c \<Rightarrow> c | None \<Rightarrow> Greater)"

section \<open>Operators\<close>

fun op_add :: "('f, 'z) float_ops_scheme \<Rightarrow> 'f variable \<Rightarrow> 'f variable \<Rightarrow> 'f variable" where
  "op_add F (VInteger a) (VInteger b) = VInteger (i64_saturating_add a b)"
| "op_add F (VFloat a) (VFloat b) = VFloat (f_add F a b)"
| "op_add F (VInteger i) (VFloat f) = VFloat (f_add F (f_of_i64 F i) f)"
| "op_add F (VFloat f) (VInteger i) = VFloat (f_add F (f_of_i64 F i) f)"
| "op_add F (VArray a) (VArray b) = VArray (a @ b)"
| "op_add F (VArray a) b = VArray (a @ [b])"
| "op_add F a (VArray b) = VArray (a # b)"
| "op_add F (VString a) b = (if a \<noteq> [] then VString (a @ var_display F b) else b)"
| "op_add F a (VString b) = (if b \<noteq> [] then VString (var_display F a @ b) else a)"

fun sub_numbers :: "('f, 'z) float_ops_scheme \<Rightarrow> 'f variable \<Rightarrow> 'f variable \<Rightarrow> 'f variable" where
  "sub_numbers F (VInteger a) (VInteger b) = VInteger (i64_saturating_sub a b)"
| "sub_numbers F (VFloat a) (VFloat b) = VFloat (f_sub F a b)"
| "sub_numbers F (VInteger a) (VFloat b) = VFloat (f_sub F (f_of_i64 F a) b)"
| "sub_numbers F (VFloat a) (VInteger b) = VFloat (f_sub F a (f_of_i64 F b))"
| "sub_numbers F a b = VInteger 0"

fun op_subtract :: "('f, 'z) float_ops_scheme \<Rightarrow> 'f variable \<Rightarrow> 'f variable \<Rightarrow> 'f variable" where
  "op_subtract F (VArray a) b = VArray (filter (\<lambda>v. \<not> var_eq F v b) a)"
| "op_subtract F b (VArray a) = VArray (filter (\<lambda>v. \<not> var_eq F v b) a)"
| "op_subtract F a b = sub_numbers F (parse_number F a) (parse_number F b)"

fun mul_numbers :: "('f, 'z) float_ops_scheme \<Rightarrow> 'f variable \<Rightarrow> 'f variable \<Rightarrow> 'f variable" where
  "mul_numbers F (VInteger a) (VInteger b) = VInteger (i64_saturating_mul a b)"
| "mul_numbers F (VFloat a) (VFloat b) = VFloat (f_mul F a b)"
| "mul_numbers F (VInteger i) (VFloat f) = VFloat (f_mul F (f_of_i64 F i) f)"
| "mul_numbers F (VFloat f) (VInteger i) = VFloat (f_mul F (f_of_i64 F i) f)"
| "mul_numbers F a b = VInteger 0"

definition op_multiply :: "('f, 'z) float_ops_scheme \<Rightarrow> 'f variable \<Rightarrow> 'f variable \<Rightarrow> 'f variable" where
  "op_multiply F a b = mul_numbers F (parse_number F a) (parse_number F b)"

fun div_numbers :: "('f, 'z) float_ops_scheme \<Rightarrow> 'f variable \<Rightarrow> 'f variable \<Rightarrow> 'f variable" where
  "div_numbers F (VInteger a) (VInteger b) =
     VFloat (if b \<noteq> 0 then f_div F (f_of_i64 F a) (f_of_i64 F b) else f_zero F)"
| "div_numbers F (VFloat a) (VFloat b) =
     VFloat (if \<not> f_eq F b (f_zero F) then f_div F a b else f_zero F)"
| "div_numbers F (VInteger a) (VFloat b) =
     VFloat (if \<not> f_eq F b (f_zero F) then f_div F (f_of_i64 F a) b else f_zero F)"
| "div_numbers F (VFloat a) (VInteger b) =
     VFloat (if b \<noteq> 0 then f_div F a (f_of_i64 F b) else f_zero F)"
| "div_numbers F a b = VInteger 0"

definition op_divide :: "('f, 'z) float_ops_scheme \<Rightarrow> 'f variable \<Rightarrow> 'f variable \<Rightarrow> 'f variable" where
  "op_divide F a b = div_numbers F (parse_number F a) (parse_number F b)"

definition op_and :: "('f, 'z) float_ops_scheme \<Rightarrow> 'f variable \<Rightarrow> 'f variable \<Rightarrow> 'f variable" where
  "op_and F a b = variable_of_bool (to_bool F a \<and> to_bool F b)"

definition op_or :: "('f, 'z) float_ops_scheme \<Rightarrow> 'f variable \<Rightarrow> 'f variable \<Rightarrow> 'f variable" where
  "op_or F a b = variable_of_bool (to_bool F a \<or> to_bool F b)"

definition op_xor :: "('f, 'z) float_ops_scheme \<Rightarrow> 'f variable \<Rightarrow> 'f variable \<Rightarrow> 'f variable" where
  "op_xor F a b = variable_of_bool (to_bool F a \<noteq> to_bool F b)"

definition op_eq :: "('f, 'z) float_ops_scheme \<Rightarrow> 'f variable \<Rightarrow> 'f variable \<Rightarrow> 'f variable" where
  "op_eq F a b = variable_of_bool (var_eq F a b)"

definition op_ne :: "('f, 'z) float_ops_scheme \<Rightarrow> 'f variable \<Rightarrow> 'f variable \<Rightarrow> 'f variable" where
  "op_ne F a b = variable_of_bool (\<not> var_eq F a b)"

definition op_lt :: "('f, 'z) float_ops_scheme \<Rightarrow> 'f variable \<Rightarrow> 'f variable \<Rightarrow> 'f variable" where
  "op_lt F a b = variable_of_bool (var_partial_cmp F a b = Some Less)"

definition op_le :: "('f, 'z) float_ops_scheme \<Rightarrow> 'f variable \<Rightarrow> 'f variable \<Rightarrow> 'f variable" where
  "op_le F a b = variable_of_bool (var_partial_cmp F a b \<in> {Some Less, Some Equal})"

definition op_gt :: "('f, 'z) float_ops_scheme \<Rightarrow> 'f variable \<Rightarrow> 'f variable \<Rightarrow> 'f variable" where
  "op_gt F a b = variable_of_bool (var_partial_cmp F a b = Some Greater)"

definition op_ge :: "('f, 'z) float_ops_scheme \<Rightarrow> 'f variable \<Rightarrow> 'f variable \<Rightarrow> 'f variable" where
  "op_ge F a b = variable_of_bool (var_partial_cmp F a b \<in> {Some Greater, Some Equal})"

definition op_not :: "('f, 'z) float_ops_scheme \<Rightarrow> 'f variable \<Rightarrow> 'f variable" where
  "op_not F a = variable_of_bool (\<not> to_bool F a)"

definition op_minus :: "('f, 'z) float_ops_scheme \<Rightarrow> 'f variable \<Rightarrow> 'f variable" where
  "op_minus F a = (case parse_number F a of VInteger n \<Rightarrow> VInteger (- n) | VFloat f \<Rightarrow> VFloat (f_neg F f) | v \<Rightarrow> v)"

section \<open>Conversions of the result\<close>

text \<open>
  \<open>Duration::parse_value\<close> of \<open>crates/utils/src/config/utils.rs\<close>: the digits and the other
  characters are collected apart.  A duration is its number of milliseconds.
\<close>

definition is_ascii_whitespace :: "char \<Rightarrow> bool" where
  "is_ascii_whitespace c = (c \<in> set [CHR 0x20, CHR 0x09, CHR 0x0A, CHR 0x0C, CHR 0x0D])"

definition ascii_lower :: "char \<Rightarrow> char" where
  "ascii_lower c =
     (if 65 \<le> (of_char c :: nat) \<and> of_char c \<le> (90 :: nat) then char_of (of_char c + 32 :: nat) else c)"

definition duration_multiplier :: "string \<Rightarrow> u64 option" where
  "duration_multiplier m =
     (if m = ''d'' then Some 86400000
      else if m = ''h'' then Some 3600000
      else if m = ''m'' then Some 60000
      else if m = ''s'' then Some 1000
      else if m = ''ms'' \<or> m = [] then Some 1
      else None)"

definition parse_duration :: "string \<Rightarrow> u64 option" where
  "parse_duration value =
     (case duration_multiplier
             (map ascii_lower (filter (\<lambda>c. \<not> is_digit c \<and> \<not> is_ascii_whitespace c) value)) of
        None \<Rightarrow> None
      | Some multiplier \<Rightarrow>
          (case parse_u64 (filter is_digit value) of
             Some num \<Rightarrow> if num > 0 then Some (num * multiplier) else None
           | None \<Rightarrow> None))"

record rate =
  requests :: u64
  period :: u64

fun try_duration :: "('f, 'z) float_ops_scheme \<Rightarrow> 'f variable \<Rightarrow> u64 option" where
  "try_duration F (VInteger n) = (if sint n > 0 then Some n else None)"
| "try_duration F (VFloat f) =
     (if f_cmp F f (f_zero F) = Some Greater then Some (f_to_u64 F f) else None)"
| "try_duration F (VString s) = (if s \<noteq> [] then parse_duration s else None)"
| "try_duration F (VArray _) = None"

fun try_rate :: "('f, 'z) float_ops_scheme \<Rightarrow> 'f variable \<Rightarrow> rate option" where
  "try_rate F (VArray [r, p]) =
     (case to_integer F r of
        None \<Rightarrow> None
      | Some req \<Rightarrow>
          (case to_integer F p of
             None \<Rightarrow> None
           | Some per \<Rightarrow>
               if sint req > 0 \<and> sint per > 0 then Some \<lparr>requests = req, period = per\<rparr> else None))"
| "try_rate F _ = None"

fun try_string :: "'f variable \<Rightarrow> string option" where
  "try_string (VString s) = Some s"
| "try_string _ = None"

definition try_u64 :: "('f, 'z) float_ops_scheme \<Rightarrow> 'f variable \<Rightarrow> u64 option" where
  "try_u64 F v = to_integer F v"

definition try_vec :: "('f variable \<Rightarrow> 'a option) \<Rightarrow> 'f variable \<Rightarrow> 'a list option" where
  "try_vec try_item v = those (map try_item (into_array v))"

end
