(* ===== verification/ExprFunctions.thy ===== *)
theory ExprFunctions
  imports ExprValue "HOL-Library.Sublist"
begin

text \<open>
  The built-in functions of the expression language (\<open>crates/common/src/expr/functions/\<close>): the
  array, text, e-mail and miscellaneous functions and the table \<open>FUNCTIONS\<close> that names them with
  their arities.

  A function takes the vector of its arguments.  Reading an argument the vector does not have is
  a panic, the value \<open>None\<close>.  Strings are UTF-8 byte lists; \<open>chars\<close> cuts one into its characters,
  each a short byte list.  The unstable sort of the standard library may panic when the comparison
  is not a total order, and then it is \<open>None\<close> too.  Parameters, fields of the record \<open>expr_ops\<close> that extends the float
  operations: the case mappings and classes of Unicode, the unstable sort, the address parser and
  the reverse name of an address, and the hash functions.
\<close>

datatype ip_addr = IpV4 bytes | IpV6 bytes

record 'f expr_ops = "'f float_ops" +
  x_to_lowercase :: "string \<Rightarrow> string"
  x_to_uppercase :: "string \<Rightarrow> string"
  x_is_alphabetic :: "string \<Rightarrow> bool"
  x_is_uppercase :: "string \<Rightarrow> bool"
  x_is_lowercase :: "string \<Rightarrow> bool"
  x_is_alphanumeric :: "string \<Rightarrow> bool"
  x_sort_by :: "('f variable \<Rightarrow> 'f variable \<Rightarrow> ordering) \<Rightarrow> 'f variable list \<Rightarrow> 'f variable list option"
  x_parse_ip :: "string \<Rightarrow> ip_addr option"
  x_to_reverse_name :: "ip_addr \<Rightarrow> string"
  x_md5 :: "string \<Rightarrow> string"
  x_sha1 :: "string \<Rightarrow> string"
  x_sha256 :: "string \<Rightarrow> string"
  x_sha512 :: "string \<Rightarrow> string"

section \<open>Strings of the standard library\<close>

definition is_continuation :: "char \<Rightarrow> bool" where
  "is_continuation c = (0x80 \<le> (of_char c :: nat) \<and> of_char c < (0xC0 :: nat))"

function chars :: "string \<Rightarrow> string list" where
  "chars [] = []"
| "chars (c # cs) =
     (c # takeWhile is_continuation cs) # chars (dropWhile is_continuation cs)"
  by pat_completeness auto
termination
  by (relation "measure length") (simp_all add: length_dropWhile_le less_Suc_eq_le)

text \<open>The characters with the Unicode property \<open>White_Space\<close>, in UTF-8.\<close>

definition utf8_3 :: "nat \<Rightarrow> string" where
  "utf8_3 n = [char_of (0xE0 + n div 4096), char_of (0x80 + n div 64 mod 64), char_of (0x80 + n mod 64)]"

definition is_whitespace :: "string \<Rightarrow> bool" where
  "is_whitespace ch =
     (ch \<in> set ([[CHR 0x09], [CHR 0x0A], [CHR 0x0B], [CHR 0x0C], [CHR 0x0D], [CHR 0x20],
               [CHR 0xC2, CHR 0x85], [CHR 0xC2, CHR 0xA0]] @
              map utf8_3 ([0x1680] @ [0x2000..<0x200B] @ [0x2028, 0x2029, 0x202F, 0x205F, 0x3000])))"

definition trim_start :: "string \<Rightarrow> string" where
  "trim_start s = concat (dropWhile is_whitespace (chars s))"

definition trim_end :: "string \<Rightarrow> string" where
  "trim_end s = concat (rev (dropWhile is_whitespace (rev (chars s))))"

definition trim :: "string \<Rightarrow> string" where
  "trim s = trim_end (trim_start s)"

fun str_find :: "string \<Rightarrow> string \<Rightarrow> nat option" where
  "str_find pat [] = (if pat = [] then Some 0 else None)"
| "str_find pat (c # cs) =
     (if prefix pat (c # cs) then Some 0 else map_option Suc (str_find pat cs))"

definition str_contains :: "string \<Rightarrow> string \<Rightarrow> bool" where
  "str_contains s pat = (str_find pat s \<noteq> None)"

definition split_once :: "string \<Rightarrow> string \<Rightarrow> (string \<times> string) option" where
  "split_once s pat =
     map_option (\<lambda>i. (take i s, drop (i + length pat) s)) (str_find pat s)"

definition rsplit_once :: "string \<Rightarrow> string \<Rightarrow> (string \<times> string) option" where
  "rsplit_once s pat =
     map_option (\<lambda>(a, b). (rev b, rev a)) (split_once (rev s) (rev pat))"

definition strip_prefix :: "string \<Rightarrow> string \<Rightarrow> string option" where
  "strip_prefix s pat = (if prefix pat s then Some (drop (length pat) s) else None)"

definition strip_suffix :: "string \<Rightarrow> string \<Rightarrow> string option" where
  "strip_suffix s pat = (if suffix pat s then Some (take (length s - length pat) s) else None)"

definition eq_ignore_ascii_case :: "string \<Rightarrow> string \<Rightarrow> bool" where
  "eq_ignore_ascii_case a b = (map ascii_lower a = map ascii_lower b)"

lemma split_once_append:
  assumes "split_once s pat = Some (a, b)"
  shows "s = a @ pat @ b"
proof -
  have "str_find pat s = Some i \<Longrightarrow> s = take i s @ pat @ drop (i + length pat) s" for i
    by (induction pat s arbitrary: i rule: str_find.induct)
       (auto split: if_splits simp: prefix_def)
  with assms show ?thesis by (auto simp: split_once_def)
qed

function split_on :: "string \<Rightarrow> string \<Rightarrow> string list" where
  "split_on pat s =
     (case split_once s pat of
        None \<Rightarrow> [s]
      | Some (a, b) \<Rightarrow> if pat = [] then [s] else a # split_on pat b)"
  by pat_completeness auto
termination
proof (relation "measure (\<lambda>(pat, s). length s)", simp)
  fix pat s p a b
  assume "split_once s pat = Some p" and "(a, b) = p" and "pat \<noteq> []"
  then have "s = a @ pat @ b" by (simp add: split_once_append)
  with \<open>pat \<noteq> []\<close> show "((pat, b), pat, s) \<in> measure (\<lambda>(pat, s). length s)" by auto
qed

declare split_on.simps [simp del]

text \<open>\<open>str::split\<close> and \<open>str::rsplit\<close>; the empty pattern matches at every character boundary.\<close>

definition str_split :: "string \<Rightarrow> string \<Rightarrow> string list" where
  "str_split s pat = (if pat = [] then [] # chars s @ [[]] else split_on pat s)"

definition str_rsplit :: "string \<Rightarrow> string \<Rightarrow> string list" where
  "str_rsplit s pat =
     (if pat = [] then rev ([] # chars s @ [[]]) else map rev (split_on (rev pat) (rev s)))"

text \<open>\<open>str::lines\<close>: cut at line feeds, a carriage return before one dropped, and no last empty line.\<close>

definition strip_cr :: "string \<Rightarrow> string" where
  "strip_cr l = (if l \<noteq> [] \<and> last l = CHR 0x0D then butlast l else l)"

definition lines :: "string \<Rightarrow> string list" where
  "lines s =
     (let ls = split_on [CHR 0x0A] s
      in map strip_cr (butlast ls) @ (if last ls = [] then [] else [last ls]))"

fun split_whitespace_chars :: "string \<Rightarrow> string list \<Rightarrow> string list" where
  "split_whitespace_chars word [] = (if word = [] then [] else [word])"
| "split_whitespace_chars word (ch # chs) =
     (if is_whitespace ch then (if word = [] then [] else [word]) @ split_whitespace_chars [] chs
      else split_whitespace_chars (word @ ch) chs)"

definition split_whitespace :: "string \<Rightarrow> string list" where
  "split_whitespace s = split_whitespace_chars [] (chars s)"

section \<open>The functions\<close>

type_synonym 'f expr_fn = "'f variable list \<Rightarrow> 'f variable option"

fun transform :: "('f, 'z) float_ops_scheme \<Rightarrow> (string \<Rightarrow> 'f variable) \<Rightarrow> 'f variable \<Rightarrow> 'f variable" where
  "transform F f (VString s) = f s"
| "transform F f (VArray l) = VArray (map (\<lambda>v. f (var_to_string F v)) l)"
| "transform F f v = f (var_to_string F v)"

definition arg :: "'a list \<Rightarrow> nat \<Rightarrow> 'a option" where
  "arg v i = (if i < length v then Some (v ! i) else None)"

definition with_arg :: "('f variable \<Rightarrow> 'f variable) \<Rightarrow> 'f expr_fn" where
  "with_arg f v = map_option f (arg v 0)"

definition with_arg2 :: "('f variable \<Rightarrow> 'f variable \<Rightarrow> 'f variable) \<Rightarrow> 'f expr_fn" where
  "with_arg2 f v = Option.bind (arg v 0) (\<lambda>a. map_option (f a) (arg v 1))"

definition with_arg3 ::
    "('f variable \<Rightarrow> 'f variable \<Rightarrow> 'f variable \<Rightarrow> 'f variable) \<Rightarrow> 'f expr_fn" where
  "with_arg3 f v =
     Option.bind (arg v 0) (\<lambda>a. Option.bind (arg v 1) (\<lambda>b. map_option (f a b) (arg v 2)))"

definition var_contains :: "('f, 'z) float_ops_scheme \<Rightarrow> 'f variable list \<Rightarrow> 'f variable \<Rightarrow> bool" where
  "var_contains F l x = list_ex (\<lambda>y. var_eq F y x) l"

definition fn_count :: "'f expr_fn" where
  "fn_count = with_arg (\<lambda>a.
     variable_of_usize (case a of VArray l \<Rightarrow> length l | w \<Rightarrow> if \<not> var_is_empty w then 1 else 0))"

definition fn_sort :: "('f, 'z) expr_ops_scheme \<Rightarrow> 'f expr_fn" where
  "fn_sort F v =
     Option.bind (arg v 1) (\<lambda>is_asc. Option.bind (arg v 0) (\<lambda>a.
       map_option VArray
         (if to_bool F is_asc then x_sort_by F (\<lambda>x y. var_cmp F y x) (into_array a)
          else x_sort_by F (var_cmp F) (into_array a))))"

fun dedup_loop :: "('f, 'z) float_ops_scheme \<Rightarrow> 'f variable list \<Rightarrow> 'f variable list \<Rightarrow> 'f variable list" where
  "dedup_loop F result [] = result"
| "dedup_loop F result (item # items) =
     dedup_loop F (if \<not> var_contains F result item then result @ [item] else result) items"

definition fn_dedup :: "('f, 'z) float_ops_scheme \<Rightarrow> 'f expr_fn" where
  "fn_dedup F = with_arg (\<lambda>a. VArray (dedup_loop F [] (into_array a)))"

definition is_intersect :: "('f, 'z) float_ops_scheme \<Rightarrow> 'f variable \<Rightarrow> 'f variable \<Rightarrow> bool" where
  "is_intersect F x y =
     (case (x, y) of
        (VArray a, VArray b) \<Rightarrow> list_ex (var_contains F b) a
      | (VArray a, item) \<Rightarrow> var_contains F a item
      | (item, VArray a) \<Rightarrow> var_contains F a item
      | _ \<Rightarrow> False)"

definition fn_is_intersect :: "('f, 'z) float_ops_scheme \<Rightarrow> 'f expr_fn" where
  "fn_is_intersect F = with_arg2 (\<lambda>x y. variable_of_bool (is_intersect F x y))"

definition fn_winnow :: "'f expr_fn" where
  "fn_winnow = with_arg (\<lambda>a.
     case a of VArray l \<Rightarrow> VArray (filter (\<lambda>i. \<not> var_is_empty i) l) | w \<Rightarrow> w)"

text \<open>\<open>fn_is_email\<close>: one pass over the bytes.\<close>

definition is_atext :: "char \<Rightarrow> bool" where
  "is_atext c =
     (let n = (of_char c :: nat) in
      (48 \<le> n \<and> n \<le> 57) \<or> (97 \<le> n \<and> n \<le> 122) \<or> (65 \<le> n \<and> n \<le> 90) \<or>
      c \<in> set ''!#$%&*+-/=?^_{|}~'' \<or> c = CHR 0x27 \<or> c = CHR 0x60 \<or> 0x7F \<le> n)"

record email_scan =
  es_last_ch :: char
  es_in_quote :: bool
  es_at_count :: nat
  es_dot_count :: nat
  es_lp_len :: nat
  es_part_len :: nat

fun is_email_loop :: "email_scan \<Rightarrow> string \<Rightarrow> email_scan option" where
  "is_email_loop s [] = Some s"
| "is_email_loop s (ch # chs) =
     (let next = (\<lambda>s'. is_email_loop (s'\<lparr>es_last_ch := ch\<rparr>) chs) in
      if is_atext ch then next (s\<lparr>es_part_len := es_part_len s + 1\<rparr>)
      else if ch = CHR ''.'' \<and> \<not> es_in_quote s then
        (if es_last_ch s \<noteq> CHR ''.'' \<and> es_last_ch s \<noteq> CHR ''@'' \<and> es_part_len s \<noteq> 0 then
           next (s\<lparr>es_part_len := es_part_len s + 1,
                   es_dot_count := (if es_at_count s = 1 then es_dot_count s + 1 else es_dot_count s)\<rparr>)
         else None)
      else if ch = CHR ''@'' \<and> \<not> es_in_quote s then
        next (s\<lparr>es_at_count := es_at_count s + 1, es_lp_len := es_part_len s, es_part_len := 0\<rparr>)
      else if ch \<in> set ''>:, '' \<and> es_in_quote s then next (s\<lparr>es_part_len := es_part_len s + 1\<rparr>)
      else if ch = CHR 0x22 \<and> (\<not> es_in_quote s \<or> es_last_ch s \<noteq> CHR 0x5C) then
        next (s\<lparr>es_in_quote := \<not> es_in_quote s\<rparr>)
      else if ch = CHR 0x5C \<and> es_in_quote s \<and> es_last_ch s \<noteq> CHR 0x5C then next s
      else if \<not> es_in_quote s then None
      else next s)"

definition is_email :: "string \<Rightarrow> bool" where
  "is_email s =
     (case is_email_loop \<lparr>es_last_ch = CHR 0x00, es_in_quote = False, es_at_count = 0, es_dot_count = 0,
                          es_lp_len = 0, es_part_len = 0\<rparr> s of
        Some e \<Rightarrow> es_at_count e = 1 \<and> es_dot_count e > 0 \<and> es_lp_len e > 0 \<and> es_part_len e > 0
      | None \<Rightarrow> False)"

definition fn_is_email :: "('f, 'z) float_ops_scheme \<Rightarrow> 'f expr_fn" where
  "fn_is_email F = with_arg (\<lambda>a. variable_of_bool (is_email (var_to_string F a)))"

definition email_part :: "string \<Rightarrow> string \<Rightarrow> 'f variable" where
  "email_part part s =
     (case rsplit_once s ''@'' of
        Some (u, d) \<Rightarrow>
          if part = ''local'' then VString (trim u)
          else if part = ''domain'' then VString (trim d)
          else default_variable
      | None \<Rightarrow> default_variable)"

definition fn_email_part :: "('f, 'z) float_ops_scheme \<Rightarrow> 'f expr_fn" where
  "fn_email_part F = with_arg2 (\<lambda>a part. transform F (email_part (var_to_string F part)) a)"

definition fn_is_empty :: "'f expr_fn" where
  "fn_is_empty = with_arg (\<lambda>a. variable_of_bool
     (case a of VString s \<Rightarrow> s = [] | VInteger _ \<Rightarrow> False | VFloat _ \<Rightarrow> False | VArray l \<Rightarrow> l = []))"

definition fn_is_number :: "'f expr_fn" where
  "fn_is_number = with_arg (\<lambda>a. variable_of_bool
     (case a of VInteger _ \<Rightarrow> True | VFloat _ \<Rightarrow> True | _ \<Rightarrow> False))"

definition fn_is_ip_addr :: "('f, 'z) expr_ops_scheme \<Rightarrow> 'f expr_fn" where
  "fn_is_ip_addr F = with_arg (\<lambda>a. variable_of_bool (x_parse_ip F (var_to_string F a) \<noteq> None))"

definition fn_is_ipv4_addr :: "('f, 'z) expr_ops_scheme \<Rightarrow> 'f expr_fn" where
  "fn_is_ipv4_addr F = with_arg (\<lambda>a. variable_of_bool
     (case x_parse_ip F (var_to_string F a) of Some (IpV4 _) \<Rightarrow> True | _ \<Rightarrow> False))"

definition fn_is_ipv6_addr :: "('f, 'z) expr_ops_scheme \<Rightarrow> 'f expr_fn" where
  "fn_is_ipv6_addr F = with_arg (\<lambda>a. variable_of_bool
     (case x_parse_ip F (var_to_string F a) of Some (IpV6 _) \<Rightarrow> True | _ \<Rightarrow> False))"

definition fn_ip_reverse_name :: "('f, 'z) expr_ops_scheme \<Rightarrow> 'f expr_fn" where
  "fn_ip_reverse_name F = with_arg (\<lambda>a.
     VString (case x_parse_ip F (var_to_string F a) of Some ip \<Rightarrow> x_to_reverse_name F ip | None \<Rightarrow> []))"

definition fn_if_then :: "('f, 'z) float_ops_scheme \<Rightarrow> 'f expr_fn" where
  "fn_if_then F = with_arg3 (\<lambda>condition iff els. if to_bool F condition then iff else els)"

definition fn_trim :: "('f, 'z) float_ops_scheme \<Rightarrow> 'f expr_fn" where
  "fn_trim F = with_arg (transform F (\<lambda>s. VString (trim s)))"

definition fn_trim_end :: "('f, 'z) float_ops_scheme \<Rightarrow> 'f expr_fn" where
  "fn_trim_end F = with_arg (transform F (\<lambda>s. VString (trim_end s)))"

definition fn_trim_start :: "('f, 'z) float_ops_scheme \<Rightarrow> 'f expr_fn" where
  "fn_trim_start F = with_arg (transform F (\<lambda>s. VString (trim_start s)))"

definition fn_len :: "('f, 'z) float_ops_scheme \<Rightarrow> 'f expr_fn" where
  "fn_len F = with_arg (\<lambda>a. variable_of_usize
     (case a of VString s \<Rightarrow> length s | VArray l \<Rightarrow> length l | w \<Rightarrow> length (var_to_string F w)))"

definition fn_to_lowercase :: "('f, 'z) expr_ops_scheme \<Rightarrow> 'f expr_fn" where
  "fn_to_lowercase F = with_arg (transform F (\<lambda>s. VString (x_to_lowercase F s)))"

definition fn_to_uppercase :: "('f, 'z) expr_ops_scheme \<Rightarrow> 'f expr_fn" where
  "fn_to_uppercase F = with_arg (transform F (\<lambda>s. VString (x_to_uppercase F s)))"

definition fn_is_uppercase :: "('f, 'z) expr_ops_scheme \<Rightarrow> 'f expr_fn" where
  "fn_is_uppercase F = with_arg (transform F (\<lambda>s.
     variable_of_bool (list_all (x_is_uppercase F) (filter (x_is_alphabetic F) (chars s)))))"

definition fn_is_lowercase :: "('f, 'z) expr_ops_scheme \<Rightarrow> 'f expr_fn" where
  "fn_is_lowercase F = with_arg (transform F (\<lambda>s.
     variable_of_bool (list_all (x_is_lowercase F) (filter (x_is_alphabetic F) (chars s)))))"

definition fn_has_digits :: "('f, 'z) float_ops_scheme \<Rightarrow> 'f expr_fn" where
  "fn_has_digits F = with_arg (transform F (\<lambda>s. variable_of_bool (list_ex is_digit s)))"

definition fn_split_words :: "('f, 'z) expr_ops_scheme \<Rightarrow> 'f expr_fn" where
  "fn_split_words F = with_arg (\<lambda>a. VArray (map VString
     (filter (\<lambda>word. list_all (x_is_alphanumeric F) (chars word)) (split_whitespace (var_to_string F a)))))"

definition fn_count_spaces :: "('f, 'z) float_ops_scheme \<Rightarrow> 'f expr_fn" where
  "fn_count_spaces F = with_arg (\<lambda>a.
     variable_of_usize (length (filter is_whitespace (chars (var_to_string F a)))))"

definition fn_count_uppercase :: "('f, 'z) expr_ops_scheme \<Rightarrow> 'f expr_fn" where
  "fn_count_uppercase F = with_arg (\<lambda>a. variable_of_usize
     (length (filter (\<lambda>c. x_is_alphabetic F c \<and> x_is_uppercase F c) (chars (var_to_string F a)))))"

definition fn_count_lowercase :: "('f, 'z) expr_ops_scheme \<Rightarrow> 'f expr_fn" where
  "fn_count_lowercase F = with_arg (\<lambda>a. variable_of_usize
     (length (filter (\<lambda>c. x_is_alphabetic F c \<and> x_is_lowercase F c) (chars (var_to_string F a)))))"

definition fn_count_chars :: "('f, 'z) float_ops_scheme \<Rightarrow> 'f expr_fn" where
  "fn_count_chars F = with_arg (\<lambda>a. variable_of_usize (length (chars (var_to_string F a))))"

definition fn_eq_ignore_case :: "('f, 'z) float_ops_scheme \<Rightarrow> 'f expr_fn" where
  "fn_eq_ignore_case F = with_arg2 (\<lambda>a b.
     variable_of_bool (eq_ignore_ascii_case (var_to_string F a) (var_to_string F b)))"

definition fn_contains :: "('f, 'z) float_ops_scheme \<Rightarrow> 'f expr_fn" where
  "fn_contains F = with_arg2 (\<lambda>a b. variable_of_bool
     (case a of
        VString s \<Rightarrow> str_contains s (var_to_string F b)
      | VArray arr \<Rightarrow> var_contains F arr b
      | val \<Rightarrow> str_contains (var_to_string F val) (var_to_string F b)))"

definition fn_contains_ignore_case :: "('f, 'z) expr_ops_scheme \<Rightarrow> 'f expr_fn" where
  "fn_contains_ignore_case F = with_arg2 (\<lambda>a b.
     let needle = var_to_string F b in variable_of_bool
     (case a of
        VString s \<Rightarrow> str_contains (x_to_lowercase F s) (x_to_lowercase F needle)
      | VArray arr \<Rightarrow>
          list_ex (\<lambda>w. case w of VString s \<Rightarrow> eq_ignore_ascii_case s needle | _ \<Rightarrow> False) arr
      | val \<Rightarrow> str_contains (var_to_string F val) needle))"

definition fn_starts_with :: "('f, 'z) float_ops_scheme \<Rightarrow> 'f expr_fn" where
  "fn_starts_with F = with_arg2 (\<lambda>a b. variable_of_bool (prefix (var_to_string F b) (var_to_string F a)))"

definition fn_ends_with :: "('f, 'z) float_ops_scheme \<Rightarrow> 'f expr_fn" where
  "fn_ends_with F = with_arg2 (\<lambda>a b. variable_of_bool (suffix (var_to_string F b) (var_to_string F a)))"

definition fn_lines :: "'f expr_fn" where
  "fn_lines = with_arg (\<lambda>a. case a of VString s \<Rightarrow> VArray (map VString (lines s)) | val \<Rightarrow> val)"

definition usize_or_default :: "usize option \<Rightarrow> nat" where
  "usize_or_default n = (case n of Some w \<Rightarrow> unat w | None \<Rightarrow> 0)"

definition fn_substring :: "('f, 'z) float_ops_scheme \<Rightarrow> 'f expr_fn" where
  "fn_substring F = with_arg3 (\<lambda>a from len.
     VString (concat (take (usize_or_default (to_usize F len))
       (drop (usize_or_default (to_usize F from)) (chars (var_to_string F a))))))"

definition string_or_default :: "string option \<Rightarrow> 'f variable" where
  "string_or_default s = (case s of Some t \<Rightarrow> VString t | None \<Rightarrow> default_variable)"

definition fn_strip_prefix :: "('f, 'z) float_ops_scheme \<Rightarrow> 'f expr_fn" where
  "fn_strip_prefix F = with_arg2 (\<lambda>a b.
     transform F (\<lambda>s. string_or_default (strip_prefix s (var_to_string F b))) a)"

definition fn_strip_suffix :: "('f, 'z) float_ops_scheme \<Rightarrow> 'f expr_fn" where
  "fn_strip_suffix F = with_arg2 (\<lambda>a b.
     transform F (\<lambda>s. string_or_default (strip_suffix s (var_to_string F b))) a)"

definition fn_split :: "('f, 'z) float_ops_scheme \<Rightarrow> 'f expr_fn" where
  "fn_split F = with_arg2 (\<lambda>a b. VArray (map VString (str_split (var_to_string F a) (var_to_string F b))))"

definition fn_rsplit :: "('f, 'z) float_ops_scheme \<Rightarrow> 'f expr_fn" where
  "fn_rsplit F = with_arg2 (\<lambda>a b. VArray (map VString (str_rsplit (var_to_string F a) (var_to_string F b))))"

text \<open>
  The loop of \<open>split_n\<close> runs at most \<open>num\<close> times, and no more than once per character plus one
  when it makes progress; with an empty separator it runs exactly \<open>num\<close> times.
\<close>

fun split_n :: "nat \<Rightarrow> string \<Rightarrow> string \<Rightarrow> string list" where
  "split_n 0 s pat = [s]"
| "split_n (Suc num) s pat =
     (case split_once s pat of
        Some (a, b) \<Rightarrow> a # split_n num b pat
      | None \<Rightarrow> [s])"

definition fn_split_n :: "('f, 'z) float_ops_scheme \<Rightarrow> 'f expr_fn" where
  "fn_split_n F = with_arg3 (\<lambda>a b n.
     VArray (map VString (split_n (usize_or_default (to_integer F n)) (var_to_string F a) (var_to_string F b))))"

definition pair_or_default :: "(string \<times> string) option \<Rightarrow> 'f variable" where
  "pair_or_default p =
     (case p of Some (a, b) \<Rightarrow> VArray [VString a, VString b] | None \<Rightarrow> default_variable)"

definition fn_split_once :: "('f, 'z) float_ops_scheme \<Rightarrow> 'f expr_fn" where
  "fn_split_once F = with_arg2 (\<lambda>a b. pair_or_default (split_once (var_to_string F a) (var_to_string F b)))"

definition fn_rsplit_once :: "('f, 'z) float_ops_scheme \<Rightarrow> 'f expr_fn" where
  "fn_rsplit_once F = with_arg2 (\<lambda>a b. pair_or_default (rsplit_once (var_to_string F a) (var_to_string F b)))"

definition fn_hash :: "('f, 'z) expr_ops_scheme \<Rightarrow> 'f expr_fn" where
  "fn_hash F = with_arg2 (\<lambda>a b.
     let input = var_to_string F a; algo = var_to_string F b in
     if algo = ''md5'' then VString (x_md5 F input)
     else if algo = ''sha1'' then VString (x_sha1 F input)
     else if algo = ''sha256'' then VString (x_sha256 F input)
     else if algo = ''sha512'' then VString (x_sha512 F input)
     else default_variable)"

section \<open>The table\<close>

definition FUNCTIONS :: "('f, 'z) expr_ops_scheme \<Rightarrow> (string \<times> 'f expr_fn \<times> u32) list" where
  "FUNCTIONS F =
    [(''count'', fn_count, 1),
     (''sort'', fn_sort F, 2),
     (''dedup'', fn_dedup F, 1),
     (''winnow'', fn_winnow, 1),
     (''is_intersect'', fn_is_intersect F, 2),
     (''is_email'', fn_is_email F, 1),
     (''email_part'', fn_email_part F, 2),
     (''is_empty'', fn_is_empty, 1),
     (''is_number'', fn_is_number, 1),
     (''is_ip_addr'', fn_is_ip_addr F, 1),
     (''is_ipv4_addr'', fn_is_ipv4_addr F, 1),
     (''is_ipv6_addr'', fn_is_ipv6_addr F, 1),
     (''ip_reverse_name'', fn_ip_reverse_name F, 1),
     (''trim'', fn_trim F, 1),
     (''trim_end'', fn_trim_end F, 1),
     (''trim_start'', fn_trim_start F, 1),
     (''len'', fn_len F, 1),
     (''to_lowercase'', fn_to_lowercase F, 1),
     (''to_uppercase'', fn_to_uppercase F, 1),
     (''is_uppercase'', fn_is_uppercase F, 1),
     (''is_lowercase'', fn_is_lowercase F, 1),
     (''has_digits'', fn_has_digits F, 1),
     (''count_spaces'', fn_count_spaces F, 1),
     (''count_uppercase'', fn_count_uppercase F, 1),
     (''count_lowercase'', fn_count_lowercase F, 1),
     (''count_chars'', fn_count_chars F, 1),
     (''contains'', fn_contains F, 2),
     (''contains_ignore_case'', fn_contains_ignore_case F, 2),
     (''eq_ignore_case'', fn_eq_ignore_case F, 2),
     (''starts_with'', fn_starts_with F, 2),
     (''ends_with'', fn_ends_with F, 2),
     (''lines'', fn_lines, 1),
     (''substring'', fn_substring F, 3),
     (''strip_prefix'', fn_strip_prefix F, 2),
     (''strip_suffix'', fn_strip_suffix F, 2),
     (''split'', fn_split F, 2),
     (''rsplit'', fn_rsplit F, 2),
     (''split_once'', fn_split_once F, 2),
     (''rsplit_once'', fn_rsplit_once F, 2),
     (''split_n'', fn_split_n F, 3),
     (''split_words'', fn_split_words F, 1),
     (''hash'', fn_hash F, 2),
     (''if_then'', fn_if_then F, 3)]"

definition ASYNC_FUNCTIONS :: "(string \<times> u32 \<times> u32) list" where
  "ASYNC_FUNCTIONS =
    [(''is_local_domain'', 0, 2),
     (''is_local_address'', 1, 2),
     (''key_get'', 2, 2),
     (''key_exists'', 3, 2),
     (''key_set'', 4, 3),
     (''counter_incr'', 5, 3),
     (''counter_get'', 6, 2),
     (''dns_query'', 8, 2),
     (''sql_query'', 7, 3)]"

lemma length_FUNCTIONS [simp]: "length (FUNCTIONS F) = 43"
  by (simp add: FUNCTIONS_def)

lemma map_FUNCTIONS:
  "map fst (FUNCTIONS F) = map fst (FUNCTIONS G)" "map (snd \<circ> snd) (FUNCTIONS F) = map (snd \<circ> snd) (FUNCTIONS G)"
  by (simp_all add: FUNCTIONS_def)

text \<open>
  A function of the table does not panic on as many arguments as the table declares, unless the
  sort of the standard library does.
\<close>

definition sort_panics :: "('f, 'z) expr_ops_scheme \<Rightarrow> bool" where
  "sort_panics F \<longleftrightarrow>
     (\<exists>l. x_sort_by F (var_cmp F) l = None \<or> x_sort_by F (\<lambda>x y. var_cmp F y x) l = None)"

lemma fn_sort_total: "length v = 2 \<Longrightarrow> \<not> sort_panics F \<Longrightarrow> fn_sort F v \<noteq> None"
  by (auto simp: fn_sort_def arg_def bind_eq_None_conv sort_panics_def)


lemma with_arg_total:
  "length v = 1 \<Longrightarrow> with_arg f v \<noteq> None"
  "length v = 2 \<Longrightarrow> with_arg2 g v \<noteq> None"
  "length v = 3 \<Longrightarrow> with_arg3 h v \<noteq> None"
  by (simp_all add: with_arg_def with_arg2_def with_arg3_def arg_def bind_eq_None_conv)

lemmas fn_defs =
  fn_count_def fn_dedup_def fn_winnow_def fn_is_intersect_def fn_is_email_def
  fn_email_part_def fn_is_empty_def fn_is_number_def fn_is_ip_addr_def fn_is_ipv4_addr_def
  fn_is_ipv6_addr_def fn_ip_reverse_name_def fn_trim_def fn_trim_end_def fn_trim_start_def
  fn_len_def fn_to_lowercase_def fn_to_uppercase_def fn_is_uppercase_def fn_is_lowercase_def
  fn_has_digits_def fn_count_spaces_def fn_count_uppercase_def fn_count_lowercase_def
  fn_count_chars_def fn_contains_def fn_contains_ignore_case_def fn_eq_ignore_case_def
  fn_starts_with_def fn_ends_with_def fn_lines_def fn_substring_def fn_strip_prefix_def
  fn_strip_suffix_def fn_split_def fn_rsplit_def fn_split_once_def fn_rsplit_once_def
  fn_split_n_def fn_split_words_def fn_hash_def fn_if_then_def

lemma FUNCTIONS_total:
  assumes "(name, f, n) \<in> set (FUNCTIONS F)" and "length v = unat n" and "\<not> sort_panics F"
  shows "f v \<noteq> None"
proof -
  have "list_all (\<lambda>(name, f, n). \<forall>v. length v = unat n \<longrightarrow> f v \<noteq> None) (FUNCTIONS F)"
    unfolding FUNCTIONS_def fn_defs using assms(3) by (simp del: not_None_eq add: with_arg_total fn_sort_total)
  with assms show ?thesis by (auto simp: list_all_iff)
qed

end
