(* ===== verification/ExprAsync.thy ===== *)
theory ExprAsync
  imports Bytes ExprFunctions
begin

text \<open>
  The functions of the expression language that ask other parts of the server
  (\<open>crates/common/src/expr/functions/asynch.rs\<close>): directories, key-value stores, SQL stores and DNS.

  The services themselves are the record \<open>services\<close> of functions over the outside world \<open>'s\<close>, which
  each call may change; a service answers with a value or with an error text.  What is modelled is
  how a function reads its arguments, which service it asks with them, and how the answer becomes
  a value of the language.  Reading an argument that is missing (\<open>FncParams::next\<close> and its variants
  unwrap the iterator) is the error \<open>EvalPanic\<close>.

  The lemma at the end shows that none of these functions reads more arguments than its entry in
  \<open>ASYNC_FUNCTIONS\<close> declares.
\<close>

datatype eval_error = EvalError string | EvalPanic

datatype rcpt_type = RcptMailbox | RcptList "string list" | RcptInvalid

datatype 'f store_value =
  SvInteger i64 | SvBool bool | SvFloat 'f | SvText string | SvBlob bytes | SvNull

datatype 'f stored = StoredBytes bytes | StoredValue "'f store_value"

type_synonym ('a, 's) service = "'s \<Rightarrow> (string + 'a) \<times> 's"

record ('f, 's) services =
  sv_is_local_domain :: "string \<Rightarrow> string \<Rightarrow> (bool, 's) service"
  sv_rcpt :: "string \<Rightarrow> string \<Rightarrow> (rcpt_type, 's) service"
  sv_key_get :: "string \<Rightarrow> string \<Rightarrow> ('f stored option, 's) service"
  sv_key_exists :: "string \<Rightarrow> string \<Rightarrow> (bool, 's) service"
  sv_key_set :: "string \<Rightarrow> string \<Rightarrow> string \<Rightarrow> (unit, 's) service"
  sv_counter_incr :: "string \<Rightarrow> string \<Rightarrow> i64 \<Rightarrow> (i64, 's) service"
  sv_counter_get :: "string \<Rightarrow> string \<Rightarrow> (i64, 's) service"
  sv_sql_rows :: "string \<Rightarrow> string \<Rightarrow> 'f store_value list \<Rightarrow> ('f store_value list list, 's) service"
  sv_sql_execute :: "string \<Rightarrow> string \<Rightarrow> 'f store_value list \<Rightarrow> (nat, 's) service"
  sv_ip_lookup :: "string \<Rightarrow> (string list, 's) service"
  sv_mx_lookup :: "string \<Rightarrow> (string list list, 's) service"
  sv_txt_raw_lookup :: "string \<Rightarrow> (bytes, 's) service"
  sv_ptr_lookup :: "ip_addr \<Rightarrow> (string list, 's) service"
  sv_ipv4_lookup :: "string \<Rightarrow> (string list, 's) service"
  sv_ipv6_lookup :: "string \<Rightarrow> (string list, 's) service"

section \<open>Values of the stores\<close>

definition from_utf8_or_lossy :: "bytes \<Rightarrow> string" where
  "from_utf8_or_lossy bs = unstr (if is_utf8 bs then bs else from_utf8_lossy bs)"

fun to_store_value :: "('f, 'z) float_ops_scheme \<Rightarrow> 'f variable \<Rightarrow> 'f store_value" where
  "to_store_value F (VString s) = SvText s"
| "to_store_value F (VInteger i) = SvInteger i"
| "to_store_value F (VFloat f) = SvFloat f"
| "to_store_value F v = SvText (var_to_string F v)"

fun into_variable :: "'f store_value \<Rightarrow> 'f variable" where
  "into_variable (SvInteger i) = VInteger i"
| "into_variable (SvBool b) = VInteger (if b then 1 else 0)"
| "into_variable (SvFloat f) = VFloat f"
| "into_variable (SvText s) = VString s"
| "into_variable (SvBlob bs) = VString (from_utf8_or_lossy bs)"
| "into_variable SvNull = default_variable"

fun variable_wrapper :: "'f stored \<Rightarrow> 'f variable" where
  "variable_wrapper (StoredBytes bs) = VString (unstr (from_utf8_lossy bs))"
| "variable_wrapper (StoredValue (SvInteger i)) = VInteger i"
| "variable_wrapper (StoredValue (SvBool b)) = VInteger (if b then 1 else 0)"
| "variable_wrapper (StoredValue (SvFloat f)) = VFloat f"
| "variable_wrapper (StoredValue (SvText s)) = VString s"
| "variable_wrapper (StoredValue (SvBlob bs)) = VString (unstr (from_utf8_lossy bs))"
| "variable_wrapper (StoredValue SvNull) = VString []"

section \<open>The functions\<close>

type_synonym ('f, 's) outcome = "(eval_error + 'f variable) \<times> 's"

definition answered :: "('a \<Rightarrow> 'f variable) \<Rightarrow> (string + 'a) \<times> 's \<Rightarrow> ('f, 's) outcome" where
  "answered f r = (map_sum EvalError f (fst r), snd r)"

text \<open>Two parameters are read as strings, or the iterator is at its end and the read panics.\<close>

definition with_params ::
    "('f, 'z) float_ops_scheme \<Rightarrow> (string \<Rightarrow> string \<Rightarrow> 'f variable list \<Rightarrow> 's \<Rightarrow> ('f, 's) outcome) \<Rightarrow>
     'f variable list \<Rightarrow> 's \<Rightarrow> ('f, 's) outcome" where
  "with_params F k params w =
     (case params of
        a # b # rest \<Rightarrow> k (var_to_string F a) (var_to_string F b) rest w
      | _ \<Rightarrow> (Inl EvalPanic, w))"

definition with_next ::
    "('f variable \<Rightarrow> 's \<Rightarrow> ('f, 's) outcome) \<Rightarrow> 'f variable list \<Rightarrow> 's \<Rightarrow> ('f, 's) outcome" where
  "with_next k params w = (case params of v # _ \<Rightarrow> k v w | [] \<Rightarrow> (Inl EvalPanic, w))"

definition rows_value :: "'f store_value list list \<Rightarrow> 'f variable" where
  "rows_value rows =
     (case rows of
        [] \<Rightarrow> default_variable
      | [row] \<Rightarrow>
          (case row of
             [] \<Rightarrow> default_variable
           | [v] \<Rightarrow> if v \<noteq> SvNull then into_variable v else VArray (map into_variable row)
           | _ \<Rightarrow> VArray (map into_variable row))
      | _ \<Rightarrow> VArray (map (\<lambda>row. VArray (map into_variable row)) rows))"

definition is_select :: "string \<Rightarrow> bool" where
  "is_select query =
     (6 \<le> length query \<and> ExprFunctions.eq_ignore_ascii_case (take 6 query) ''SELECT'')"

definition sql_query ::
    "('f, 'z) float_ops_scheme \<Rightarrow> ('f, 's) services \<Rightarrow> 'f variable list \<Rightarrow> 's \<Rightarrow> ('f, 's) outcome" where
  "sql_query F S = with_params F (\<lambda>store query rest w.
     if query = [] then (Inl (EvalError ''Empty query string''), w)
     else with_next (\<lambda>v w.
       let arguments = (case v of VArray l \<Rightarrow> map (to_store_value F) l | _ \<Rightarrow> [to_store_value F v])
       in if is_select query then answered rows_value (sv_sql_rows S store query arguments w)
          else answered variable_of_usize (sv_sql_execute S store query arguments w)) rest w)"

definition host_name :: "string \<Rightarrow> string" where
  "host_name host = (case strip_suffix host ''.'' of Some h \<Rightarrow> h | None \<Rightarrow> host)"

definition strings_value :: "string list \<Rightarrow> 'f variable" where
  "strings_value l = VArray (map VString l)"

definition dns_query ::
    "('f, 'z) expr_ops_scheme \<Rightarrow> ('f, 's) services \<Rightarrow> 'f variable list \<Rightarrow> 's \<Rightarrow> ('f, 's) outcome" where
  "dns_query F S = with_params F (\<lambda>entry record_type rest w.
     let is_type = ExprFunctions.eq_ignore_ascii_case record_type in
     if is_type ''ip'' then answered strings_value (sv_ip_lookup S entry w)
     else if is_type ''mx'' then
       answered (\<lambda>result. strings_value (map host_name (concat result))) (sv_mx_lookup S entry w)
     else if is_type ''txt'' then
       answered (\<lambda>result. VString (if is_utf8 result then unstr result else []))
         (sv_txt_raw_lookup S entry w)
     else if is_type ''ptr'' then
       (case x_parse_ip F entry of
          None \<Rightarrow> (Inl (EvalError ''Failed to parse IP address''), w)
        | Some ip \<Rightarrow> answered strings_value (sv_ptr_lookup S ip w))
     else if is_type ''ipv4'' then answered strings_value (sv_ipv4_lookup S entry w)
     else if is_type ''ipv6'' then answered strings_value (sv_ipv6_lookup S entry w)
     else (Inr default_variable, w))"

abbreviation F_IS_LOCAL_DOMAIN :: u32 where "F_IS_LOCAL_DOMAIN \<equiv> 0"
abbreviation F_IS_LOCAL_ADDRESS :: u32 where "F_IS_LOCAL_ADDRESS \<equiv> 1"
abbreviation F_KEY_GET :: u32 where "F_KEY_GET \<equiv> 2"
abbreviation F_KEY_EXISTS :: u32 where "F_KEY_EXISTS \<equiv> 3"
abbreviation F_KEY_SET :: u32 where "F_KEY_SET \<equiv> 4"
abbreviation F_COUNTER_INCR :: u32 where "F_COUNTER_INCR \<equiv> 5"
abbreviation F_COUNTER_GET :: u32 where "F_COUNTER_GET \<equiv> 6"
abbreviation F_SQL_QUERY :: u32 where "F_SQL_QUERY \<equiv> 7"
abbreviation F_DNS_QUERY :: u32 where "F_DNS_QUERY \<equiv> 8"

definition eval_fnc ::
    "('f, 'z) expr_ops_scheme \<Rightarrow> ('f, 's) services \<Rightarrow> u32 \<Rightarrow> 'f variable list \<Rightarrow> 's \<Rightarrow> ('f, 's) outcome" where
  "eval_fnc F S fnc_id params w =
     (if fnc_id = F_IS_LOCAL_DOMAIN then
        with_params F (\<lambda>directory domain _ w.
          answered variable_of_bool (sv_is_local_domain S directory domain w)) params w
      else if fnc_id = F_IS_LOCAL_ADDRESS then
        with_params F (\<lambda>directory address _ w.
          answered (\<lambda>v. variable_of_bool (v \<noteq> RcptInvalid)) (sv_rcpt S directory address w)) params w
      else if fnc_id = F_KEY_GET then
        with_params F (\<lambda>store key _ w.
          answered (\<lambda>v. case v of Some v \<Rightarrow> variable_wrapper v | None \<Rightarrow> default_variable)
            (sv_key_get S store key w)) params w
      else if fnc_id = F_KEY_EXISTS then
        with_params F (\<lambda>store key _ w. answered variable_of_bool (sv_key_exists S store key w)) params w
      else if fnc_id = F_KEY_SET then
        with_params F (\<lambda>store key. with_next (\<lambda>v w.
          answered (\<lambda>_. variable_of_bool True) (sv_key_set S store key (var_to_string F v) w))) params w
      else if fnc_id = F_COUNTER_INCR then
        with_params F (\<lambda>store key. with_next (\<lambda>v w.
          answered VInteger
            (sv_counter_incr S store key (case to_integer F v of Some i \<Rightarrow> i | None \<Rightarrow> 0) w))) params w
      else if fnc_id = F_COUNTER_GET then
        with_params F (\<lambda>store key _ w. answered VInteger (sv_counter_get S store key w)) params w
      else if fnc_id = F_DNS_QUERY then dns_query F S params w
      else if fnc_id = F_SQL_QUERY then sql_query F S params w
      else (Inr default_variable, w))"

section \<open>The declared arguments are enough\<close>

lemma answered_no_panic: "fst (answered f r) \<noteq> Inl EvalPanic"
  by (cases "fst r") (simp_all add: answered_def)

lemma with_params_no_panic:
  assumes "2 \<le> length params" and "\<And>a b w. fst (k a b (drop 2 params) w) \<noteq> Inl EvalPanic"
  shows "fst (with_params F k params w) \<noteq> Inl EvalPanic"
proof -
  obtain a b rest where "params = a # b # rest"
    using assms(1) by (metis One_nat_def Suc_1 length_Cons list.size(3) neq_Nil_conv not_less_eq_eq
        le_zero_eq nat.distinct(1))
  with assms(2) show ?thesis by (simp add: with_params_def)
qed

lemma with_next_no_panic:
  "params \<noteq> [] \<Longrightarrow> (\<And>v w. fst (k v w) \<noteq> Inl EvalPanic) \<Longrightarrow> fst (with_next k params w) \<noteq> Inl EvalPanic"
  by (cases params) (simp_all add: with_next_def)

lemma dns_query_no_panic: "2 \<le> length params \<Longrightarrow> fst (dns_query F S params w) \<noteq> Inl EvalPanic"
  unfolding dns_query_def
  by (rule with_params_no_panic) (auto simp: Let_def answered_no_panic split: option.split)

lemma sql_query_no_panic: "3 \<le> length params \<Longrightarrow> fst (sql_query F S params w) \<noteq> Inl EvalPanic"
  unfolding sql_query_def
  by (rule with_params_no_panic) (auto simp: Let_def answered_no_panic with_next_no_panic)

lemma eval_fnc_no_panic:
  assumes "2 \<le> length params" and "fnc_id \<in> {4, 5, 7} \<Longrightarrow> 3 \<le> length params"
  shows "fst (eval_fnc F S fnc_id params w) \<noteq> Inl EvalPanic"
proof -
  have "drop 2 params \<noteq> []" if "fnc_id \<in> {4, 5}" using assms(2) that by auto
  then show ?thesis
    unfolding eval_fnc_def using assms
    by (simp add: answered_no_panic dns_query_no_panic sql_query_no_panic with_params_no_panic
        with_next_no_panic)
qed

lemma ASYNC_FUNCTIONS_total:
  assumes "(name, i, n) \<in> set ASYNC_FUNCTIONS" and "length params = unat n"
  shows "fst (eval_fnc F S i params w) \<noteq> Inl EvalPanic"
  by (rule eval_fnc_no_panic) (use assms in \<open>auto simp: ASYNC_FUNCTIONS_def\<close>)

lemma eval_fnc_unknown:
  "i \<notin> (fst \<circ> snd) ` set ASYNC_FUNCTIONS \<Longrightarrow> eval_fnc F S i params w = (Inr default_variable, w)"
  by (simp add: eval_fnc_def ASYNC_FUNCTIONS_def)

end
