(* ===== verification/ExprTokenizer.thy ===== *)
theory ExprTokenizer
  imports ExprFunctions
begin

text \<open>
  The tokenizer of the expression language (\<open>crates/common/src/expr/tokenizer.rs\<close>) and the data
  types of tokens and of compiled expressions (\<open>crates/common/src/expr/mod.rs\<close>).

  \<open>tok_next\<close> is \<open>Tokenizer::next\<close>: the tokenizer's state in, the next token and the state out, or
  an error.  The input is a Rust \<open>&str\<close>, so it is valid UTF-8, and it is cut at ASCII bytes only:
  the \<open>String::from_utf8\<close> of \<open>parse_string\<close> and \<open>parse_buf\<close> cannot fail and is the identity here.
  The nesting depth is a natural number: it stays below the length of the input.  The regular
  expression compiler is the parameter \<open>regex_new\<close>.
\<close>

section \<open>Tokens and items\<close>

datatype binary_operator =
    BAdd | BSubtract | BMultiply | BDivide | BAnd | BOr | BXor | BEq | BNe | BLt | BLe | BGt | BGe

datatype unary_operator = UNot | UMinus

datatype setting = SHostname | SReportDomain | SNodeId | SOther string

definition setting_from :: "string \<Rightarrow> setting" where
  "setting_from s =
     (if s = ''server.hostname'' then SHostname
      else if s = ''report.domain'' then SReportDomain
      else if s = ''cluster.node-id'' then SNodeId
      else SOther s)"

datatype ('f, 'r) token =
    TVariable u32
  | TGlobal string
  | TCapture u32
  | TFunction (fn_name: string) (fn_id: u32) (fn_num_args: u32)
  | TConstant "'f Constant"
  | TSetting setting
  | TRegex 'r
  | TBinaryOperator binary_operator
  | TUnaryOperator unary_operator
  | TOpenParen
  | TCloseParen
  | TOpenBracket
  | TCloseBracket
  | TComma

datatype ('f, 'r) expression_item =
    IVariable u32
  | IGlobal string
  | ISetting setting
  | ICapture u32
  | IConstant "'f Constant"
  | IBinaryOperator binary_operator
  | IUnaryOperator unary_operator
  | IRegex 'r
  | IJmpIf bool u32
  | IFunction u32 u32
  | IArrayAccess
  | IArrayBuild u32

datatype expr_error =
    UnmatchedCloseParen
  | UnmatchedOpenParen
  | InvalidCharacter char
  | ExpectedCharacter char
  | UnexpectedEnd
  | UnterminatedString
  | InvalidRegex string
  | InvalidFloat string
  | InvalidInteger string
  | InvalidVariable string
  | MismatchedParentheses
  | WrongArguments string
  | MissingArrayIndex
  | WrongRegexArguments
  | WrongSettingArguments
  | InvalidOperatorStack
  | ParserPanic

section \<open>The token map\<close>

type_synonym ('f, 'r) token_map = "string \<rightharpoonup> ('f, 'r) token"

definition VARIABLES_MAP :: "(string \<times> u32) list" where
  "VARIABLES_MAP =
    [(''rcpt'', 0), (''rcpt_domain'', 1), (''sender'', 2), (''sender_domain'', 3), (''mx'', 4),
     (''helo_domain'', 5), (''authenticated_as'', 6), (''listener'', 7), (''remote_ip'', 8),
     (''local_ip'', 10), (''priority'', 12), (''local_port'', 11), (''remote_port'', 9),
     (''protocol'', 13), (''is_tls'', 14), (''recipients'', 15), (''retry_num'', 16),
     (''notify_num'', 17), (''expires_in'', 18), (''last_status'', 19), (''last_error'', 20),
     (''url'', 21), (''url_path'', 22), (''headers'', 23), (''method'', 24), (''asn'', 25),
     (''country'', 26)]"

definition with_variables :: "u32 list \<Rightarrow> ('f, 'r) token_map \<Rightarrow> ('f, 'r) token_map" where
  "with_variables variables m =
     fold (\<lambda>(name, idx) m. if idx \<in> set variables then m(name \<mapsto> TVariable idx) else m)
       VARIABLES_MAP m"

definition with_all_variables :: "('f, 'r) token_map \<Rightarrow> ('f, 'r) token_map" where
  "with_all_variables =
     with_variables [0, 1, 2, 3, 4, 5, 6, 7, 8, 9, 10, 11, 12, 13, 14, 16, 17, 18, 19, 20, 25, 26]"

definition with_variables_map :: "(string \<times> u32) list \<Rightarrow> ('f, 'r) token_map \<Rightarrow> ('f, 'r) token_map" where
  "with_variables_map vars m = fold (\<lambda>(name, idx) m. m(name \<mapsto> TVariable idx)) vars m"

definition set_constants :: "(string \<times> 'f Constant) list \<Rightarrow> ('f, 'r) token_map \<Rightarrow> ('f, 'r) token_map" where
  "set_constants consts m = fold (\<lambda>(name, c) m. m(name \<mapsto> TConstant c)) consts m"

definition add_constant :: "string \<Rightarrow> 'f Constant \<Rightarrow> ('f, 'r) token_map \<Rightarrow> ('f, 'r) token_map" where
  "add_constant name c m = m(name \<mapsto> TConstant c)"

section \<open>The tokenizer\<close>

record ('f, 'r) token_env = "'f expr_ops" +
  tokens :: "('f, 'r) token_map"
  regex_new :: "string \<Rightarrow> 'r option"

record ('f, 'r) tokenizer =
  iter :: string
  buf :: string
  depth :: nat
  next_token :: "('f, 'r) token list"
  has_number :: bool
  has_dot :: bool
  has_alpha :: bool
  is_start :: bool
  is_eof :: bool

definition tokenizer_new :: "string \<Rightarrow> ('f, 'r) tokenizer" where
  "tokenizer_new expr =
     \<lparr>iter = expr, buf = [], depth = 0, next_token = [], has_number = False, has_dot = False,
      has_alpha = False, is_start = True, is_eof = False\<rparr>"

fun find_char :: "string \<Rightarrow> string \<Rightarrow> expr_error + (char \<times> string)" where
  "find_char wanted [] = Inl UnexpectedEnd"
| "find_char wanted (ch # it) =
     (if \<not> is_ascii_whitespace ch then
        (if ch \<in> set wanted then Inr (ch, it) else Inl (ExpectedCharacter (hd wanted)))
      else find_char wanted it)"

definition unescape :: "char \<Rightarrow> char" where
  "unescape ch =
     (if ch = CHR ''n'' then CHR 0x0A else if ch = CHR ''r'' then CHR 0x0D
      else if ch = CHR ''t'' then CHR 0x09 else ch)"

fun parse_string_loop :: "char \<Rightarrow> char \<Rightarrow> string \<Rightarrow> string \<Rightarrow> expr_error + (string \<times> string)" where
  "parse_string_loop stop_ch last_ch acc [] = Inl UnterminatedString"
| "parse_string_loop stop_ch last_ch acc (ch # it) =
     (if last_ch \<noteq> CHR 0x5C then
        (if ch \<noteq> stop_ch then parse_string_loop stop_ch ch (acc @ [ch]) it else Inr (acc, it))
      else parse_string_loop stop_ch ch (acc @ [unescape ch]) it)"

definition parse_string :: "char \<Rightarrow> string \<Rightarrow> expr_error + (string \<times> string)" where
  "parse_string stop_ch it = parse_string_loop stop_ch (CHR 0x00) [] it"

definition function_token :: "('f, 'r, 'z) token_env_scheme \<Rightarrow> string \<Rightarrow> ('f, 'r) token option" where
  "function_token E name =
     (case position (\<lambda>(n, _, _). n = name) (FUNCTIONS E) of
        Some idx \<Rightarrow> Some (TFunction name (of_nat idx) (snd (snd (FUNCTIONS E ! idx))))
      | None \<Rightarrow>
          (case find (\<lambda>(n, _, _). n = name) ASYNC_FUNCTIONS of
             Some (n, idx, num_args) \<Rightarrow> Some (TFunction n (idx + of_nat (length (FUNCTIONS E))) num_args)
           | None \<Rightarrow> None))"

definition word_token ::
    "('f, 'r, 'z) token_env_scheme \<Rightarrow> bool \<Rightarrow> bool \<Rightarrow> string \<Rightarrow> expr_error + ('f, 'r) token" where
  "word_token E numeric dotted word =
     (if \<not> numeric \<and> \<not> dotted \<and> length word \<in> {4, 5} \<and> word = ''true'' then
        Inr (TConstant (CInteger 1))
      else if \<not> numeric \<and> \<not> dotted \<and> length word \<in> {4, 5} \<and> word = ''false'' then
        Inr (TConstant (CInteger 0))
      else if word \<noteq> [] \<and> hd word = CHR ''$'' \<and> tl word \<noteq> [] then
        Inr (if list_all is_digit (tl word) then
               (case parse_u32 (tl word) of Some n \<Rightarrow> TCapture n | None \<Rightarrow> TGlobal (tl word))
             else TGlobal (tl word))
      else
        (case function_token E word of
           Some t \<Rightarrow> Inr t
         | None \<Rightarrow>
             (case tokens E word of
                Some t \<Rightarrow> Inr t
              | None \<Rightarrow>
                  (case parse_duration word of
                     Some ms \<Rightarrow> Inr (TConstant (CInteger ms))
                   | None \<Rightarrow> Inl (InvalidVariable word)))))"

definition parse_buf ::
    "('f, 'r, 'z) token_env_scheme \<Rightarrow> ('f, 'r) tokenizer \<Rightarrow>
     expr_error + (('f, 'r) token \<times> ('f, 'r) tokenizer)" where
  "parse_buf E t =
     (let s = buf t; t' = t\<lparr>buf := []\<rparr> in
      if has_number t \<and> \<not> has_alpha t then
        (if has_dot t then
           (case f_parse E s of
              Some f \<Rightarrow> Inr (TConstant (CFloat f), t'\<lparr>has_number := False, has_dot := False\<rparr>)
            | None \<Rightarrow> Inl (InvalidFloat s))
         else
           (case parse_i64 s of
              Some i \<Rightarrow> Inr (TConstant (CInteger i), t'\<lparr>has_number := False\<rparr>)
            | None \<Rightarrow> Inl (InvalidInteger s)))
      else
        (case word_token E (has_number t) (has_dot t) s of
           Inl e \<Rightarrow> Inl e
         | Inr tok \<Rightarrow> Inr (tok, t'\<lparr>has_alpha := False, has_number := False, has_dot := False\<rparr>)))"

text \<open>
  The part of the catch-all arm before the character itself is looked at: the token of the
  characters gathered so far, where \<open>matches(\<close> and \<open>config_get(\<close> read their literal first.
\<close>

definition prev_token ::
    "('f, 'r, 'z) token_env_scheme \<Rightarrow> char \<Rightarrow> ('f, 'r) tokenizer \<Rightarrow>
     expr_error + (('f, 'r) token option \<times> ('f, 'r) tokenizer)" where
  "prev_token E ch t =
     (if ch = CHR ''('' \<and> buf t = ''matches'' then
        (case find_char [CHR 0x22, CHR 0x27] (iter t) of
           Inl e \<Rightarrow> Inl e
         | Inr (stop_ch, it) \<Rightarrow>
             (case parse_string stop_ch it of
                Inl e \<Rightarrow> Inl e
              | Inr (regex_str, it') \<Rightarrow>
                  (case regex_new E regex_str of
                     None \<Rightarrow> Inl (InvalidRegex regex_str)
                   | Some regex \<Rightarrow>
                       (case find_char '','' it' of
                          Inl e \<Rightarrow> Inl e
                        | Inr (_, it'') \<Rightarrow>
                            Inr (Some (TRegex regex), t\<lparr>iter := it'', has_alpha := False, buf := []\<rparr>)))))
      else if ch = CHR ''('' \<and> buf t = ''config_get'' then
        (case find_char [CHR 0x22, CHR 0x27] (iter t) of
           Inl e \<Rightarrow> Inl e
         | Inr (stop_ch, it) \<Rightarrow>
             (case parse_string stop_ch it of
                Inl e \<Rightarrow> Inl e
              | Inr (setting_str, it') \<Rightarrow>
                  Inr (Some (TSetting (setting_from setting_str)),
                       t\<lparr>iter := it', has_alpha := False, buf := []\<rparr>)))
      else if buf t \<noteq> [] then
        (case parse_buf E (t\<lparr>is_start := False\<rparr>) of
           Inl e \<Rightarrow> Inl e
         | Inr (tok, t') \<Rightarrow> Inr (Some tok, t'))
      else Inr (None, t))"

text \<open>The token of the character itself; \<open>None\<close> for white space.\<close>

definition skip_if :: "char \<Rightarrow> ('f, 'r) tokenizer \<Rightarrow> bool \<times> ('f, 'r) tokenizer" where
  "skip_if c t =
     (case iter t of
        x # xs \<Rightarrow> if x = c then (True, t\<lparr>iter := xs\<rparr>) else (False, t)
      | [] \<Rightarrow> (False, t))"

definition symbol_token ::
    "char \<Rightarrow> ('f, 'r) tokenizer \<Rightarrow> expr_error + (('f, 'r) token option \<times> ('f, 'r) tokenizer)" where
  "symbol_token ch t =
     (if ch = CHR ''&'' then Inr (Some (TBinaryOperator BAnd), snd (skip_if (CHR ''&'') t))
      else if ch = CHR ''|'' then Inr (Some (TBinaryOperator BOr), snd (skip_if (CHR ''|'') t))
      else if ch = CHR ''!'' then
        (let (ne, t') = skip_if (CHR ''='') t
         in Inr (Some (if ne then TBinaryOperator BNe else TUnaryOperator UNot), t'))
      else if ch = CHR ''^'' then Inr (Some (TBinaryOperator BXor), t)
      else if ch = CHR ''('' then Inr (Some TOpenParen, t\<lparr>depth := depth t + 1\<rparr>)
      else if ch = CHR '')'' then
        (if depth t = 0 then Inl UnmatchedCloseParen
         else Inr (Some TCloseParen, t\<lparr>depth := depth t - 1\<rparr>))
      else if ch = CHR ''+'' then Inr (Some (TBinaryOperator BAdd), t)
      else if ch = CHR ''*'' then Inr (Some (TBinaryOperator BMultiply), t)
      else if ch = CHR ''/'' then Inr (Some (TBinaryOperator BDivide), t)
      else if ch = CHR ''-'' then
        Inr (Some (if is_start t then TUnaryOperator UMinus else TBinaryOperator BSubtract), t)
      else if ch = CHR ''='' then
        (case iter t of
           c # it \<Rightarrow>
             Inr (Some (TBinaryOperator
                    (if c = CHR ''='' then BEq else if c = CHR ''>'' then BGe
                     else if c = CHR ''<'' then BLe else BEq)), t\<lparr>iter := it\<rparr>)
         | [] \<Rightarrow> Inr (Some (TBinaryOperator BEq), t))
      else if ch = CHR ''>'' then
        (let (ge, t') = skip_if (CHR ''='') t
         in Inr (Some (TBinaryOperator (if ge then BGe else BGt)), t'))
      else if ch = CHR ''<'' then
        (let (le, t') = skip_if (CHR ''='') t
         in Inr (Some (TBinaryOperator (if le then BLe else BLt)), t'))
      else if ch = CHR '','' then Inr (Some TComma, t)
      else if ch = CHR ''['' then Inr (Some TOpenBracket, t)
      else if ch = CHR '']'' then Inr (Some TCloseBracket, t)
      else if ch \<in> {CHR 0x20, CHR 0x0D, CHR 0x0A} then Inr (None, t)
      else if ch = CHR 0x22 \<or> ch = CHR 0x27 then
        (case parse_string ch (iter t) of
           Inl e \<Rightarrow> Inl e
         | Inr (s, it) \<Rightarrow> Inr (Some (TConstant (CString s)), t\<lparr>iter := it\<rparr>))
      else Inl (InvalidCharacter ch))"

fun starts_operand :: "('f, 'r) token \<Rightarrow> bool" where
  "starts_operand TOpenParen = True"
| "starts_operand TComma = True"
| "starts_operand (TBinaryOperator _) = True"
| "starts_operand _ = False"

definition tok_end ::
    "('f, 'r, 'z) token_env_scheme \<Rightarrow> ('f, 'r) tokenizer \<Rightarrow>
     expr_error + (('f, 'r) token option \<times> ('f, 'r) tokenizer)" where
  "tok_end E t =
     (if depth t > 0 then Inl UnmatchedOpenParen
      else if buf t \<noteq> [] then
        (case parse_buf E t of Inl e \<Rightarrow> Inl e | Inr (tok, t') \<Rightarrow> Inr (Some tok, t'))
      else Inr (None, t))"

definition is_word_char :: "char \<Rightarrow> bool" where
  "is_word_char c =
     (let n = (of_char c :: nat) in
      (65 \<le> n \<and> n \<le> 90) \<or> (97 \<le> n \<and> n \<le> 122) \<or> c = CHR ''_'' \<or> c = CHR ''$'')"

definition continues_word :: "char \<Rightarrow> string \<Rightarrow> bool" where
  "continues_word ch b =
     ((ch = CHR ''-'' \<and> b \<noteq> [] \<and> last b = CHR ''['') \<or>
      (ch = CHR '':'' \<and> CHR ''.'' \<in> set b) \<or>
      (ch = CHR '']'' \<and> CHR ''['' \<in> set b) \<or>
      (ch = CHR ''*'' \<and> b \<noteq> [] \<and> (last b = CHR ''['' \<or> last b = CHR ''.'')))"

fun tok_loop ::
    "('f, 'r, 'z) token_env_scheme \<Rightarrow> ('f, 'r) tokenizer \<Rightarrow> string \<Rightarrow>
     expr_error + (('f, 'r) token option \<times> ('f, 'r) tokenizer)" where
  "tok_loop E t [] = tok_end E (t\<lparr>iter := []\<rparr>)"
| "tok_loop E t (ch # rest) =
     (if is_word_char ch then tok_loop E (t\<lparr>buf := buf t @ [ch], has_alpha := True\<rparr>) rest
      else if is_digit ch then tok_loop E (t\<lparr>buf := buf t @ [ch], has_number := True\<rparr>) rest
      else if ch = CHR ''.'' then tok_loop E (t\<lparr>buf := buf t @ [ch], has_dot := True\<rparr>) rest
      else if ch = CHR ''}'' then tok_end E (t\<lparr>iter := rest, is_eof := True\<rparr>)
      else if continues_word ch (buf t) then tok_loop E (t\<lparr>buf := buf t @ [ch]\<rparr>) rest
      else
        (case prev_token E ch (t\<lparr>iter := rest\<rparr>) of
           Inl e \<Rightarrow> Inl e
         | Inr (prev, t1) \<Rightarrow>
             (case symbol_token ch t1 of
                Inl e \<Rightarrow> Inl e
              | Inr (None, t2) \<Rightarrow>
                  (case prev of
                     Some tok \<Rightarrow> Inr (Some tok, t2)
                   | None \<Rightarrow> tok_loop E t2 rest)
              | Inr (Some tok, t2) \<Rightarrow>
                  (let t3 = t2\<lparr>is_start := starts_operand tok\<rparr> in
                   case prev of
                     Some p \<Rightarrow> Inr (Some p, t3\<lparr>next_token := tok # next_token t3\<rparr>)
                   | None \<Rightarrow> Inr (Some tok, t3)))))"

definition tok_next ::
    "('f, 'r, 'z) token_env_scheme \<Rightarrow> ('f, 'r) tokenizer \<Rightarrow>
     expr_error + (('f, 'r) token option \<times> ('f, 'r) tokenizer)" where
  "tok_next E t =
     (case next_token t of
        tok # toks \<Rightarrow> Inr (Some tok, t\<lparr>next_token := toks\<rparr>)
      | [] \<Rightarrow> if is_eof t then Inr (None, t) else tok_loop E t (iter t))"

section \<open>Progress\<close>

text \<open>
  Every token returned uses up input: what is left to read, what is gathered and what is queued
  shrinks together, so the parser's loop over the tokens ends on every input.
\<close>

definition pending :: "('f, 'r) tokenizer \<Rightarrow> nat" where
  "pending t = 2 * length (iter t) + 2 * length (buf t) + length (next_token t)"

lemma find_char_shorter: "find_char cs it = Inr (c, it') \<Longrightarrow> length it' < length it"
  by (induction cs it rule: find_char.induct) (auto split: if_splits)

lemma parse_string_loop_shorter:
  "parse_string_loop stop l b it = Inr (s, it') \<Longrightarrow> length it' < length it"
  by (induction stop l b it rule: parse_string_loop.induct) (auto split: if_splits)

lemmas parse_string_shorter = parse_string_loop_shorter [of _ "CHR 0x00" "[]", folded parse_string_def]

lemma parse_buf_frame:
  "parse_buf E t = Inr (tok, t') \<Longrightarrow>
   iter t' = iter t \<and> buf t' = [] \<and> next_token t' = next_token t \<and> depth t' = depth t \<and>
   is_eof t' = is_eof t \<and> is_start t' = is_start t"
  by (auto simp: parse_buf_def Let_def split: if_splits option.splits sum.splits)

lemma prev_token_frame:
  "prev_token E ch t = Inr (prev, t') \<Longrightarrow>
   length (iter t') \<le> length (iter t) \<and> buf t' = [] \<and> next_token t' = next_token t \<and>
   is_eof t' = is_eof t \<and> (prev = None \<longrightarrow> t' = t) \<and> (prev \<noteq> None \<longrightarrow> buf t \<noteq> [])"
  unfolding prev_token_def
  by (auto split: if_splits sum.splits option.splits prod.splits
        dest!: find_char_shorter parse_string_shorter parse_buf_frame)

definition symbol_ok :: "('f, 'r) tokenizer \<Rightarrow> expr_error + (('f, 'r) token option \<times> ('f, 'r) tokenizer) \<Rightarrow> bool" where
  "symbol_ok t r =
     (case r of
        Inl _ \<Rightarrow> True
      | Inr (tok, t') \<Rightarrow>
          length (iter t') \<le> length (iter t) \<and> buf t' = buf t \<and> next_token t' = next_token t \<and>
          is_eof t' = is_eof t \<and> (tok = None \<longrightarrow> t' = t))"

lemma symbol_ok_if: "symbol_ok t x \<Longrightarrow> symbol_ok t y \<Longrightarrow> symbol_ok t (if b then x else y)"
  by simp

lemma symbol_ok_skip:
  "symbol_ok t (Inr (Some s, snd (skip_if c t)))"
  "symbol_ok t (let (b, t') = skip_if c t in Inr (Some (g b), t'))"
  by (auto simp: symbol_ok_def skip_if_def split: list.splits)

lemma symbol_ok_token: "symbol_ok t (symbol_token ch t)"
  unfolding symbol_token_def
  by (intro symbol_ok_if symbol_ok_skip)
     (auto simp: symbol_ok_def split: list.splits sum.splits prod.splits dest: parse_string_shorter)

lemma symbol_token_frame:
  "symbol_token ch t = Inr (tok, t') \<Longrightarrow>
   length (iter t') \<le> length (iter t) \<and> buf t' = buf t \<and> next_token t' = next_token t \<and>
   is_eof t' = is_eof t \<and> (tok = None \<longrightarrow> t' = t)"
  using symbol_ok_token [of t ch] by (simp add: symbol_ok_def)

lemma tok_loop_progress:
  "tok_loop E t it = Inr (Some tok, t') \<Longrightarrow> next_token t = [] \<Longrightarrow>
   pending t' < 2 * length it + 2 * length (buf t)"
proof (induction E t it rule: tok_loop.induct)
  case (1 E t)
  then show ?case
    by (auto simp: tok_end_def pending_def split: if_splits sum.splits dest!: parse_buf_frame)
next
  case (2 E t ch rest)
  let ?sym = "\<not> is_word_char ch \<and> \<not> is_digit ch \<and> ch \<noteq> CHR ''.'' \<and> ch \<noteq> CHR ''}'' \<and>
    \<not> continues_word ch (buf t)"
  show ?case
  proof (cases ?sym)
    case False
    with 2 show ?thesis
      by (auto simp: tok_end_def pending_def split: if_splits sum.splits dest!: parse_buf_frame)
  next
    case sym: True
    with "2.prems" obtain prev t1 where prev: "prev_token E ch (t\<lparr>iter := rest\<rparr>) = Inr (prev, t1)"
      by (auto split: sum.splits)
    with sym "2.prems" obtain sy t2 where sy: "symbol_token ch t1 = Inr (sy, t2)"
      by (auto split: sum.splits)
    note fr = prev_token_frame [OF prev] symbol_token_frame [OF sy]
    show ?thesis
    proof (cases sy)
      case None
      show ?thesis
      proof (cases prev)
        case prevNone: None
        with None fr have "t2 = t\<lparr>iter := rest\<rparr>" by simp
        with 2 sym prev sy None prevNone fr show ?thesis by fastforce
      next
        case (Some p)
        with "2.prems" sym prev sy None fr show ?thesis
          by (cases "buf t") (auto simp: pending_def)
      qed
    next
      case (Some s)
      with "2.prems" sym prev sy fr show ?thesis
        by (cases prev; cases "buf t") (auto simp: pending_def Let_def)
    qed
  qed
qed

lemma tok_next_progress:
  assumes "tok_next E t = Inr (Some tok, t')"
  shows "pending t' < pending t"
proof (cases "next_token t")
  case Nil
  with assms have "tok_loop E t (iter t) = Inr (Some tok, t')"
    by (simp add: tok_next_def split: if_splits)
  from tok_loop_progress [OF this Nil] show ?thesis by (simp add: pending_def)
next
  case (Cons a as)
  with assms show ?thesis by (auto simp: tok_next_def pending_def)
qed

end
