(* ===== verification/ExprParser.thy ===== *)
theory ExprParser
  imports ExprTokenizer
begin

text \<open>
  The expression parser (\<open>crates/common/src/expr/parser.rs\<close>): a shunting-yard translation of the
  token stream into a postfix program with conditional jumps for the short-circuit operators.

  The operator stack and the stack of argument counts are lists whose head is the top.  An
  \<open>unwrap\<close> of nothing and an index beyond the output are the error \<open>ParserPanic\<close>.  Argument
  counts are \<open>i32\<close> values with the saturating operations written out.
\<close>

section \<open>The parser\<close>

definition ID_ARRAY_ACCESS :: u32 where "ID_ARRAY_ACCESS = 0xFFFFFFFF"
definition ID_ARRAY_BUILD :: u32 where "ID_ARRAY_BUILD = 0xFFFFFFFE"

fun precedence :: "binary_operator \<Rightarrow> int" where
  "precedence BMultiply = 7"
| "precedence BDivide = 7"
| "precedence BAdd = 6"
| "precedence BSubtract = 6"
| "precedence BGt = 5"
| "precedence BGe = 5"
| "precedence BLt = 5"
| "precedence BLe = 5"
| "precedence BEq = 4"
| "precedence BNe = 4"
| "precedence BXor = 3"
| "precedence BAnd = 2"
| "precedence BOr = 1"

type_synonym ('f, 'r) items = "('f, 'r) expression_item list"
type_synonym ('f, 'r) op_stack = "(('f, 'r) token \<times> nat option) list"

record ('f, 'r) parser =
  out_items :: "('f, 'r) items"
  operator_stack :: "('f, 'r) op_stack"
  arg_count :: "int list"
  last_is_var_or_fnc :: bool

definition parser_new :: "('f, 'r) parser" where
  "parser_new = \<lparr>out_items = [], operator_stack = [], arg_count = [], last_is_var_or_fnc = False\<rparr>"

definition inc_i32 :: "int \<Rightarrow> int" where "inc_i32 x = min (2 ^ 31 - 1) (x + 1)"
definition dec_i32 :: "int \<Rightarrow> int" where "dec_i32 x = max (- (2 ^ 31)) (x - 1)"

text \<open>
  \<open>inc_arg_count\<close> also counts the items of an array literal, whose pseudo function sits right
  below the top of the operator stack (or at the bottom of a stack of one).
\<close>

fun bump_build :: "('f, 'r) op_stack \<Rightarrow> ('f, 'r) op_stack" where
  "bump_build (x # (TFunction name fid n, j) # st) =
     (if fid = ID_ARRAY_BUILD then x # (TFunction name fid (n + 1), j) # st
      else x # (TFunction name fid n, j) # st)"
| "bump_build [(TFunction name fid n, j)] =
     (if fid = ID_ARRAY_BUILD then [(TFunction name fid (n + 1), j)] else [(TFunction name fid n, j)])"
| "bump_build st = st"

definition inc_arg_count :: "('f, 'r) parser \<Rightarrow> ('f, 'r) parser" where
  "inc_arg_count p =
     (case arg_count p of
        x # xs \<Rightarrow> p\<lparr>arg_count := inc_i32 x # xs, operator_stack := bump_build (operator_stack p)\<rparr>
      | [] \<Rightarrow> p)"

definition dec_arg_count :: "('f, 'r) parser \<Rightarrow> ('f, 'r) parser" where
  "dec_arg_count p =
     (case arg_count p of x # xs \<Rightarrow> p\<lparr>arg_count := dec_i32 x # xs\<rparr> | [] \<Rightarrow> p)"

definition update_jmp_pos :: "nat option \<Rightarrow> ('f, 'r) items \<Rightarrow> expr_error + ('f, 'r) items" where
  "update_jmp_pos jmp_pos out =
     (case jmp_pos of
        None \<Rightarrow> Inr out
      | Some j \<Rightarrow>
          if j < length out then
            (case out ! j of
               IJmpIf v _ \<Rightarrow> Inr (out[j := IJmpIf v (of_nat (length out - j))])
             | _ \<Rightarrow> Inr out)
          else Inl ParserPanic)"

definition emit_binary ::
    "binary_operator \<Rightarrow> nat option \<Rightarrow> ('f, 'r) items \<Rightarrow> expr_error + ('f, 'r) items" where
  "emit_binary bop jmp_pos out =
     (case update_jmp_pos jmp_pos out of Inl e \<Rightarrow> Inl e | Inr out' \<Rightarrow> Inr (out' @ [IBinaryOperator bop]))"

text \<open>The loop of a closing parenthesis or bracket.\<close>

fun close_loop ::
    "('f, 'r) token \<Rightarrow> ('f, 'r) op_stack \<Rightarrow> ('f, 'r) items \<Rightarrow>
     expr_error + (('f, 'r) op_stack \<times> ('f, 'r) items)" where
  "close_loop expect ((TOpenParen, j) # st) out =
     (if expect = TOpenParen then Inr (st, out) else Inl MismatchedParentheses)"
| "close_loop expect ((TOpenBracket, j) # st) out =
     (if expect = TOpenBracket then Inr (st, out) else Inl MismatchedParentheses)"
| "close_loop expect ((TBinaryOperator bop, j) # st) out =
     (case emit_binary bop j out of Inl e \<Rightarrow> Inl e | Inr out' \<Rightarrow> close_loop expect st out')"
| "close_loop expect ((TUnaryOperator uop, j) # st) out =
     close_loop expect st (out @ [IUnaryOperator uop])"
| "close_loop expect _ out = Inl MismatchedParentheses"

definition function_item :: "u32 \<Rightarrow> u32 \<Rightarrow> ('f, 'r) expression_item" where
  "function_item fid num_args =
     (if fid = ID_ARRAY_ACCESS then IArrayAccess
      else if fid = ID_ARRAY_BUILD then IArrayBuild num_args
      else IFunction fid num_args)"

text \<open>What follows the loop: a function, regular expression or setting below the parenthesis.\<close>

definition close_call :: "('f, 'r) parser \<Rightarrow> expr_error + ('f, 'r) parser" where
  "close_call p =
     (case operator_stack p of
        (TFunction name fid num_args, _) # st \<Rightarrow>
          (case arg_count p of
             [] \<Rightarrow> Inl ParserPanic
           | got_args # counts \<Rightarrow>
               if got_args \<noteq> sint num_args then
                 Inl (if fid \<noteq> ID_ARRAY_ACCESS then WrongArguments name else MissingArrayIndex)
               else Inr (p\<lparr>operator_stack := st, arg_count := counts,
                           out_items := out_items p @ [function_item fid num_args]\<rparr>))
      | (TRegex regex, _) # st \<Rightarrow>
          (case arg_count p of
             [] \<Rightarrow> Inl ParserPanic
           | got_args # counts \<Rightarrow>
               if got_args \<noteq> 1 then Inl WrongRegexArguments
               else Inr (p\<lparr>operator_stack := st, arg_count := counts,
                           out_items := out_items p @ [IRegex regex]\<rparr>))
      | (TSetting setting, _) # st \<Rightarrow>
          (case arg_count p of
             [] \<Rightarrow> Inl ParserPanic
           | got_args # counts \<Rightarrow>
               if got_args \<noteq> 0 then Inl WrongSettingArguments
               else Inr (p\<lparr>operator_stack := st, arg_count := counts,
                           out_items := out_items p @ [ISetting setting]\<rparr>))
      | _ \<Rightarrow> Inr p)"

definition parse_close :: "('f, 'r) token \<Rightarrow> ('f, 'r) parser \<Rightarrow> expr_error + ('f, 'r) parser" where
  "parse_close expect p =
     (case close_loop expect (operator_stack p) (out_items p) of
        Inl e \<Rightarrow> Inl e
      | Inr (st, out) \<Rightarrow> close_call (p\<lparr>operator_stack := st, out_items := out\<rparr>))"

text \<open>The loop of a binary operator.\<close>

fun binary_loop ::
    "binary_operator \<Rightarrow> ('f, 'r) op_stack \<Rightarrow> ('f, 'r) items \<Rightarrow>
     expr_error + (('f, 'r) op_stack \<times> ('f, 'r) items)" where
  "binary_loop bop ((TBinaryOperator top_bop, j) # st) out =
     (if precedence bop \<le> precedence top_bop then
        (case emit_binary top_bop j out of Inl e \<Rightarrow> Inl e | Inr out' \<Rightarrow> binary_loop bop st out')
      else Inr ((TBinaryOperator top_bop, j) # st, out))"
| "binary_loop bop ((TUnaryOperator uop, j) # st) out =
     binary_loop bop st (out @ [IUnaryOperator uop])"
| "binary_loop bop st out = Inr (st, out)"

definition jump_item :: "binary_operator \<Rightarrow> ('f, 'r) items" where
  "jump_item bop = (case bop of BAnd \<Rightarrow> [IJmpIf False 0] | BOr \<Rightarrow> [IJmpIf True 0] | _ \<Rightarrow> [])"

definition parse_binary :: "binary_operator \<Rightarrow> ('f, 'r) parser \<Rightarrow> expr_error + ('f, 'r) parser" where
  "parse_binary bop p =
     (let p1 = dec_arg_count p in
      case binary_loop bop (operator_stack p1) (out_items p1) of
        Inl e \<Rightarrow> Inl e
      | Inr (st, out) \<Rightarrow>
          Inr (p1\<lparr>out_items := out @ jump_item bop,
                  operator_stack :=
                    (TBinaryOperator bop, if bop \<in> {BAnd, BOr} then Some (length out) else None) # st\<rparr>))"

text \<open>The loop of a comma and the loop at the end of the input.\<close>

fun comma_loop ::
    "('f, 'r) op_stack \<Rightarrow> ('f, 'r) items \<Rightarrow> expr_error + (('f, 'r) op_stack \<times> ('f, 'r) items)" where
  "comma_loop ((TBinaryOperator bop, j) # st) out =
     (case emit_binary bop j out of Inl e \<Rightarrow> Inl e | Inr out' \<Rightarrow> comma_loop st out')"
| "comma_loop ((TUnaryOperator uop, j) # st) out = comma_loop st (out @ [IUnaryOperator uop])"
| "comma_loop st out = Inr (st, out)"

fun final_loop :: "('f, 'r) op_stack \<Rightarrow> ('f, 'r) items \<Rightarrow> expr_error + ('f, 'r) items" where
  "final_loop [] out = Inr out"
| "final_loop ((TBinaryOperator bop, j) # st) out =
     (case emit_binary bop j out of Inl e \<Rightarrow> Inl e | Inr out' \<Rightarrow> final_loop st out')"
| "final_loop ((TUnaryOperator uop, j) # st) out = final_loop st (out @ [IUnaryOperator uop])"
| "final_loop (_ # st) out = Inl InvalidOperatorStack"

definition push_operand :: "('f, 'r) expression_item \<Rightarrow> ('f, 'r) parser \<Rightarrow> ('f, 'r) parser" where
  "push_operand item p = (let p1 = inc_arg_count p in p1\<lparr>out_items := out_items p1 @ [item]\<rparr>)"

definition push_call :: "('f, 'r) token \<Rightarrow> ('f, 'r) parser \<Rightarrow> ('f, 'r) parser" where
  "push_call tok p =
     (let p1 = inc_arg_count p
      in p1\<lparr>arg_count := 0 # arg_count p1, operator_stack := (tok, None) # operator_stack p1\<rparr>)"

definition open_bracket :: "('f, 'r) parser \<Rightarrow> ('f, 'r) parser" where
  "open_bracket p =
     (let (fid, num_args, count, p1) =
            (if last_is_var_or_fnc p then (ID_ARRAY_ACCESS, 2, 1, p)
             else (ID_ARRAY_BUILD, 0, 0, inc_arg_count p))
      in p1\<lparr>arg_count := count # arg_count p1,
             operator_stack :=
               (TOpenBracket, None) # (TFunction ''array'' fid num_args, None) # operator_stack p1\<rparr>)"

fun parse_token :: "('f, 'r) token \<Rightarrow> ('f, 'r) parser \<Rightarrow> expr_error + ('f, 'r) parser" where
  "parse_token (TVariable v) p = Inr (push_operand (IVariable v) p)"
| "parse_token (TConstant c) p = Inr (push_operand (IConstant c) p)"
| "parse_token (TGlobal g) p = Inr (push_operand (IGlobal g) p)"
| "parse_token (TCapture c) p = Inr (push_operand (ICapture c) p)"
| "parse_token (TUnaryOperator uop) p =
     Inr (p\<lparr>operator_stack := (TUnaryOperator uop, None) # operator_stack p\<rparr>)"
| "parse_token TOpenParen p = Inr (p\<lparr>operator_stack := (TOpenParen, None) # operator_stack p\<rparr>)"
| "parse_token TCloseParen p = parse_close TOpenParen p"
| "parse_token TCloseBracket p = parse_close TOpenBracket p"
| "parse_token (TBinaryOperator bop) p = parse_binary bop p"
| "parse_token (TFunction name fid n) p = Inr (push_call (TFunction name fid n) p)"
| "parse_token (TRegex r) p = Inr (push_call (TRegex r) p)"
| "parse_token (TSetting s) p = Inr (push_call (TSetting s) p)"
| "parse_token TOpenBracket p = Inr (open_bracket p)"
| "parse_token TComma p =
     (case comma_loop (operator_stack p) (out_items p) of
        Inl e \<Rightarrow> Inl e
      | Inr (st, out) \<Rightarrow> Inr (p\<lparr>operator_stack := st, out_items := out\<rparr>))"

fun is_var_or_fnc :: "('f, 'r) token \<Rightarrow> bool" where
  "is_var_or_fnc (TVariable _) = True"
| "is_var_or_fnc TCloseParen = True"
| "is_var_or_fnc TCloseBracket = True"
| "is_var_or_fnc _ = False"

definition parse_step :: "('f, 'r) token \<Rightarrow> ('f, 'r) parser \<Rightarrow> expr_error + ('f, 'r) parser" where
  "parse_step tok p =
     (case parse_token tok p of
        Inl e \<Rightarrow> Inl e
      | Inr p' \<Rightarrow> Inr (p'\<lparr>last_is_var_or_fnc := is_var_or_fnc tok\<rparr>))"

definition parse_end :: "('f, 'r) parser \<Rightarrow> expr_error + ('f, 'r) items" where
  "parse_end p = final_loop (operator_stack p) (out_items p)"

function parse_loop ::
    "('f, 'r, 'z) token_env_scheme \<Rightarrow> ('f, 'r) tokenizer \<Rightarrow> ('f, 'r) parser \<Rightarrow>
     expr_error + ('f, 'r) items" where
  "parse_loop E t p =
     (case tok_next E t of
        Inl e \<Rightarrow> Inl e
      | Inr (None, _) \<Rightarrow> parse_end p
      | Inr (Some tok, t') \<Rightarrow>
          (case parse_step tok p of Inl e \<Rightarrow> Inl e | Inr p' \<Rightarrow> parse_loop E t' p'))"
  by pat_completeness auto
termination
  by (relation "measure (\<lambda>(E, t, p). pending t)") (auto dest: tok_next_progress)

declare parse_loop.simps [simp del]

definition parse_expression ::
    "('f, 'r, 'z) token_env_scheme \<Rightarrow> string \<Rightarrow> expr_error + ('f, 'r) items" where
  "parse_expression E expr = parse_loop E (tokenizer_new expr) parser_new"

end
