(* ===== verification/ExprCompile.thy ===== *)
theory ExprCompile
  imports ExprParser
begin

text \<open>
  Correctness of the expression parser.  A syntax tree is written as tokens by \<open>tree_tokens\<close> and
  denotes the postfix program \<open>compile\<close>.  For every tree whose shape respects the precedences
  (\<open>wf_tree\<close>), the parser turns the tokens into that program: operators wait on the stack and are
  emitted in the right order, argument and item counts come out right, and each placeholder jump
  is patched to skip exactly the right operand and its operator.
\<close>

section \<open>Syntax trees\<close>

datatype ('f, 'r) tree =
    Var u32
  | Const "'f Constant"
  | Global string
  | Capture u32
  | Unary unary_operator "('f, 'r) tree"
  | Binary binary_operator "('f, 'r) tree" "('f, 'r) tree"
  | Paren "('f, 'r) tree"
  | Call string u32 "('f, 'r) tree list"
  | Matches 'r "('f, 'r) tree"
  | Config setting
  | Access "('f, 'r) tree" "('f, 'r) tree"
  | Build "('f, 'r) tree list"

fun tree_tokens :: "('f, 'r) tree \<Rightarrow> ('f, 'r) token list"
  and list_tokens :: "('f, 'r) tree list \<Rightarrow> ('f, 'r) token list" where
  "tree_tokens (Var v) = [TVariable v]"
| "tree_tokens (Const c) = [TConstant c]"
| "tree_tokens (Global g) = [TGlobal g]"
| "tree_tokens (Capture c) = [TCapture c]"
| "tree_tokens (Unary u e) = TUnaryOperator u # tree_tokens e"
| "tree_tokens (Binary b l r) = tree_tokens l @ TBinaryOperator b # tree_tokens r"
| "tree_tokens (Paren e) = TOpenParen # tree_tokens e @ [TCloseParen]"
| "tree_tokens (Call name fid es) =
     TFunction name fid (of_nat (length es)) # TOpenParen # list_tokens es @ [TCloseParen]"
| "tree_tokens (Matches r e) = TRegex r # TOpenParen # tree_tokens e @ [TCloseParen]"
| "tree_tokens (Config s) = [TSetting s, TOpenParen, TCloseParen]"
| "tree_tokens (Access e i) = tree_tokens e @ TOpenBracket # tree_tokens i @ [TCloseBracket]"
| "tree_tokens (Build es) = TOpenBracket # list_tokens es @ [TCloseBracket]"
| "list_tokens [] = []"
| "list_tokens (e # es) = tree_tokens e @ (if es = [] then [] else TComma # list_tokens es)"

definition jump_code :: "binary_operator \<Rightarrow> nat \<Rightarrow> ('f, 'r) items" where
  "jump_code bop n =
     (case bop of BAnd \<Rightarrow> [IJmpIf False (of_nat (Suc n))] | BOr \<Rightarrow> [IJmpIf True (of_nat (Suc n))] | _ \<Rightarrow> [])"

fun compile :: "('f, 'r) tree \<Rightarrow> ('f, 'r) items"
  and compile_list :: "('f, 'r) tree list \<Rightarrow> ('f, 'r) items" where
  "compile (Var v) = [IVariable v]"
| "compile (Const c) = [IConstant c]"
| "compile (Global g) = [IGlobal g]"
| "compile (Capture c) = [ICapture c]"
| "compile (Unary u e) = compile e @ [IUnaryOperator u]"
| "compile (Binary b l r) =
     compile l @ jump_code b (length (compile r)) @ compile r @ [IBinaryOperator b]"
| "compile (Paren e) = compile e"
| "compile (Call name fid es) = compile_list es @ [IFunction fid (of_nat (length es))]"
| "compile (Matches r e) = compile e @ [IRegex r]"
| "compile (Config s) = [ISetting s]"
| "compile (Access e i) = compile e @ compile i @ [IArrayAccess]"
| "compile (Build es) = compile_list es @ [IArrayBuild (of_nat (length es))]"
| "compile_list [] = []"
| "compile_list (e # es) = compile e @ compile_list es"

text \<open>How tightly the root of a tree binds, and the trees that can stand before an index.\<close>

fun level :: "('f, 'r) tree \<Rightarrow> int" where
  "level (Binary b l r) = precedence b"
| "level (Unary u e) = 8"
| "level _ = 9"

fun indexable :: "('f, 'r) tree \<Rightarrow> bool" where
  "indexable (Const c) = False"
| "indexable (Global g) = False"
| "indexable (Capture c) = False"
| "indexable (Unary u e) = False"
| "indexable (Binary b l r) = False"
| "indexable _ = True"

text \<open>An array item must not start with a unary operator or a parenthesis: the parser miscounts it.\<close>

fun plain_head :: "('f, 'r) tree \<Rightarrow> bool" where
  "plain_head (Unary u e) = False"
| "plain_head (Paren e) = False"
| "plain_head (Binary b l r) = plain_head l"
| "plain_head (Access e i) = plain_head e"
| "plain_head _ = True"

fun wf_tree :: "('f, 'r) tree \<Rightarrow> bool"
  and wf_list :: "('f, 'r) tree list \<Rightarrow> bool" where
  "wf_tree (Unary u e) = (8 \<le> level e \<and> wf_tree e)"
| "wf_tree (Binary b l r) = (precedence b \<le> level l \<and> precedence b < level r \<and> wf_tree l \<and> wf_tree r)"
| "wf_tree (Paren e) = wf_tree e"
| "wf_tree (Call name fid es) =
     (fid \<noteq> ID_ARRAY_ACCESS \<and> fid \<noteq> ID_ARRAY_BUILD \<and> length es < 2 ^ 31 \<and> wf_list es)"
| "wf_tree (Matches r e) = wf_tree e"
| "wf_tree (Access e i) = (indexable e \<and> wf_tree e \<and> wf_tree i)"
| "wf_tree (Build es) = (length es < 2 ^ 31 \<and> list_all plain_head es \<and> wf_list es)"
| "wf_tree _ = True"
| "wf_list [] = True"
| "wf_list (e # es) = (wf_tree e \<and> wf_list es)"

section \<open>Pending operators\<close>

fun emit_all :: "('f, 'r) op_stack \<Rightarrow> ('f, 'r) items \<Rightarrow> expr_error + ('f, 'r) items" where
  "emit_all [] out = Inr out"
| "emit_all ((TBinaryOperator bop, j) # st) out =
     (case emit_binary bop j out of Inl e \<Rightarrow> Inl e | Inr out' \<Rightarrow> emit_all st out')"
| "emit_all ((TUnaryOperator uop, j) # st) out = emit_all st (out @ [IUnaryOperator uop])"
| "emit_all (_ # st) out = Inl InvalidOperatorStack"

fun pending_op :: "int \<Rightarrow> ('f, 'r) token \<times> nat option \<Rightarrow> bool" where
  "pending_op lv (TBinaryOperator b, j) = (lv \<le> precedence b)"
| "pending_op lv (TUnaryOperator u, j) = (lv \<le> 8)"
| "pending_op lv _ = False"

fun stops :: "int \<Rightarrow> ('f, 'r) op_stack \<Rightarrow> bool" where
  "stops lv ((TBinaryOperator b, j) # st) = (precedence b < lv)"
| "stops lv ((TUnaryOperator u, j) # st) = (8 \<le> lv)"
| "stops lv ((TFunction n i k, j) # st) = False"
| "stops lv ((TRegex r, j) # st) = False"
| "stops lv ((TSetting s, j) # st) = False"
| "stops lv _ = True"

lemma precedence_bound: "1 \<le> precedence b \<and> precedence b \<le> 7"
  by (cases b) simp_all

lemma precedence_simps [simp]: "\<not> 9 \<le> precedence b" "0 \<le> precedence b" "\<not> precedence b < 0" "\<not> 8 \<le> precedence b"
  by (cases b; simp)+

lemma pending_op_mono: "pending_op lv x \<Longrightarrow> lv' \<le> lv \<Longrightarrow> pending_op lv' x"
  by (cases "(lv, x)" rule: pending_op.cases) auto

lemma pending_ops_mono: "list_all (pending_op lv) s \<Longrightarrow> lv' \<le> lv \<Longrightarrow> list_all (pending_op lv') s"
  by (auto simp: list_all_iff dest: pending_op_mono)

lemma pending_op_9 [simp]: "\<not> pending_op 9 x"
  by (cases "(9 :: int, x)" rule: pending_op.cases) auto

lemma pending_op_tight [simp]: "list_all (pending_op 9) s \<longleftrightarrow> s = []"
  by (cases s) simp_all

lemma emit_all_append:
  "emit_all (s @ s') out = (case emit_all s out of Inl e \<Rightarrow> Inl e | Inr out' \<Rightarrow> emit_all s' out')"
  by (induction s out rule: emit_all.induct) (auto split: sum.splits)

lemma close_loop_pending:
  "list_all (pending_op lv) s \<Longrightarrow> emit_all s out = Inr out' \<Longrightarrow>
   close_loop expect (s @ st) out = close_loop expect st out'"
  by (induction s out rule: emit_all.induct) (auto split: sum.splits)

lemma comma_loop_pending:
  "list_all (pending_op lv) s \<Longrightarrow> emit_all s out = Inr out' \<Longrightarrow>
   comma_loop (s @ st) out = comma_loop st out'"
  by (induction s out rule: emit_all.induct) (auto split: sum.splits)

lemma final_loop_pending:
  "list_all (pending_op lv) s \<Longrightarrow> emit_all s out = Inr out' \<Longrightarrow>
   final_loop (s @ st) out = final_loop st out'"
  by (induction s out rule: emit_all.induct) (auto split: sum.splits)

lemma binary_loop_pending:
  "list_all (pending_op (precedence b)) s \<Longrightarrow> emit_all s out = Inr out' \<Longrightarrow>
   binary_loop b (s @ st) out = binary_loop b st out'"
  by (induction s out rule: emit_all.induct) (auto split: sum.splits)

lemma binary_loop_stops: "stops (precedence b) st \<Longrightarrow> binary_loop b st out = Inr (st, out)"
  by (cases "(b, st, out)" rule: binary_loop.cases) auto

lemma comma_loop_stops: "stops 0 st \<Longrightarrow> comma_loop st out = Inr (st, out)"
  by (cases "(st, out)" rule: comma_loop.cases) auto

section \<open>Argument counts\<close>

lemma array_ids [simp]: "ID_ARRAY_ACCESS \<noteq> ID_ARRAY_BUILD" "ID_ARRAY_BUILD \<noteq> ID_ARRAY_ACCESS"
  by (simp_all add: ID_ARRAY_ACCESS_def ID_ARRAY_BUILD_def)

lemma inc_dec_inc: "0 \<le> x \<Longrightarrow> inc_i32 (dec_i32 (inc_i32 x)) = inc_i32 x"
  by (simp add: inc_i32_def dec_i32_def min_def max_def)

lemma inc_iterate: "int n < 2 ^ 31 \<Longrightarrow> (inc_i32 ^^ n) 0 = int n"
  by (induction n) (simp_all add: inc_i32_def)

lemma sint_of_nat_u32: "n < 2 ^ 31 \<Longrightarrow> sint (of_nat n :: u32) = int n"
  by (simp add: signed_of_nat signed_take_bit_int_eq_self)

definition bump_args :: "int list \<Rightarrow> int list" where
  "bump_args counts = (case counts of x # xs \<Rightarrow> inc_i32 x # xs | [] \<Rightarrow> [])"

definition bump_head :: "('f, 'r) tree \<Rightarrow> int list \<Rightarrow> ('f, 'r) op_stack \<Rightarrow> ('f, 'r) op_stack" where
  "bump_head e counts st = (if plain_head e \<and> counts \<noteq> [] then bump_build st else st)"

lemma bump_args_Nil [simp]: "bump_args counts = [] \<longleftrightarrow> counts = []"
  by (simp add: bump_args_def split: list.splits)

lemma stops_top: "stops lv ((tok, j) # st) = stops lv ((tok, j) # st')"
  by (cases tok) simp_all

lemma stops_bump_build [simp]: "stops lv (bump_build st) = stops lv st"
  by (cases st rule: bump_build.cases) (auto intro: stops_top [THEN iffD1])

lemma stops_bump_head [simp]: "stops lv (bump_head e counts st) = stops lv st"
  by (simp add: bump_head_def)

lemma bump_build_above:
  "stops lv st \<Longrightarrow> (\<And>n i k. tok \<noteq> TFunction n i k) \<Longrightarrow> bump_build ((tok, j) # st) = (tok, j) # st"
  by (cases "(tok, j) # st" rule: bump_build.cases) auto

lemma inc_arg_count_eq:
  "inc_arg_count p =
     p\<lparr>arg_count := bump_args (arg_count p),
       operator_stack := (if arg_count p = [] then operator_stack p else bump_build (operator_stack p))\<rparr>"
  by (cases p) (simp add: inc_arg_count_def bump_args_def split: list.splits)

section \<open>Running the parser over a token list\<close>

fun parse_tokens :: "('f, 'r) token list \<Rightarrow> ('f, 'r) parser \<Rightarrow> expr_error + ('f, 'r) parser" where
  "parse_tokens [] p = Inr p"
| "parse_tokens (tok # toks) p =
     (case parse_step tok p of Inl e \<Rightarrow> Inl e | Inr p' \<Rightarrow> parse_tokens toks p')"

lemma parse_tokens_append:
  "parse_tokens (xs @ ys) p = (case parse_tokens xs p of Inl e \<Rightarrow> Inl e | Inr p' \<Rightarrow> parse_tokens ys p')"
  by (induction xs p rule: parse_tokens.induct) (auto split: sum.splits)

definition ready :: "int \<Rightarrow> ('f, 'r) parser \<Rightarrow> bool" where
  "ready lv p \<longleftrightarrow> \<not> last_is_var_or_fnc p \<and> stops lv (operator_stack p) \<and> list_all (\<lambda>x. 0 \<le> x) (arg_count p)"

definition parsed :: "('f, 'r) tree \<Rightarrow> ('f, 'r) parser \<Rightarrow> ('f, 'r) parser \<Rightarrow> bool" where
  "parsed e p p' \<longleftrightarrow>
     (\<exists>s. list_all (pending_op (level e)) s \<and>
          operator_stack p' = s @ bump_head e (arg_count p) (operator_stack p) \<and>
          emit_all s (out_items p') = Inr (out_items p @ compile e)) \<and>
     arg_count p' = bump_args (arg_count p) \<and>
     (indexable e \<longrightarrow> last_is_var_or_fnc p')"

definition parses :: "('f, 'r) tree \<Rightarrow> bool" where
  "parses e \<longleftrightarrow>
     (\<forall>p. ready (level e) p \<longrightarrow> (\<exists>p'. parse_tokens (tree_tokens e) p = Inr p' \<and> parsed e p p'))"

lemma parses_operand:
  "parses (Var v)" "parses (Const c)" "parses (Global g)" "parses (Capture n)"
  by (simp_all add: parses_def parsed_def parse_step_def push_operand_def Let_def inc_arg_count_eq bump_head_def)

lemma ready_bump: "ready lv p \<Longrightarrow> list_all (\<lambda>x. 0 \<le> x) (bump_args (arg_count p))"
  by (auto simp: ready_def bump_args_def inc_i32_def split: list.splits)

lemma parses_unary:
  assumes "parses e" and "8 \<le> level e"
  shows "parses (Unary u e)"
  unfolding parses_def
proof (intro allI impI)
  fix p :: "('a, 'b) parser"
  assume p: "ready (level (Unary u e)) p"
  let ?p1 = "p\<lparr>operator_stack := (TUnaryOperator u, None) # operator_stack p, last_is_var_or_fnc := False\<rparr>"
  have "ready (level e) ?p1" using p assms(2) by (simp add: ready_def)
  with assms(1) obtain p' where p': "parse_tokens (tree_tokens e) ?p1 = Inr p'" "parsed e ?p1 p'"
    by (auto simp: parses_def)
  have nb: "bump_head e (arg_count p) ((TUnaryOperator u, None) # operator_stack p)
      = (TUnaryOperator u, None) # operator_stack p"
    using p by (auto simp: ready_def bump_head_def bump_build_above)
  from p'(2) obtain s where s: "list_all (pending_op (level e)) s"
    "operator_stack p' = s @ (TUnaryOperator u, None) # operator_stack p"
    "emit_all s (out_items p') = Inr (out_items p @ compile e)"
    "arg_count p' = bump_args (arg_count p)"
    by (auto simp: parsed_def nb)
  have "list_all (pending_op 8) s"
    using pending_ops_mono [OF s(1) assms(2)] .
  then have "parsed (Unary u e) p p'"
    using s by (auto simp: parsed_def bump_head_def emit_all_append intro!: exI [of _ "s @ [(TUnaryOperator u, None)]"])
  with p'(1) show "\<exists>p'. parse_tokens (tree_tokens (Unary u e)) p = Inr p' \<and> parsed (Unary u e) p p'"
    by (simp add: parse_step_def)
qed

lemma jump_item_update:
  assumes "b \<in> {BAnd, BOr}"
  shows "update_jmp_pos (Some (length out)) (out @ jump_item b @ code) =
    Inr (out @ jump_code b (length code) @ code)"
  using assms by (auto simp: update_jmp_pos_def jump_item_def jump_code_def nth_append list_update_append Suc_diff_le)

lemma emit_binary_jump:
  "emit_binary b (if b \<in> {BAnd, BOr} then Some (length out) else None) (out @ jump_item b @ code) =
   Inr (out @ jump_code b (length code) @ code @ [IBinaryOperator b])"
proof (cases "b \<in> {BAnd, BOr}")
  case True
  then show ?thesis using jump_item_update [OF True, of out code] by (simp add: emit_binary_def)
next
  case False
  then have "jump_item b = ([] :: ('a, 'b) items)" "jump_code b (length code) = ([] :: ('a, 'b) items)"
    by (auto simp: jump_item_def jump_code_def split: binary_operator.splits)
  with False show ?thesis by (simp add: emit_binary_def update_jmp_pos_def)
qed

lemma stops_mono: "stops lv st \<Longrightarrow> lv \<le> lv' \<Longrightarrow> stops lv' st"
  by (cases "(lv, st)" rule: stops.cases) auto

lemma dec_arg_count_eq:
  "dec_arg_count p = p\<lparr>arg_count := (case arg_count p of x # xs \<Rightarrow> dec_i32 x # xs | [] \<Rightarrow> [])\<rparr>"
  by (cases p) (simp add: dec_arg_count_def split: list.splits)

definition drop_args :: "int list \<Rightarrow> int list" where
  "drop_args counts = (case counts of x # xs \<Rightarrow> dec_i32 x # xs | [] \<Rightarrow> [])"

lemma drop_bump_args:
  assumes "list_all (\<lambda>x. 0 \<le> x) counts"
  shows "bump_args (drop_args (bump_args counts)) = bump_args counts"
    and "list_all (\<lambda>x. 0 \<le> x) (drop_args (bump_args counts))"
  using assms
  by (auto simp: bump_args_def drop_args_def inc_dec_inc split: list.splits)
     (simp add: inc_i32_def dec_i32_def)

lemma parse_binary_pending:
  assumes "list_all (pending_op (precedence b)) s" and "stops (precedence b) st"
    and "operator_stack p = s @ st" and "emit_all s (out_items p) = Inr out"
  shows "parse_binary b p =
    Inr (p\<lparr>arg_count := drop_args (arg_count p), out_items := out @ jump_item b,
           operator_stack :=
             (TBinaryOperator b, if b \<in> {BAnd, BOr} then Some (length out) else None) # st\<rparr>)"
proof -
  have "binary_loop b (s @ st) (out_items p) = Inr (st, out)"
    using binary_loop_pending [OF assms(1,4)] binary_loop_stops [OF assms(2)] by simp
  then show ?thesis
    by (simp add: parse_binary_def dec_arg_count_eq drop_args_def assms(3) Let_def)
qed

lemma parses_binary:
  assumes "parses l" and "parses r" and "precedence b \<le> level l" and "precedence b < level r"
  shows "parses (Binary b l r)"
  unfolding parses_def
proof (intro allI impI)
  fix p :: "('a, 'b) parser"
  assume "ready (level (Binary b l r)) p"
  then have p: "\<not> last_is_var_or_fnc p" "stops (precedence b) (operator_stack p)"
    "list_all (\<lambda>x. 0 \<le> x) (arg_count p)"
    by (simp_all add: ready_def)
  then have "ready (level l) p" using assms(3) by (simp add: ready_def stops_mono)
  with assms(1) obtain p1 s1 where p1: "parse_tokens (tree_tokens l) p = Inr p1"
    and s1: "list_all (pending_op (level l)) s1"
      "operator_stack p1 = s1 @ bump_head l (arg_count p) (operator_stack p)"
      "emit_all s1 (out_items p1) = Inr (out_items p @ compile l)"
    and ac1: "arg_count p1 = bump_args (arg_count p)"
    by (auto simp: parses_def parsed_def)
  let ?st = "bump_head l (arg_count p) (operator_stack p)"
  let ?j = "if b \<in> {BAnd, BOr} then Some (length (out_items p @ compile l)) else None"
  define p2 where "p2 = p1\<lparr>arg_count := drop_args (bump_args (arg_count p)),
    out_items := (out_items p @ compile l) @ jump_item b,
    operator_stack := (TBinaryOperator b, ?j) # ?st, last_is_var_or_fnc := False\<rparr>"
  have "list_all (pending_op (precedence b)) s1"
    using pending_ops_mono [OF s1(1) assms(3)] .
  then have "parse_binary b p1 = Inr (p1\<lparr>arg_count := drop_args (arg_count p1),
      out_items := (out_items p @ compile l) @ jump_item b, operator_stack := (TBinaryOperator b, ?j) # ?st\<rparr>)"
    by (rule parse_binary_pending) (use p s1 in simp_all)
  then have step: "parse_step (TBinaryOperator b) p1 = Inr p2"
    by (simp add: parse_step_def p2_def ac1)
  have "ready (level r) p2"
    using assms(4) drop_bump_args [OF p(3)] by (simp add: ready_def p2_def)
  with assms(2) obtain p3 where p3: "parse_tokens (tree_tokens r) p2 = Inr p3" "parsed r p2 p3"
    by (auto simp: parses_def)
  have above: "bump_head r (arg_count p2) (operator_stack p2) = (TBinaryOperator b, ?j) # ?st"
    using p(2) by (auto simp: bump_head_def p2_def intro!: bump_build_above)
  from p3(2) obtain s3 where s3: "list_all (pending_op (level r)) s3"
      "operator_stack p3 = s3 @ (TBinaryOperator b, ?j) # ?st"
      "emit_all s3 (out_items p3) = Inr (out_items p2 @ compile r)"
      "arg_count p3 = bump_args (arg_count p2)"
    unfolding parsed_def above by blast
  have "emit_all (s3 @ [(TBinaryOperator b, ?j)]) (out_items p3) = Inr (out_items p @ compile (Binary b l r))"
    using emit_binary_jump [of b "out_items p @ compile l" "compile r"] s3(3)
    by (simp add: emit_all_append p2_def)
  moreover have "list_all (pending_op (precedence b)) (s3 @ [(TBinaryOperator b, ?j)])"
    using pending_ops_mono [OF s3(1), of "precedence b"] assms(4) by simp
  ultimately have "parsed (Binary b l r) p p3"
    using s3(2,4) drop_bump_args [OF p(3)]
    by (auto simp: parsed_def bump_head_def p2_def intro!: exI [of _ "s3 @ [(TBinaryOperator b, ?j)]"])
  then show "\<exists>p'. parse_tokens (tree_tokens (Binary b l r)) p = Inr p' \<and> parsed (Binary b l r) p p'"
    using p1 step p3(1) by (simp add: parse_tokens_append)
qed

text \<open>A closing token flushes the pending operators and then completes the call below, if any.\<close>

lemma parse_close_pending:
  assumes "list_all (pending_op lv) s" and "emit_all s (out_items p) = Inr out"
    and "operator_stack p = s @ (open, None) # st"
    and "(open, close) \<in> {(TOpenParen, TCloseParen), (TOpenBracket, TCloseBracket)}"
  shows "parse_tokens [close] p =
    (case close_call (p\<lparr>operator_stack := st, out_items := out\<rparr>) of
       Inl e \<Rightarrow> Inl e | Inr p' \<Rightarrow> Inr (p'\<lparr>last_is_var_or_fnc := True\<rparr>))"
  using assms(4) close_loop_pending [OF assms(1,2), of "open" "(open, None) # st"]
  by (auto simp: parse_step_def parse_close_def assms(3) split: sum.splits)

lemma close_call_stops: "stops lv (operator_stack p) \<Longrightarrow> close_call p = Inr p"
  by (cases "(lv, operator_stack p)" rule: stops.cases) (auto simp: close_call_def)

lemma parses_paren:
  assumes "parses e"
  shows "parses (Paren e)"
  unfolding parses_def
proof (intro allI impI)
  fix p :: "('a, 'b) parser"
  assume p: "ready (level (Paren e)) p"
  let ?p1 = "p\<lparr>operator_stack := (TOpenParen, None) # operator_stack p, last_is_var_or_fnc := False\<rparr>"
  have "ready (level e) ?p1" using p by (simp add: ready_def)
  with assms(1) obtain p' where p': "parse_tokens (tree_tokens e) ?p1 = Inr p'" "parsed e ?p1 p'"
    by (auto simp: parses_def)
  have "bump_head e (arg_count p) ((TOpenParen, None) # operator_stack p) = (TOpenParen, None) # operator_stack p"
    using p by (auto simp: ready_def bump_head_def bump_build_above)
  with p'(2) obtain s where s: "list_all (pending_op (level e)) s"
    "emit_all s (out_items p') = Inr (out_items p @ compile e)"
    "operator_stack p' = s @ (TOpenParen, None) # operator_stack p"
    "arg_count p' = bump_args (arg_count p)"
    by (auto simp: parsed_def)
  have "close_call (p'\<lparr>operator_stack := operator_stack p, out_items := out_items p @ compile e\<rparr>)
      = Inr (p'\<lparr>operator_stack := operator_stack p, out_items := out_items p @ compile e\<rparr>)"
    using p by (intro close_call_stops [of 9]) (simp add: ready_def)
  then show "\<exists>p'. parse_tokens (tree_tokens (Paren e)) p = Inr p' \<and> parsed (Paren e) p p'"
    using p'(1) s(4) parse_close_pending [OF s(1,2,3), of TCloseParen]
    by (auto simp: parse_tokens_append parse_step_def parsed_def bump_head_def)
qed

section \<open>Argument lists\<close>

fun bump_heads :: "('f, 'r) tree list \<Rightarrow> int list \<Rightarrow> ('f, 'r) op_stack \<Rightarrow> ('f, 'r) op_stack" where
  "bump_heads [] counts st = st"
| "bump_heads (e # es) counts st = bump_heads es counts (bump_head e counts st)"

definition parsed_list :: "('f, 'r) tree list \<Rightarrow> ('f, 'r) parser \<Rightarrow> ('f, 'r) parser \<Rightarrow> bool" where
  "parsed_list es p p' \<longleftrightarrow>
     (\<exists>s. list_all (pending_op 0) s \<and>
          operator_stack p' = s @ bump_heads es (arg_count p) (operator_stack p) \<and>
          emit_all s (out_items p') = Inr (out_items p @ compile_list es)) \<and>
     arg_count p' = (bump_args ^^ length es) (arg_count p)"

lemma level_nonneg [simp]: "0 \<le> level e"
  by (cases e) simp_all

lemma bump_heads_counts: "counts = [] \<longleftrightarrow> counts' = [] \<Longrightarrow> bump_heads es counts st = bump_heads es counts' st"
  by (induction es arbitrary: st) (simp_all add: bump_head_def)

lemma bump_heads_fixed: "bump_build st = st \<Longrightarrow> bump_heads es counts st = st"
  by (induction es) (simp_all add: bump_head_def)

lemma bump_heads_build:
  "list_all plain_head es \<Longrightarrow> counts \<noteq> [] \<Longrightarrow>
   bump_heads es counts (x # (TFunction name ID_ARRAY_BUILD k, j) # st) =
   x # (TFunction name ID_ARRAY_BUILD (k + of_nat (length es)), j) # st"
  by (induction es arbitrary: k) (simp_all add: bump_head_def add.assoc)

lemma parses_list:
  "\<forall>e \<in> set es. parses e \<Longrightarrow> ready 0 p \<Longrightarrow>
   \<exists>p'. parse_tokens (list_tokens es) p = Inr p' \<and> parsed_list es p p'"
proof (induction es arbitrary: p)
  case Nil
  then show ?case by (auto simp: parsed_list_def intro!: exI [of _ "[]"])
next
  case (Cons e es)
  then have p: "stops 0 (operator_stack p)" "list_all (\<lambda>x. 0 \<le> x) (arg_count p)" "ready (level e) p"
    by (auto simp: ready_def intro: stops_mono)
  from Cons.prems(1) have "parses e" by simp
  with p(3) obtain p1 s1 where p1: "parse_tokens (tree_tokens e) p = Inr p1"
    and s1: "list_all (pending_op (level e)) s1"
      "operator_stack p1 = s1 @ bump_head e (arg_count p) (operator_stack p)"
      "emit_all s1 (out_items p1) = Inr (out_items p @ compile e)"
    and ac1: "arg_count p1 = bump_args (arg_count p)"
    by (auto simp: parses_def parsed_def)
  note low = pending_ops_mono [OF s1(1) level_nonneg]
  show ?case
  proof (cases "es = []")
    case True
    then show ?thesis
      using p1 s1 low ac1 by (auto simp: parsed_list_def)
  next
    case False
    define p2 where "p2 = p1\<lparr>operator_stack := bump_head e (arg_count p) (operator_stack p),
      out_items := out_items p @ compile e, last_is_var_or_fnc := False\<rparr>"
    have "comma_loop (operator_stack p1) (out_items p1) =
        Inr (bump_head e (arg_count p) (operator_stack p), out_items p @ compile e)"
      using comma_loop_pending [OF low s1(3)] p(1) by (simp add: s1(2) comma_loop_stops)
    then have step: "parse_step TComma p1 = Inr p2"
      by (simp add: parse_step_def p2_def)
    have "ready 0 p2"
      using p ready_bump [OF p(3)] by (simp add: ready_def p2_def ac1)
    with Cons obtain p3 where p3: "parse_tokens (list_tokens es) p2 = Inr p3" "parsed_list es p2 p3"
      by auto
    have "parsed_list (e # es) p p3"
      using p3(2) bump_heads_counts [of "arg_count p2" "arg_count p" es]
      by (simp add: parsed_list_def p2_def ac1 funpow_swap1)
    then show ?thesis
      using p1 step p3(1) False by (auto simp: parse_tokens_append)
  qed
qed

text \<open>A whole argument list with its closing token, from the state right after the opening one.\<close>

lemma parse_args:
  assumes "\<forall>e \<in> set es. parses e" and "ready 0 p"
    and "bump_heads es (arg_count p) (operator_stack p) = (open, None) # st"
    and "(open, close) \<in> {(TOpenParen, TCloseParen), (TOpenBracket, TCloseBracket)}"
  shows "\<exists>p'. operator_stack p' = st \<and> out_items p' = out_items p @ compile_list es \<and>
    arg_count p' = (bump_args ^^ length es) (arg_count p) \<and>
    parse_tokens (list_tokens es @ [close]) p =
      (case close_call p' of Inl e \<Rightarrow> Inl e | Inr q \<Rightarrow> Inr (q\<lparr>last_is_var_or_fnc := True\<rparr>))"
proof -
  obtain p1 s where p1: "parse_tokens (list_tokens es) p = Inr p1"
    and s: "list_all (pending_op 0) s" "operator_stack p1 = s @ (open, None) # st"
      "emit_all s (out_items p1) = Inr (out_items p @ compile_list es)"
    and ac: "arg_count p1 = (bump_args ^^ length es) (arg_count p)"
    using parses_list [OF assms(1,2)] assms(3) by (auto simp: parsed_list_def)
  show ?thesis
    using parse_close_pending [OF s(1,3,2) assms(4)] p1 ac
    by (intro exI [of _ "p1\<lparr>operator_stack := st, out_items := out_items p @ compile_list es\<rparr>"])
       (simp add: parse_tokens_append)
qed

lemma bump_args_iterate:
  "length es < 2 ^ 31 \<Longrightarrow> (bump_args ^^ length es) (0 # counts) = int (length es) # counts"
proof -
  assume "length es < 2 ^ 31"
  then have "int (length es) < 2 ^ 31" by simp
  moreover have "(bump_args ^^ n) (x # counts) = (inc_i32 ^^ n) x # counts" for n x
    by (induction n) (simp_all add: bump_args_def)
  ultimately show ?thesis by (simp only: inc_iterate)
qed

lemma parses_call:
  assumes "\<forall>e \<in> set es. parses e" and "fid \<noteq> ID_ARRAY_ACCESS" "fid \<noteq> ID_ARRAY_BUILD"
    and "length es < 2 ^ 31"
  shows "parses (Call name fid es)"
  unfolding parses_def
proof (intro allI impI)
  fix p :: "('a, 'b) parser"
  assume p: "ready (level (Call name fid es)) p"
  let ?f = "TFunction name fid (of_nat (length es))"
  let ?st = "bump_head (Call name fid es) (arg_count p) (operator_stack p)"
  define p2 where "p2 = p\<lparr>arg_count := 0 # bump_args (arg_count p),
    operator_stack := (TOpenParen, None) # (?f, None) # ?st, last_is_var_or_fnc := False\<rparr>"
  have steps: "parse_tokens (?f # TOpenParen # toks) p = parse_tokens toks p2" for toks
    by (simp add: parse_step_def push_call_def Let_def inc_arg_count_eq p2_def bump_head_def)
  have heads: "bump_heads es counts ((TOpenParen, None) # (?f, None) # ?st) =
      (TOpenParen, None) # (?f, None) # ?st" for counts
    using assms(3) by (simp add: bump_heads_fixed)
  have "ready 0 p2" using ready_bump [OF p] by (simp add: ready_def p2_def)
  from parse_args [OF assms(1) this, of TOpenParen "(?f, None) # ?st" TCloseParen]
  obtain p' where p': "operator_stack p' = (?f, None) # ?st"
      "out_items p' = out_items p @ compile_list es"
      "arg_count p' = int (length es) # bump_args (arg_count p)"
    and run: "parse_tokens (list_tokens es @ [TCloseParen]) p2 =
      (case close_call p' of Inl e \<Rightarrow> Inl e | Inr q \<Rightarrow> Inr (q\<lparr>last_is_var_or_fnc := True\<rparr>))"
    using assms(4) heads by (auto simp: p2_def bump_args_iterate)
  from p' assms(2-4) have "close_call p' = Inr (p'\<lparr>operator_stack := ?st, arg_count := bump_args (arg_count p),
      out_items := out_items p @ compile (Call name fid es)\<rparr>)"
    by (simp add: close_call_def sint_of_nat_u32 function_item_def)
  then show "\<exists>p'. parse_tokens (tree_tokens (Call name fid es)) p = Inr p' \<and> parsed (Call name fid es) p p'"
    using run steps by (simp add: parsed_def)
qed

lemma parses_build:
  assumes "\<forall>e \<in> set es. parses e" and "list_all plain_head es" and "length es < 2 ^ 31"
  shows "parses (Build es)"
  unfolding parses_def
proof (intro allI impI)
  fix p :: "('a, 'b) parser"
  assume p: "ready (level (Build es)) p"
  let ?f = "\<lambda>n. TFunction ''array'' ID_ARRAY_BUILD n"
  let ?st = "bump_head (Build es) (arg_count p) (operator_stack p)"
  define p2 where "p2 = p\<lparr>arg_count := 0 # bump_args (arg_count p),
    operator_stack := (TOpenBracket, None) # (?f 0, None) # ?st, last_is_var_or_fnc := False\<rparr>"
  have steps: "parse_tokens (TOpenBracket # toks) p = parse_tokens toks p2" for toks
    using p by (simp add: parse_step_def open_bracket_def Let_def inc_arg_count_eq p2_def bump_head_def ready_def)
  have "ready 0 p2" using ready_bump [OF p] by (simp add: ready_def p2_def)
  from parse_args [OF assms(1) this, of TOpenBracket "(?f (of_nat (length es)), None) # ?st" TCloseBracket]
  obtain p' where p': "operator_stack p' = (?f (of_nat (length es)), None) # ?st"
      "out_items p' = out_items p @ compile_list es"
      "arg_count p' = int (length es) # bump_args (arg_count p)"
    and run: "parse_tokens (list_tokens es @ [TCloseBracket]) p2 =
      (case close_call p' of Inl e \<Rightarrow> Inl e | Inr q \<Rightarrow> Inr (q\<lparr>last_is_var_or_fnc := True\<rparr>))"
    using assms(2,3) by (auto simp: p2_def bump_args_iterate bump_heads_build)
  from p' assms(3) have "close_call p' = Inr (p'\<lparr>operator_stack := ?st, arg_count := bump_args (arg_count p),
      out_items := out_items p @ compile (Build es)\<rparr>)"
    by (simp add: close_call_def sint_of_nat_u32 function_item_def)
  then show "\<exists>p'. parse_tokens (tree_tokens (Build es)) p = Inr p' \<and> parsed (Build es) p p'"
    using run steps by (simp add: parsed_def)
qed

lemma parses_access:
  assumes "parses e" and "parses i" and "indexable e"
  shows "parses (Access e i)"
  unfolding parses_def
proof (intro allI impI)
  fix p :: "('a, 'b) parser"
  assume p: "ready (level (Access e i)) p"
  have lv: "level e = 9" using assms(3) by (cases e) simp_all
  with p assms obtain p1 where p1: "parse_tokens (tree_tokens e) p = Inr p1"
      "operator_stack p1 = bump_head e (arg_count p) (operator_stack p)"
      "out_items p1 = out_items p @ compile e"
      "arg_count p1 = bump_args (arg_count p)" "last_is_var_or_fnc p1"
    by (auto simp: parses_def parsed_def)
  let ?f = "TFunction ''array'' ID_ARRAY_ACCESS 2"
  define p2 where "p2 = p1\<lparr>arg_count := 1 # arg_count p1,
    operator_stack := (TOpenBracket, None) # (?f, None) # operator_stack p1, last_is_var_or_fnc := False\<rparr>"
  have steps: "parse_tokens (TOpenBracket # toks) p1 = parse_tokens toks p2" for toks
    using p1(5) by (simp add: parse_step_def open_bracket_def p2_def)
  have "ready 0 p2" using ready_bump [OF p] p1(4) by (simp add: ready_def p2_def)
  moreover have "\<forall>e \<in> set [i]. parses e" using assms(2) by simp
  moreover have "bump_heads [i] (arg_count p2) (operator_stack p2) = operator_stack p2"
    by (rule bump_heads_fixed) (simp add: p2_def)
  ultimately obtain p' where p': "operator_stack p' = (?f, None) # operator_stack p1"
      "out_items p' = out_items p1 @ compile i"
      "arg_count p' = 2 # arg_count p1"
    and run: "parse_tokens (tree_tokens i @ [TCloseBracket]) p2 =
      (case close_call p' of Inl e \<Rightarrow> Inl e | Inr q \<Rightarrow> Inr (q\<lparr>last_is_var_or_fnc := True\<rparr>))"
    using parse_args [of "[i]" p2 TOpenBracket "(?f, None) # operator_stack p1" TCloseBracket]
    by (auto simp: p2_def bump_args_def inc_i32_def)
  from p' have "close_call p' = Inr (p'\<lparr>operator_stack := operator_stack p1, arg_count := arg_count p1,
      out_items := out_items p @ compile (Access e i)\<rparr>)"
    using p1(3) by (simp add: close_call_def function_item_def)
  then show "\<exists>p'. parse_tokens (tree_tokens (Access e i)) p = Inr p' \<and> parsed (Access e i) p p'"
    using run steps p1 by (simp add: parse_tokens_append parsed_def bump_head_def)
qed

lemma parses_matches:
  assumes "parses e"
  shows "parses (Matches r e)"
  unfolding parses_def
proof (intro allI impI)
  fix p :: "('a, 'b) parser"
  assume p: "ready (level (Matches r e)) p"
  let ?st = "bump_head (Matches r e) (arg_count p) (operator_stack p)"
  define p2 where "p2 = p\<lparr>arg_count := 0 # bump_args (arg_count p),
    operator_stack := (TOpenParen, None) # (TRegex r, None) # ?st, last_is_var_or_fnc := False\<rparr>"
  have steps: "parse_tokens (TRegex r # TOpenParen # toks) p = parse_tokens toks p2" for toks
    by (simp add: parse_step_def push_call_def Let_def inc_arg_count_eq p2_def bump_head_def)
  have "ready 0 p2" using ready_bump [OF p] by (simp add: ready_def p2_def)
  moreover have "\<forall>e \<in> set [e]. parses e" using assms by simp
  moreover have "bump_heads [e] (arg_count p2) (operator_stack p2) = operator_stack p2"
    by (rule bump_heads_fixed) (simp add: p2_def)
  ultimately obtain p' where p': "operator_stack p' = (TRegex r, None) # ?st"
      "out_items p' = out_items p @ compile e"
      "arg_count p' = 1 # bump_args (arg_count p)"
    and run: "parse_tokens (tree_tokens e @ [TCloseParen]) p2 =
      (case close_call p' of Inl e \<Rightarrow> Inl e | Inr q \<Rightarrow> Inr (q\<lparr>last_is_var_or_fnc := True\<rparr>))"
    using parse_args [of "[e]" p2 TOpenParen "(TRegex r, None) # ?st" TCloseParen]
    by (auto simp: p2_def bump_args_def inc_i32_def)
  then show "\<exists>p'. parse_tokens (tree_tokens (Matches r e)) p = Inr p' \<and> parsed (Matches r e) p p'"
    using steps by (simp add: parsed_def close_call_def)
qed

lemma parses_config: "parses (Config s)"
  by (auto simp: parses_def parsed_def parse_step_def push_call_def Let_def inc_arg_count_eq
      parse_close_def close_call_def bump_head_def)

lemma wf_tree_parses:
  fixes e :: "('f, 'r) tree" and es :: "('f, 'r) tree list"
  shows "wf_tree e \<Longrightarrow> parses e" and "wf_list es \<Longrightarrow> \<forall>e \<in> set es. parses e"
  by (induction e and es rule: wf_tree_wf_list.induct)
     (simp_all add: parses_operand parses_unary parses_binary parses_paren parses_call parses_matches
        parses_config parses_access parses_build)

text \<open>
  The tokens that a tokenizer state yields, and that the parser's loop over the tokenizer is the
  run over those tokens.
\<close>

inductive yields ::
    "('f, 'r, 'z) token_env_scheme \<Rightarrow> ('f, 'r) tokenizer \<Rightarrow> ('f, 'r) token list \<Rightarrow> bool"
  for E where
  yields_end: "tok_next E t = Inr (None, t') \<Longrightarrow> yields E t []"
| yields_token: "tok_next E t = Inr (Some tok, t') \<Longrightarrow> yields E t' toks \<Longrightarrow> yields E t (tok # toks)"

lemma parse_loop_yields:
  "yields E t toks \<Longrightarrow>
   parse_loop E t p = (case parse_tokens toks p of Inl e \<Rightarrow> Inl e | Inr p' \<Rightarrow> parse_end p')"
  by (induction arbitrary: p rule: yields.induct)
     (subst parse_loop.simps; simp split: sum.splits)+

lemma parse_expression_compiles:
  assumes "wf_tree e" and "yields E (tokenizer_new expr) (tree_tokens e)"
  shows "parse_expression E expr = Inr (compile e)"
proof -
  have "ready (level e) parser_new" by (simp add: ready_def parser_new_def)
  with wf_tree_parses(1) [OF assms(1)] obtain p' s where
    p': "parse_tokens (tree_tokens e) parser_new = Inr p'"
    and s: "list_all (pending_op (level e)) s" "operator_stack p' = s"
      "emit_all s (out_items p') = Inr (compile e)"
    by (auto simp: parses_def parsed_def parser_new_def bump_head_def)
  from final_loop_pending [OF s(1,3), of "[]"] s(2) have "parse_end p' = Inr (compile e)"
    by (simp add: parse_end_def)
  with p' show ?thesis
    by (simp add: parse_expression_def parse_loop_yields [OF assms(2)])
qed

end
