(* ===== verification/ExprText.thy ===== *)
theory ExprText
  imports ExprCompile
begin

text \<open>
  The text of an expression.  \<open>spelled\<close> relates a list of tokens to the texts that write it, and
  the tokenizer is shown to read exactly those tokens back; with the parser's correctness the
  source text of a tree compiles to the program of the tree.
\<close>

section \<open>Texts\<close>

text \<open>
  \<open>spelled E start d toks text\<close>: the text is a way to write the tokens, inside \<open>d\<close> open
  parentheses, where \<open>start\<close> says whether a minus sign is a negation here.  Words and operators are
  followed by a space; a string literal has no quote and no backslash.
\<close>

definition scan_word :: "('f, 'r, 'z) token_env_scheme \<Rightarrow> string \<Rightarrow> expr_error + ('f, 'r) token" where
  "scan_word E w =
     (let number = list_ex is_digit w; dot = CHR ''.'' \<in> set w; alpha = list_ex is_word_char w in
      if number \<and> \<not> alpha then
        (if dot then (case f_parse E w of Some f \<Rightarrow> Inr (TConstant (CFloat f)) | None \<Rightarrow> Inl (InvalidFloat w))
         else (case parse_i64 w of Some i \<Rightarrow> Inr (TConstant (CInteger i)) | None \<Rightarrow> Inl (InvalidInteger w)))
      else word_token E number dot w)"

fun operator_text :: "binary_operator \<Rightarrow> string" where
  "operator_text BAdd = ''+ ''"
| "operator_text BSubtract = ''- ''"
| "operator_text BMultiply = ''* ''"
| "operator_text BDivide = ''/ ''"
| "operator_text BAnd = ''&& ''"
| "operator_text BOr = ''|| ''"
| "operator_text BXor = ''^ ''"
| "operator_text BEq = ''== ''"
| "operator_text BNe = ''!= ''"
| "operator_text BLt = ''< ''"
| "operator_text BLe = ''<= ''"
| "operator_text BGt = ''> ''"
| "operator_text BGe = ''>= ''"

definition plain_literal :: "string \<Rightarrow> bool" where
  "plain_literal s = list_all (\<lambda>c. c \<noteq> CHR 0x22 \<and> c \<noteq> CHR 0x5C) s"

definition quoted :: "string \<Rightarrow> string" where
  "quoted s = CHR 0x22 # s @ [CHR 0x22]"

definition word_text :: "string \<Rightarrow> bool" where
  "word_text w = (w \<noteq> [] \<and> list_all (\<lambda>c. is_word_char c \<or> is_digit c \<or> c = CHR ''.'') w)"

inductive spelled ::
    "('f, 'r, 'z) token_env_scheme \<Rightarrow> bool \<Rightarrow> nat \<Rightarrow> ('f, 'r) token list \<Rightarrow> string \<Rightarrow> bool"
  for E where
  sp_end: "spelled E b 0 [] []"
| sp_space: "spelled E b d toks text \<Longrightarrow> spelled E b d toks (CHR '' '' # text)"
| sp_word: "word_text w \<Longrightarrow> scan_word E w = Inr tok \<Longrightarrow> spelled E False d toks text \<Longrightarrow>
    spelled E b d (tok # toks) (w @ CHR '' '' # text)"
| sp_string: "plain_literal s \<Longrightarrow> spelled E False d toks text \<Longrightarrow>
    spelled E b d (TConstant (CString s) # toks) (quoted s @ text)"
| sp_open: "spelled E True (Suc d) toks text \<Longrightarrow> spelled E b d (TOpenParen # toks) (CHR ''('' # text)"
| sp_close: "spelled E False d toks text \<Longrightarrow> spelled E b (Suc d) (TCloseParen # toks) (CHR '')'' # text)"
| sp_open_bracket: "spelled E False d toks text \<Longrightarrow> spelled E b d (TOpenBracket # toks) (CHR ''['' # text)"
| sp_close_bracket: "spelled E False d toks text \<Longrightarrow> spelled E b d (TCloseBracket # toks) (CHR '']'' # text)"
| sp_comma: "spelled E True d toks text \<Longrightarrow> spelled E b d (TComma # toks) (CHR '','' # text)"
| sp_operator: "b = False \<or> bop \<noteq> BSubtract \<Longrightarrow> spelled E True d toks text \<Longrightarrow>
    spelled E b d (TBinaryOperator bop # toks) (operator_text bop @ text)"
| sp_not: "spelled E False d toks text \<Longrightarrow> spelled E b d (TUnaryOperator UNot # toks) (''! '' @ text)"
| sp_minus: "spelled E False d toks text \<Longrightarrow> spelled E True d (TUnaryOperator UMinus # toks) (''- '' @ text)"
| sp_matches: "plain_literal s \<Longrightarrow> regex_new E s = Some r \<Longrightarrow> spelled E True (Suc d) toks text \<Longrightarrow>
    spelled E b d (TRegex r # TOpenParen # toks) (''matches('' @ quoted s @ '','' @ text)"
| sp_setting: "plain_literal s \<Longrightarrow> spelled E True (Suc d) toks text \<Longrightarrow>
    spelled E b d (TSetting (setting_from s) # TOpenParen # toks) (''config_get('' @ quoted s @ text)"

definition at :: "bool \<Rightarrow> nat \<Rightarrow> string \<Rightarrow> ('f, 'r) tokenizer" where
  "at b d text =
     \<lparr>iter = text, buf = [], depth = d, next_token = [], has_number = False, has_dot = False,
      has_alpha = False, is_start = b, is_eof = False\<rparr>"

lemma at_simps:
  "iter (at b d text) = text" "is_start (at b d text) = b" "depth (at b d text) = d"
  "(at b d text)\<lparr>iter := text'\<rparr> = at b d text'" "(at b d text)\<lparr>is_start := b'\<rparr> = at b' d text"
  "(at b d text)\<lparr>depth := d'\<rparr> = at b d' text"
  by (simp_all add: at_def)

lemma tokenizer_new_at: "tokenizer_new text = at True 0 text"
  by (simp add: tokenizer_new_def at_def)

lemma not_word_chars:
  "\<not> is_word_char (CHR '' '')" "\<not> is_digit (CHR '' '')" "\<not> continues_word (CHR '' '') w"
  by (simp_all add: is_word_char_def is_digit_def continues_word_def)

lemma parse_string_loop_plain:
  "l \<noteq> CHR 0x5C \<Longrightarrow> plain_literal s \<Longrightarrow>
   parse_string_loop (CHR 0x22) l acc (s @ CHR 0x22 # text) = Inr (acc @ s, text)"
proof (induction s arbitrary: l acc)
  case (Cons c s)
  then have "c \<noteq> CHR 0x22" "c \<noteq> CHR 0x5C" "plain_literal s"
    unfolding plain_literal_def by simp_all
  with Cons.prems(1) Cons.IH [of c "acc @ [c]"] show ?case by simp
qed simp

lemma parse_string_plain:
  "plain_literal s \<Longrightarrow> parse_string (CHR 0x22) (s @ CHR 0x22 # text) = Inr (s, text)"
  unfolding parse_string_def by (subst parse_string_loop_plain) simp_all

lemma tok_loop_word:
  "list_all (\<lambda>c. is_word_char c \<or> is_digit c \<or> c = CHR ''.'') w \<Longrightarrow>
   tok_loop E t (w @ text) =
   tok_loop E (t\<lparr>buf := buf t @ w,
                 has_alpha := has_alpha t \<or> list_ex is_word_char w,
                 has_number := has_number t \<or> list_ex is_digit w,
                 has_dot := has_dot t \<or> CHR ''.'' \<in> set w\<rparr>) text"
proof (induction w arbitrary: t)
  case (Cons c w)
  have "\<not> (is_word_char c \<and> is_digit c)" "\<not> is_word_char (CHR ''.'')" "\<not> is_digit (CHR ''.'')"
    by (auto simp: is_word_char_def is_digit_def Let_def)
  with Cons show ?case
    by (cases t) auto
qed simp

lemma parse_buf_word:
  assumes "scan_word E w = Inr tok"
  shows "parse_buf E \<lparr>iter = text, buf = w, depth = d, next_token = [], has_number = list_ex is_digit w,
      has_dot = CHR ''.'' \<in> set w, has_alpha = list_ex is_word_char w, is_start = b, is_eof = False\<rparr> =
    Inr (tok, at b d text)"
  using assms
  by (cases "list_ex is_digit w"; cases "list_ex is_word_char w"; cases "CHR ''.'' \<in> set w")
     (simp_all add: scan_word_def parse_buf_def at_def split: option.splits)

lemma tok_next_word:
  assumes "word_text w" and "scan_word E w = Inr tok"
  shows "tok_next E (at b d (w @ CHR '' '' # text)) = Inr (Some tok, at False d text)"
proof -
  from assms(1) have w: "w \<noteq> []" by (simp add: word_text_def)
  show ?thesis
    using assms w parse_buf_word [OF assms(2), of "text" d False]
    by (simp add: tok_next_def at_def tok_loop_word word_text_def not_word_chars prev_token_def
        symbol_token_def)
qed

lemma tok_next_space: "tok_next E (at b d (CHR '' '' # text)) = tok_next E (at b d text)"
  by (simp add: tok_next_def at_def not_word_chars prev_token_def symbol_token_def)

definition symbol_char :: "char \<Rightarrow> bool" where
  "symbol_char ch = (\<not> is_word_char ch \<and> \<not> is_digit ch \<and> ch \<noteq> CHR ''.'' \<and> ch \<noteq> CHR ''}'')"

lemma tok_next_symbol:
  assumes "symbol_char ch" and "symbol_token ch (at b d text) = Inr (Some tok, t)"
  shows "tok_next E (at b d (ch # text)) = Inr (Some tok, t\<lparr>is_start := starts_operand tok\<rparr>)"
proof -
  have "\<not> continues_word ch []" by (simp add: continues_word_def)
  moreover have "prev_token E ch (at b d text) = Inr (None, at b d text)"
    by (simp add: prev_token_def at_def)
  ultimately show ?thesis
    using assms by (simp add: tok_next_def symbol_char_def at_def)
qed

lemma symbol_chars:
  "list_all symbol_char [CHR ''('', CHR '')'', CHR ''['', CHR '']'', CHR '','', CHR ''!'', CHR ''-'', CHR ''+'',
     CHR ''*'', CHR ''/'', CHR ''&'', CHR ''|'', CHR ''^'', CHR ''='', CHR ''<'', CHR ''>'', CHR 0x22]"
  by (simp add: symbol_char_def is_word_char_def is_digit_def)

lemma tok_next_operator:
  assumes "b = False \<or> bop \<noteq> BSubtract"
  shows "tok_next E (at b d (operator_text bop @ text)) = Inr (Some (TBinaryOperator bop), at True d (CHR '' '' # text))"
  using assms symbol_chars
  by (cases bop) (simp_all add: tok_next_symbol symbol_token_def skip_if_def at_simps)

lemma tok_next_string:
  "plain_literal s \<Longrightarrow>
   tok_next E (at b d (quoted s @ text)) = Inr (Some (TConstant (CString s)), at False d text)"
  using symbol_chars by (simp add: quoted_def tok_next_symbol symbol_token_def at_simps parse_string_plain)

lemma tok_next_symbols:
  "tok_next E (at b d (CHR ''('' # text)) = Inr (Some TOpenParen, at True (Suc d) text)"
  "tok_next E (at b (Suc d) (CHR '')'' # text)) = Inr (Some TCloseParen, at False d text)"
  "tok_next E (at b d (CHR ''['' # text)) = Inr (Some TOpenBracket, at False d text)"
  "tok_next E (at b d (CHR '']'' # text)) = Inr (Some TCloseBracket, at False d text)"
  "tok_next E (at b d (CHR '','' # text)) = Inr (Some TComma, at True d text)"
  "tok_next E (at b d (''! '' @ text)) = Inr (Some (TUnaryOperator UNot), at False d (CHR '' '' # text))"
  "tok_next E (at True d (''- '' @ text)) = Inr (Some (TUnaryOperator UMinus), at False d (CHR '' '' # text))"
  using symbol_chars by (simp_all add: tok_next_symbol symbol_token_def skip_if_def at_simps)

lemma find_char_quoted: "find_char [CHR 0x22, CHR 0x27] (quoted s @ text) = Inr (CHR 0x22, s @ CHR 0x22 # text)"
  by (simp add: quoted_def is_ascii_whitespace_def)

lemma tok_next_call:
  assumes "list_all is_word_char w"
    and "prev_token E (CHR ''('') ((at b d text)\<lparr>buf := w, has_alpha := True\<rparr>) = Inr (Some tok, at b d text')"
    and "w \<noteq> []"
  shows "tok_next E (at b d (w @ CHR ''('' # text)) =
    Inr (Some tok, (at True (Suc d) text')\<lparr>next_token := [TOpenParen]\<rparr>)"
proof -
  have w: "list_all (\<lambda>c. is_word_char c \<or> is_digit c \<or> c = CHR ''.'') w"
    using assms(1) by (simp add: list_all_iff)
  have none: "\<not> list_ex is_digit w" "CHR ''.'' \<notin> set w"
    using assms(1) by (auto simp: list_all_iff list_ex_iff is_word_char_def is_digit_def Let_def)
  have "list_ex is_word_char w"
    using assms(1,3) by (cases w) simp_all
  moreover have "\<not> continues_word (CHR ''('') w" "symbol_char (CHR ''('')"
    using symbol_chars by (simp_all add: continues_word_def)
  ultimately show ?thesis
    using none assms(2)
    by (simp add: tok_next_def at_def tok_loop_word [OF w] symbol_char_def symbol_token_def)
qed

lemma tok_next_matches:
  assumes "plain_literal s" and "regex_new E s = Some r"
  shows "tok_next E (at b d (''matches('' @ quoted s @ '','' @ text)) =
    Inr (Some (TRegex r), (at True (Suc d) text)\<lparr>next_token := [TOpenParen]\<rparr>)"
proof -
  have "tok_next E (at b d (''matches'' @ CHR ''('' # quoted s @ '','' @ text)) =
    Inr (Some (TRegex r), (at True (Suc d) text)\<lparr>next_token := [TOpenParen]\<rparr>)"
  proof (rule tok_next_call)
    show "list_all is_word_char ''matches''" by (simp add: is_word_char_def)
    have "find_char '','' ('','' @ text) = Inr (CHR '','', text)"
      by (simp add: is_ascii_whitespace_def)
    then show "prev_token E (CHR ''('') ((at b d (quoted s @ '','' @ text))\<lparr>buf := ''matches'', has_alpha := True\<rparr>) =
        Inr (Some (TRegex r), at b d text)"
      using assms by (simp add: prev_token_def at_def find_char_quoted parse_string_plain)
  qed simp
  then show ?thesis by simp
qed

lemma tok_next_setting:
  assumes "plain_literal s"
  shows "tok_next E (at b d (''config_get('' @ quoted s @ text)) =
    Inr (Some (TSetting (setting_from s)), (at True (Suc d) text)\<lparr>next_token := [TOpenParen]\<rparr>)"
proof -
  have "tok_next E (at b d (''config_get'' @ CHR ''('' # quoted s @ text)) =
    Inr (Some (TSetting (setting_from s)), (at True (Suc d) text)\<lparr>next_token := [TOpenParen]\<rparr>)"
  proof (rule tok_next_call)
    show "list_all is_word_char ''config_get''" by (simp add: is_word_char_def)
    show "prev_token E (CHR ''('') ((at b d (quoted s @ text))\<lparr>buf := ''config_get'', has_alpha := True\<rparr>) =
        Inr (Some (TSetting (setting_from s)), at b d text)"
      using assms by (simp add: prev_token_def at_def find_char_quoted parse_string_plain)
  qed simp
  then show ?thesis by simp
qed

lemma yields_queued:
  "yields E (at b d text) toks \<Longrightarrow> yields E ((at b d text)\<lparr>next_token := [tok]\<rparr>) (tok # toks)"
  by (rule yields_token [where t' = "at b d text"]) (simp_all add: tok_next_def at_def)

lemma yields_space: "yields E (at b d (CHR '' '' # text)) toks = yields E (at b d text) toks"
  by (simp add: yields.simps [of _ "at b d _"] tok_next_space)

lemma spelled_yields: "spelled E b d toks text \<Longrightarrow> yields E (at b d text) toks"
proof (induction rule: spelled.induct)
  case (sp_end b)
  have "tok_next E (at b 0 []) = Inr (None, at b 0 [])"
    by (simp add: tok_next_def at_def tok_end_def)
  then show ?case by (rule yields_end)
next
  case (sp_matches s r d toks "text" b)
  then show ?case by (blast intro: yields_token tok_next_matches yields_queued)
next
  case (sp_setting s d toks "text" b)
  then show ?case by (blast intro: yields_token tok_next_setting yields_queued)
qed (auto simp: yields_space intro: yields_token tok_next_word tok_next_string tok_next_symbols
    tok_next_symbols [simplified] tok_next_operator)

lemma expression_text_compiles:
  assumes "wf_tree e" and "spelled E True 0 (tree_tokens e) text"
  shows "parse_expression E text = Inr (compile e)"
  using assms by (simp add: parse_expression_compiles tokenizer_new_at spelled_yields)

end
