(* ===== verification/ExprEval.thy ===== *)
theory ExprEval
  imports ExprAsync ExprText
begin

text \<open>
  The evaluator of compiled expressions (\<open>crates/common/src/expr/eval.rs\<close>): a stack machine over
  the postfix program, and the \<open>if\<close> blocks built from it (\<open>crates/common/src/expr/if_block.rs\<close>).

  \<open>eval_items\<close> is the loop over the items with the value stack (head on top), the captures of the
  last regular expression and the outside world \<open>'s\<close>, which the settings and the asynchronous
  functions read and change.  A call of a function that would read a missing argument, or whose sort
  panics, is the error \<open>EvalPanic\<close>.  The variable resolver, the settings of the server, the settings
  store, the services behind the asynchronous functions and the regular expression matcher are
  fields of \<open>eval_env\<close>; the settings store answers with a value or with an error text.

  The reference is \<open>tree_value\<close>, the value of a syntax tree by recursion over the tree.
\<close>

record ('f, 'r, 's) eval_env = "('f, 'r) token_env" +
  resolve_variable :: "u32 \<Rightarrow> 'f variable"
  resolve_global :: "string \<Rightarrow> 'f variable"
  server_name :: string
  report_domain :: string
  node_id :: u64
  config_get :: "string \<Rightarrow> (string option, 's) service"
  env_services :: "('f, 's) services"
  regex_captures :: "'r \<Rightarrow> string \<Rightarrow> string option list option"

type_synonym ('f, 's) answer = "(eval_error + 'f variable) \<times> string list \<times> 's"

section \<open>The stack machine\<close>

definition unary_value :: "('f, 'z) float_ops_scheme \<Rightarrow> unary_operator \<Rightarrow> 'f variable \<Rightarrow> 'f variable" where
  "unary_value F op v = (case op of UNot \<Rightarrow> op_not F v | UMinus \<Rightarrow> op_minus F v)"

definition binary_value ::
    "('f, 'z) float_ops_scheme \<Rightarrow> binary_operator \<Rightarrow> 'f variable \<Rightarrow> 'f variable \<Rightarrow> 'f variable" where
  "binary_value F op l r =
     (case op of
        BAdd \<Rightarrow> op_add F l r | BSubtract \<Rightarrow> op_subtract F l r | BMultiply \<Rightarrow> op_multiply F l r
      | BDivide \<Rightarrow> op_divide F l r | BAnd \<Rightarrow> op_and F l r | BOr \<Rightarrow> op_or F l r | BXor \<Rightarrow> op_xor F l r
      | BEq \<Rightarrow> op_eq F l r | BNe \<Rightarrow> op_ne F l r | BLt \<Rightarrow> op_lt F l r | BLe \<Rightarrow> op_le F l r
      | BGt \<Rightarrow> op_gt F l r | BGe \<Rightarrow> op_ge F l r)"

definition pop :: "'f variable list \<Rightarrow> 'f variable \<times> 'f variable list" where
  "pop stack = (case stack of v # vs \<Rightarrow> (v, vs) | [] \<Rightarrow> (default_variable, []))"

text \<open>The last \<open>n\<close> values pushed, in the order they were pushed; missing ones are the default.\<close>

definition pop_args :: "nat \<Rightarrow> 'f variable list \<Rightarrow> 'f variable list \<times> 'f variable list" where
  "pop_args n stack =
     (rev (take n stack @ replicate (n - length stack) default_variable), drop n stack)"

definition setting_value ::
    "('f, 'r, 's, 'z) eval_env_scheme \<Rightarrow> setting \<Rightarrow> 's \<Rightarrow> (eval_error + 'f variable) \<times> 's" where
  "setting_value E setting w =
     (case setting of
        SHostname \<Rightarrow> (Inr (VString (server_name E)), w)
      | SReportDomain \<Rightarrow> (Inr (VString (report_domain E)), w)
      | SNodeId \<Rightarrow> (Inr (VInteger (node_id E)), w)
      | SOther key \<Rightarrow>
          answered (\<lambda>v. VString (case v of Some s \<Rightarrow> s | None \<Rightarrow> [])) (config_get E key w))"

definition call_function ::
    "('f, 'r, 's, 'z) eval_env_scheme \<Rightarrow> u32 \<Rightarrow> 'f variable list \<Rightarrow> 's \<Rightarrow> (eval_error + 'f variable) \<times> 's" where
  "call_function E fid arguments w =
     (if unat fid < length (FUNCTIONS E) then
        (case fst (snd (FUNCTIONS E ! unat fid)) arguments of
           Some v \<Rightarrow> (Inr v, w)
         | None \<Rightarrow> (Inl EvalPanic, w))
      else eval_fnc E (env_services E) (fid - of_nat (length (FUNCTIONS E))) arguments w)"

definition array_access :: "('f, 'z) float_ops_scheme \<Rightarrow> 'f variable \<Rightarrow> 'f variable \<Rightarrow> 'f variable" where
  "array_access F array index =
     (let l = into_array array; i = usize_or_default (to_usize F index)
      in if i < length l then l ! i else default_variable)"

definition match_regex ::
    "('f, 'r, 's, 'z) eval_env_scheme \<Rightarrow> 'r \<Rightarrow> 'f variable \<Rightarrow> string list" where
  "match_regex E regex v =
     (case regex_captures E regex (var_to_string E v) of
        Some cs \<Rightarrow> map (\<lambda>c. case c of Some s \<Rightarrow> s | None \<Rightarrow> []) cs
      | None \<Rightarrow> [])"

function eval_items ::
    "('f, 'r, 's, 'z) eval_env_scheme \<Rightarrow> ('f, 'r) items \<Rightarrow> 'f variable list \<Rightarrow> string list \<Rightarrow> 's \<Rightarrow>
     ('f, 's) answer" where
  "eval_items E [] stack captures w = (Inr (fst (pop stack)), captures, w)"
| "eval_items E (IVariable v # items) stack captures w =
     eval_items E items (resolve_variable E v # stack) captures w"
| "eval_items E (IGlobal v # items) stack captures w =
     eval_items E items (resolve_global E v # stack) captures w"
| "eval_items E (IConstant c # items) stack captures w =
     eval_items E items (variable_of_constant c # stack) captures w"
| "eval_items E (ICapture n # items) stack captures w =
     eval_items E items
       (VString (if unat n < length captures then captures ! unat n else []) # stack) captures w"
| "eval_items E (ISetting s # items) stack captures w =
     (case setting_value E s w of
        (Inl e, w') \<Rightarrow> (Inl e, captures, w')
      | (Inr v, w') \<Rightarrow> eval_items E items (v # stack) captures w')"
| "eval_items E (IUnaryOperator op # items) stack captures w =
     (let (v, stack1) = pop stack
      in eval_items E items (unary_value E op v # stack1) captures w)"
| "eval_items E (IBinaryOperator op # items) stack captures w =
     (let (right, stack1) = pop stack; (left, stack2) = pop stack1
      in eval_items E items (binary_value E op left right # stack2) captures w)"
| "eval_items E (IFunction fid num_args # items) stack captures w =
     (let (arguments, stack1) = pop_args (unat num_args) stack
      in case call_function E fid arguments w of
           (Inl e, w') \<Rightarrow> (Inl e, captures, w')
         | (Inr v, w') \<Rightarrow> eval_items E items (v # stack1) captures w')"
| "eval_items E (IJmpIf val pos # items) stack captures w =
     (if (case stack of v # _ \<Rightarrow> to_bool E v | [] \<Rightarrow> False) = val
      then eval_items E (drop (unat pos) items) stack captures w
      else eval_items E items stack captures w)"
| "eval_items E (IArrayAccess # items) stack captures w =
     (let (index, stack1) = pop stack; (array, stack2) = pop stack1
      in eval_items E items (array_access E array index # stack2) captures w)"
| "eval_items E (IArrayBuild n # items) stack captures w =
     (let (values, stack1) = pop_args (unat n) stack
      in eval_items E items (VArray values # stack1) captures w)"
| "eval_items E (IRegex regex # items) stack captures w =
     (let (v, stack1) = pop stack; captures' = match_regex E regex v
      in eval_items E items (variable_of_bool (captures' \<noteq> []) # stack1) captures' w)"
  by pat_completeness auto
termination
  by (relation "measure (\<lambda>(E, items, stack, captures, w). length items)") auto

definition eval_expr ::
    "('f, 'r, 's, 'z) eval_env_scheme \<Rightarrow> ('f, 'r) items \<Rightarrow> string list \<Rightarrow> 's \<Rightarrow> ('f, 's) answer" where
  "eval_expr E items captures w = eval_items E items [] captures w"

text \<open>\<open>Server::eval_expr\<close>: nothing for an empty expression, a failed evaluation or conversion.\<close>

definition server_eval_expr ::
    "('f, 'r, 's, 'z) eval_env_scheme \<Rightarrow> ('f variable \<Rightarrow> 'a option) \<Rightarrow> ('f, 'r) items \<Rightarrow> 's \<Rightarrow> 'a option \<times> 's" where
  "server_eval_expr E try_into items w =
     (if items = [] then (None, w)
      else case eval_expr E items [] w of
             (Inr v, _, w') \<Rightarrow> (try_into v, w')
           | (Inl _, _, w') \<Rightarrow> (None, w'))"

section \<open>If blocks\<close>

record ('f, 'r) if_then =
  it_expr :: "('f, 'r) items"
  it_then :: "('f, 'r) items"

record ('f, 'r) if_block =
  ib_key :: string
  ib_if_then :: "('f, 'r) if_then list"
  ib_default :: "('f, 'r) items"

definition if_block_empty :: "string \<Rightarrow> ('f, 'r) if_block" where
  "if_block_empty key = \<lparr>ib_key = key, ib_if_then = [], ib_default = []\<rparr>"

definition if_block_is_empty :: "('f, 'r) if_block \<Rightarrow> bool" where
  "if_block_is_empty b = (ib_default b = [] \<and> ib_if_then b = [])"

definition into_default :: "string \<Rightarrow> ('f, 'r) if_block \<Rightarrow> ('f, 'r) if_block" where
  "into_default key b = \<lparr>ib_key = key, ib_if_then = [], ib_default = ib_default b\<rparr>"

fun default_string_items :: "('f, 'r) items \<Rightarrow> string option" where
  "default_string_items [] = None"
| "default_string_items (item # items) =
     (case item of IConstant (CString s) \<Rightarrow> Some s | _ \<Rightarrow> default_string_items items)"

definition default_string :: "('f, 'r) if_block \<Rightarrow> string option" where
  "default_string b = default_string_items (ib_default b)"

fun eval_if_thens ::
    "('f, 'r, 's, 'z) eval_env_scheme \<Rightarrow> ('f, 'r) if_then list \<Rightarrow> ('f, 'r) items \<Rightarrow> string list \<Rightarrow> 's \<Rightarrow>
     ('f, 's) answer" where
  "eval_if_thens E [] els captures w = eval_expr E els captures w"
| "eval_if_thens E (b # bs) els captures w =
     (case eval_expr E (it_expr b) captures w of
        (Inl e, captures', w') \<Rightarrow> (Inl e, captures', w')
      | (Inr v, captures', w') \<Rightarrow>
          if to_bool E v then eval_expr E (it_then b) captures' w'
          else eval_if_thens E bs els captures' w')"

definition eval_if ::
    "('f, 'r, 's, 'z) eval_env_scheme \<Rightarrow> ('f variable \<Rightarrow> 'a option) \<Rightarrow> ('f, 'r) if_block \<Rightarrow> 's \<Rightarrow>
     'a option \<times> 's" where
  "eval_if E try_into b w =
     (if if_block_is_empty b then (None, w)
      else case eval_if_thens E (ib_if_then b) (ib_default b) [] w of
             (Inr v, _, w') \<Rightarrow> (try_into v, w')
           | (Inl _, _, w') \<Rightarrow> (None, w'))"

section \<open>The value of a syntax tree\<close>

definition answer_then ::
    "('f, 's) answer \<Rightarrow> ('f variable \<Rightarrow> string list \<Rightarrow> 's \<Rightarrow> (eval_error + 'b) \<times> string list \<times> 's) \<Rightarrow>
     (eval_error + 'b) \<times> string list \<times> 's" where
  "answer_then a k = (case a of (Inl e, c, w) \<Rightarrow> (Inl e, c, w) | (Inr v, c, w) \<Rightarrow> k v c w)"

definition with_captures :: "string list \<Rightarrow> (eval_error + 'f variable) \<times> 's \<Rightarrow> ('f, 's) answer" where
  "with_captures c a = (fst a, c, snd a)"

fun tree_value ::
    "('f, 'r, 's, 'z) eval_env_scheme \<Rightarrow> ('f, 'r) tree \<Rightarrow> string list \<Rightarrow> 's \<Rightarrow> ('f, 's) answer"
  and list_values ::
    "('f, 'r, 's, 'z) eval_env_scheme \<Rightarrow> ('f, 'r) tree list \<Rightarrow> string list \<Rightarrow> 's \<Rightarrow>
     (eval_error + 'f variable list) \<times> string list \<times> 's" where
  "tree_value E (Var v) c w = (Inr (resolve_variable E v), c, w)"
| "tree_value E (Const k) c w = (Inr (variable_of_constant k), c, w)"
| "tree_value E (Global g) c w = (Inr (resolve_global E g), c, w)"
| "tree_value E (Capture n) c w = (Inr (VString (if unat n < length c then c ! unat n else [])), c, w)"
| "tree_value E (Unary u e) c w =
     answer_then (tree_value E e c w) (\<lambda>v c w. (Inr (unary_value E u v), c, w))"
| "tree_value E (Binary b l r) c w =
     answer_then (tree_value E l c w) (\<lambda>x c w.
       if b = BAnd \<and> \<not> to_bool E x \<or> b = BOr \<and> to_bool E x then (Inr x, c, w)
       else answer_then (tree_value E r c w) (\<lambda>y c w. (Inr (binary_value E b x y), c, w)))"
| "tree_value E (Paren e) c w = tree_value E e c w"
| "tree_value E (Call name fid es) c w =
     (case list_values E es c w of
        (Inl e, c, w) \<Rightarrow> (Inl e, c, w)
      | (Inr vs, c, w) \<Rightarrow> with_captures c (call_function E fid vs w))"
| "tree_value E (Matches r e) c w =
     answer_then (tree_value E e c w) (\<lambda>v c w.
       let c' = match_regex E r v in (Inr (variable_of_bool (c' \<noteq> [])), c', w))"
| "tree_value E (Config s) c w = with_captures c (setting_value E s w)"
| "tree_value E (Access e i) c w =
     answer_then (tree_value E e c w) (\<lambda>a c w.
       answer_then (tree_value E i c w) (\<lambda>n c w. (Inr (array_access E a n), c, w)))"
| "tree_value E (Build es) c w =
     (case list_values E es c w of
        (Inl e, c, w) \<Rightarrow> (Inl e, c, w)
      | (Inr vs, c, w) \<Rightarrow> (Inr (VArray vs), c, w))"
| "list_values E [] c w = (Inr [], c, w)"
| "list_values E (e # es) c w =
     answer_then (tree_value E e c w) (\<lambda>v c w.
       case list_values E es c w of
         (Inl err, c, w) \<Rightarrow> (Inl err, c, w)
       | (Inr vs, c, w) \<Rightarrow> (Inr (v # vs), c, w))"

lemma compile_nonempty [simp]: "compile e \<noteq> []"
  by (induction e) simp_all

lemma length_compile_list: "length es \<le> length (compile_list es)"
proof (induction es)
  case (Cons e es)
  moreover have "0 < length (compile e)" by simp
  ultimately show ?case by (simp del: length_greater_0_conv)
qed simp

lemma list_values_length: "list_values E es c w = (Inr vs, c', w') \<Longrightarrow> length vs = length es"
  by (induction es arbitrary: c w vs c' w')
     (auto simp: answer_then_def split: prod.splits sum.splits)

lemma pop_Cons [simp]: "pop (v # vs) = (v, vs)"
  by (simp add: pop_def)

lemma pop_args_pushed: "length vs = n \<Longrightarrow> pop_args n (rev vs @ st) = (vs, st)"
  by (simp add: pop_args_def)

lemma answer_then_cong: "(\<And>v c w. k v c w = k' v c w) \<Longrightarrow> answer_then a k = answer_then a k'"
  by (simp add: answer_then_def split: prod.splits sum.splits)

lemma answer_then_assoc:
  "answer_then (answer_then a k) h = answer_then a (\<lambda>v c w. answer_then (k v c w) h)"
  by (simp add: answer_then_def split: prod.splits sum.splits)

lemma answer_then_Inr [simp]: "answer_then (Inr v, c, w) k = k v c w"
  by (simp add: answer_then_def)

lemma unat_of_nat_u32: "n < 2 ^ 32 \<Longrightarrow> unat (of_nat n :: u32) = n"
  by (simp add: unsigned_of_nat take_bit_nat_eq_self)

text \<open>
  The jump of a short-circuit operator: on the deciding value it lands right after the operator,
  on any other value the right operand and the operator run.
\<close>

lemma eval_jump_code:
  assumes "Suc (length code) < 2 ^ 32"
  shows "eval_items E (jump_code b (length code) @ code @ IBinaryOperator b # rest) (x # st) c w =
    (if b = BAnd \<and> \<not> to_bool E x \<or> b = BOr \<and> to_bool E x then eval_items E rest (x # st) c w
     else eval_items E (code @ IBinaryOperator b # rest) (x # st) c w)"
proof -
  have "unat (of_nat (Suc (length code)) :: u32) = Suc (length code)"
    using assms by (rule unat_of_nat_u32)
  then show ?thesis
    by (cases b) (simp_all add: jump_code_def del: of_nat_Suc)
qed

lemma eval_compile:
  fixes e :: "('f, 'r) tree" and es :: "('f, 'r) tree list"
  shows "length (compile e) < 2 ^ 32 \<Longrightarrow>
      eval_items E (compile e @ rest) st c w =
      answer_then (tree_value E e c w) (\<lambda>v c w. eval_items E rest (v # st) c w)"
    and "length (compile_list es) < 2 ^ 32 \<Longrightarrow>
      eval_items E (compile_list es @ rest) st c w =
      (case list_values E es c w of
         (Inl err, c, w) \<Rightarrow> (Inl err, c, w)
       | (Inr vs, c, w) \<Rightarrow> eval_items E rest (rev vs @ st) c w)"
proof (induction e and es arbitrary: rest st c w and rest st c w rule: compile_compile_list.induct)
  case (6 b l r)
  then have "Suc (length (compile r)) < 2 ^ 32" by simp
  note jump = eval_jump_code [OF this]
  show ?case
    using 6 by (auto simp: answer_then_assoc jump intro!: answer_then_cong)
next
  case (8 name fid es)
  then have "unat (of_nat (length es) :: u32) = length es"
    using length_compile_list [of es] by (intro unat_of_nat_u32) simp
  with 8 show ?case
    by (auto simp: with_captures_def answer_then_def pop_args_pushed dest: list_values_length
        split: prod.splits sum.splits)
next
  case (12 es)
  then have "unat (of_nat (length es) :: u32) = length es"
    using length_compile_list [of es] by (intro unat_of_nat_u32) simp
  with 12 show ?case
    by (auto simp: answer_then_def pop_args_pushed dest: list_values_length split: prod.splits sum.splits)
next
  case (14 e es)
  then show ?case
    by (auto simp: answer_then_def split: prod.splits sum.splits)
qed (auto simp: answer_then_assoc with_captures_def answer_then_def Let_def split: prod.splits sum.splits
       intro!: answer_then_cong)

end
