(* ===== verification/ExprSafety.thy ===== *)
theory ExprSafety
  imports ExprEval
begin

text \<open>
  No expression text makes the parser or the evaluator panic by itself.  The parser keeps one argument count
  per call on its operator stack and only remembers jump positions inside its output; every call
  it emits has the arity of the function tables, because the tokenizer takes both from there.

  The second property joins the tokenizer, the parser and the evaluator: the text of a syntax tree
  evaluates to the value of the tree.
\<close>

section \<open>Arities\<close>

definition arity_ok :: "('f, 'z) expr_ops_scheme \<Rightarrow> u32 \<Rightarrow> u32 \<Rightarrow> bool" where
  "arity_ok E fid n \<longleftrightarrow>
     (if unat fid < length (FUNCTIONS E) then n = snd (snd (FUNCTIONS E ! unat fid))
      else \<forall>(name, i, k) \<in> set ASYNC_FUNCTIONS. fid = i + of_nat (length (FUNCTIONS E)) \<longrightarrow> n = k)"

fun tok_ok :: "('f, 'z) expr_ops_scheme \<Rightarrow> ('f, 'r) token \<Rightarrow> bool" where
  "tok_ok E (TFunction name fid n) = arity_ok E fid n"
| "tok_ok E _ = True"

fun item_ok :: "('f, 'z) expr_ops_scheme \<Rightarrow> ('f, 'r) expression_item \<Rightarrow> bool" where
  "item_ok E (IFunction fid n) = arity_ok E fid n"
| "item_ok E _ = True"

lemma arity_ok_array [simp]: "arity_ok E ID_ARRAY_ACCESS n" "arity_ok E ID_ARRAY_BUILD n"
  by (simp_all add: arity_ok_def ID_ARRAY_ACCESS_def ID_ARRAY_BUILD_def ASYNC_FUNCTIONS_def)

lemma item_ok_function: "arity_ok E fid n \<Longrightarrow> item_ok E (function_item fid n)"
  by (simp add: function_item_def)

text \<open>The token map holds variables and constants only, as its building operations make it.\<close>

definition token_map_ok :: "('f, 'r, 'z) token_env_scheme \<Rightarrow> bool" where
  "token_map_ok E \<longleftrightarrow> (\<forall>w tok. tokens E w = Some tok \<longrightarrow> tok_ok E tok)"

lemma function_token_ok: "function_token E name = Some tok \<Longrightarrow> tok_ok E tok"
proof (cases "position (\<lambda>(n, _, _). n = name) (FUNCTIONS E)")
  case (Some i)
  then have "i < 43" by (auto simp: position_eq_Some_iff)
  then have "unat (of_nat i :: u32) = i" "i < 43" by (simp_all add: unat_of_nat_u32)
  moreover assume "function_token E name = Some tok"
  ultimately show ?thesis using Some by (auto simp: function_token_def arity_ok_def)
next
  case None
  assume "function_token E name = Some tok"
  with None obtain n i k where "(n, i, k) \<in> set ASYNC_FUNCTIONS" "tok = TFunction n (i + 43) k"
    by (auto simp: function_token_def find_Some_iff split: option.splits dest: nth_mem)
  then show ?thesis by (auto simp: ASYNC_FUNCTIONS_def arity_ok_def)
qed

lemma parse_buf_ok: "token_map_ok E \<Longrightarrow> parse_buf E t = Inr (tok, t') \<Longrightarrow> tok_ok E tok"
  by (auto simp: parse_buf_def word_token_def Let_def token_map_ok_def
      split: if_splits option.splits sum.splits dest: function_token_ok)

lemma prev_token_ok: "token_map_ok E \<Longrightarrow> prev_token E ch t = Inr (Some tok, t') \<Longrightarrow> tok_ok E tok"
  unfolding prev_token_def
  by (auto split: if_splits option.splits sum.splits prod.splits dest: parse_buf_ok)

definition not_function :: "('f, 'r) token \<Rightarrow> bool" where
  "not_function tok \<longleftrightarrow> (\<forall>name fid n. tok \<noteq> TFunction name fid n)"

definition gives_no_function :: "expr_error + (('f, 'r) token option \<times> ('f, 'r) tokenizer) \<Rightarrow> bool" where
  "gives_no_function r \<longleftrightarrow> (\<forall>tok t. r = Inr (Some tok, t) \<longrightarrow> not_function tok)"

lemma gives_no_function_if:
  "gives_no_function x \<Longrightarrow> gives_no_function y \<Longrightarrow> gives_no_function (if b then x else y)"
  by simp

lemma symbol_token_not_function: "gives_no_function (symbol_token ch t)"
  unfolding symbol_token_def
  by (intro gives_no_function_if)
     (auto simp: gives_no_function_def not_function_def Let_def split: list.splits sum.splits prod.splits)

lemma symbol_token_ok: "symbol_token ch t = Inr (Some tok, t') \<Longrightarrow> tok_ok E tok"
  using symbol_token_not_function [of ch t]
  by (cases tok) (auto simp: gives_no_function_def not_function_def)

lemma tok_loop_ok:
  "token_map_ok E \<Longrightarrow> next_token t = [] \<Longrightarrow> tok_loop E t it = Inr (Some tok, t') \<Longrightarrow>
   tok_ok E tok \<and> list_all (tok_ok E) (next_token t')"
proof (induction E t it rule: tok_loop.induct)
  case (1 E t)
  then show ?case
    by (auto simp: tok_end_def split: if_splits sum.splits dest: parse_buf_ok parse_buf_frame)
next
  case (2 E t ch rest)
  show ?case
  proof (cases "\<not> is_word_char ch \<and> \<not> is_digit ch \<and> ch \<noteq> CHR ''.'' \<and> ch \<noteq> CHR ''}'' \<and>
      \<not> continues_word ch (buf t)")
    case False
    with 2 show ?thesis
      by (auto simp: tok_end_def split: if_splits sum.splits dest: parse_buf_ok parse_buf_frame)
  next
    case sym: True
    with "2.prems" obtain prev t1 where prev: "prev_token E ch (t\<lparr>iter := rest\<rparr>) = Inr (prev, t1)"
      by (auto split: sum.splits)
    with sym "2.prems" obtain sy t2 where sy: "symbol_token ch t1 = Inr (sy, t2)"
      by (auto split: sum.splits)
    note fr = prev_token_frame [OF prev] symbol_token_frame [OF sy]
    show ?thesis
    proof (cases sy)
      case None
      then show ?thesis
      proof (cases prev)
        case prevNone: None
        with None fr have "t2 = t\<lparr>iter := rest\<rparr>" by simp
        with 2 sym prev sy None prevNone fr show ?thesis by fastforce
      next
        case (Some p)
        with "2.prems" sym prev sy None fr show ?thesis
          by (auto dest: prev_token_ok)
      qed
    next
      case (Some s)
      with sy have "tok_ok E s" by (auto intro: symbol_token_ok)
      with "2.prems" sym prev sy fr Some show ?thesis
        by (cases prev) (auto simp: Let_def dest: prev_token_ok)
    qed
  qed
qed

lemma tok_next_ok:
  assumes "token_map_ok E" and "list_all (tok_ok E) (next_token t)"
    and "tok_next E t = Inr (Some tok, t')"
  shows "tok_ok E tok \<and> list_all (tok_ok E) (next_token t')"
proof (cases "next_token t")
  case Nil
  with assms(3) have "tok_loop E t (iter t) = Inr (Some tok, t')"
    by (simp add: tok_next_def split: if_splits)
  from tok_loop_ok [OF assms(1) Nil this] show ?thesis .
next
  case (Cons a as)
  with assms show ?thesis by (auto simp: tok_next_def)
qed

text \<open>The tokenizer has no panic of its own.\<close>

definition no_panic :: "expr_error + 'a \<Rightarrow> bool" where
  "no_panic r \<longleftrightarrow> r \<noteq> Inl ParserPanic"

lemma no_panic_if: "no_panic x \<Longrightarrow> no_panic y \<Longrightarrow> no_panic (if b then x else y)"
  by simp

lemma find_char_no_panic: "find_char cs it \<noteq> Inl ParserPanic"
  by (induction cs it rule: find_char.induct) auto

lemma parse_string_no_panic: "parse_string stop it \<noteq> Inl ParserPanic"
proof -
  have "parse_string_loop stop l b it \<noteq> Inl ParserPanic" for l b
    by (induction stop l b it rule: parse_string_loop.induct) auto
  then show ?thesis by (simp add: parse_string_def)
qed

lemma parse_buf_no_panic: "parse_buf E t \<noteq> Inl ParserPanic"
  by (auto simp: parse_buf_def word_token_def Let_def split: option.splits sum.splits)

lemma prev_token_no_panic: "prev_token E ch t \<noteq> Inl ParserPanic"
  unfolding prev_token_def
  by (auto simp: find_char_no_panic parse_string_no_panic parse_buf_no_panic
      split: option.splits sum.splits prod.splits)

lemma symbol_token_no_panic: "no_panic (symbol_token ch t)"
  unfolding symbol_token_def
  by (intro no_panic_if)
     (auto simp: no_panic_def Let_def parse_string_no_panic split: list.splits sum.splits prod.splits)

lemma tok_end_no_panic: "tok_end E t \<noteq> Inl ParserPanic"
  by (auto simp: tok_end_def parse_buf_no_panic split: sum.splits)

lemma tok_loop_no_panic: "tok_loop E t it \<noteq> Inl ParserPanic"
proof (induction E t it rule: tok_loop.induct)
  case (2 E t ch rest)
  show ?case
  proof (cases "\<not> is_word_char ch \<and> \<not> is_digit ch \<and> ch \<noteq> CHR ''.'' \<and> ch \<noteq> CHR ''}'' \<and>
      \<not> continues_word ch (buf t)")
    case False
    with 2(1-4) show ?thesis by (auto simp: tok_end_no_panic)
  next
    case sym: True
    show ?thesis
    proof (cases "prev_token E ch (t\<lparr>iter := rest\<rparr>)")
      case (Inl e)
      with sym prev_token_no_panic [of E ch "t\<lparr>iter := rest\<rparr>"] show ?thesis by auto
    next
      case (Inr r)
      obtain prev t1 where r: "r = (prev, t1)" by (cases r)
      show ?thesis
      proof (cases "symbol_token ch t1")
        case (Inl e)
        with sym Inr r symbol_token_no_panic [of ch t1] show ?thesis by (auto simp: no_panic_def)
      next
        case sy: (Inr q)
        with 2(5) sym Inr r show ?thesis
          by (cases q; cases "fst q"; cases prev) (simp_all add: Let_def)
      qed
    qed
  qed
qed (simp add: tok_end_no_panic)

lemma tok_next_no_panic: "tok_next E t \<noteq> Inl ParserPanic"
  by (simp add: tok_next_def tok_loop_no_panic split: list.splits)

section \<open>The parser's state\<close>

fun is_call :: "('f, 'r) token \<times> nat option \<Rightarrow> bool" where
  "is_call (TFunction name fid n, j) = True"
| "is_call (TRegex r, j) = True"
| "is_call (TSetting s, j) = True"
| "is_call _ = False"

abbreviation calls :: "('f, 'r) op_stack \<Rightarrow> nat" where
  "calls st \<equiv> length (filter is_call st)"

definition entry_ok :: "('f, 'z) expr_ops_scheme \<Rightarrow> nat \<Rightarrow> ('f, 'r) token \<times> nat option \<Rightarrow> bool" where
  "entry_ok E n x \<longleftrightarrow> tok_ok E (fst x) \<and> (case snd x of Some j \<Rightarrow> j < n | None \<Rightarrow> True)"

definition output_ok :: "('f, 'z) expr_ops_scheme \<Rightarrow> ('f, 'r) op_stack \<Rightarrow> ('f, 'r) items \<Rightarrow> bool" where
  "output_ok E st out \<longleftrightarrow> list_all (entry_ok E (length out)) st \<and> list_all (item_ok E) out"

definition parser_ok :: "('f, 'z) expr_ops_scheme \<Rightarrow> ('f, 'r) parser \<Rightarrow> bool" where
  "parser_ok E p \<longleftrightarrow>
     output_ok E (operator_stack p) (out_items p) \<and> length (arg_count p) = calls (operator_stack p)"

definition step_ok :: "('a \<Rightarrow> bool) \<Rightarrow> expr_error + 'a \<Rightarrow> bool" where
  "step_ok P r \<longleftrightarrow> (case r of Inl e \<Rightarrow> e \<noteq> ParserPanic | Inr x \<Rightarrow> P x)"

lemma entry_ok_mono: "list_all (entry_ok E n) st \<Longrightarrow> n \<le> m \<Longrightarrow> list_all (entry_ok E m) st"
  by (auto simp: list_all_iff entry_ok_def split: option.splits)

lemma output_ok_append: "output_ok E st out \<Longrightarrow> list_all (item_ok E) code \<Longrightarrow> output_ok E st (out @ code)"
  by (auto simp: output_ok_def intro: entry_ok_mono)

lemma output_ok_snoc: "output_ok E st out \<Longrightarrow> item_ok E i \<Longrightarrow> output_ok E st (out @ [i])"
  by (rule output_ok_append) simp_all

lemma output_ok_Cons:
  "output_ok E (x # st) out \<longleftrightarrow> entry_ok E (length out) x \<and> output_ok E st out"
  by (auto simp: output_ok_def)

lemma emit_binary_ok:
  assumes "output_ok E ((tok, j) # st) out"
  shows "step_ok (output_ok E st) (emit_binary bop j out)"
proof (cases j)
  case None
  with assms show ?thesis
    by (simp add: emit_binary_def update_jmp_pos_def step_ok_def output_ok_Cons output_ok_snoc)
next
  case (Some i)
  with assms have i: "i < length out" "output_ok E st out"
    by (auto simp: output_ok_Cons entry_ok_def)
  then have "output_ok E st (out[i := IJmpIf v n])" for v n
    by (auto simp: output_ok_def list_all_iff dest: set_update_subset_insert [THEN subsetD])
  with i show ?thesis
    by (auto simp: Some emit_binary_def update_jmp_pos_def step_ok_def output_ok_snoc
        split: expression_item.splits)
qed

lemma output_ok_unary: "output_ok E ((tok, j) # st) out \<Longrightarrow> output_ok E st (out @ [IUnaryOperator u])"
  by (simp add: output_ok_Cons output_ok_snoc)

lemma close_loop_ok:
  "output_ok E st out \<Longrightarrow>
   step_ok (\<lambda>(st', out'). output_ok E st' out' \<and> calls st' = calls st) (close_loop expect st out)"
proof (induction expect st out rule: close_loop.induct)
  case (3 expect bop j st out)
  with emit_binary_ok [OF "3.prems", of bop] show ?case
    by (auto simp: step_ok_def split: sum.splits)
qed (auto simp: step_ok_def output_ok_Cons output_ok_snoc)

lemma binary_loop_ok:
  "output_ok E st out \<Longrightarrow>
   step_ok (\<lambda>(st', out'). output_ok E st' out' \<and> calls st' = calls st) (binary_loop bop st out)"
proof (induction bop st out rule: binary_loop.induct)
  case (1 bop top_bop j st out)
  with emit_binary_ok [OF "1.prems", of top_bop] show ?case
    by (auto simp: step_ok_def split: sum.splits)
qed (auto simp: step_ok_def output_ok_Cons output_ok_snoc)

lemma comma_loop_ok:
  "output_ok E st out \<Longrightarrow>
   step_ok (\<lambda>(st', out'). output_ok E st' out' \<and> calls st' = calls st) (comma_loop st out)"
proof (induction st out rule: comma_loop.induct)
  case (1 bop j st out)
  with emit_binary_ok [OF "1.prems", of bop] show ?case
    by (auto simp: step_ok_def split: sum.splits)
qed (auto simp: step_ok_def output_ok_Cons output_ok_snoc)

lemma final_loop_ok:
  "output_ok E st out \<Longrightarrow> step_ok (list_all (item_ok E)) (final_loop st out)"
proof (induction st out rule: final_loop.induct)
  case (2 bop j st out)
  with emit_binary_ok [OF "2.prems", of bop] show ?case
    by (auto simp: step_ok_def split: sum.splits)
qed (auto simp: step_ok_def output_ok_Cons output_ok_snoc output_ok_def [of _ "[]"])

lemma bump_build_ok:
  "output_ok E (bump_build st) out \<longleftrightarrow> output_ok E st out" "calls (bump_build st) = calls st"
  by (cases st rule: bump_build.cases; auto simp: output_ok_Cons entry_ok_def)+

lemma inc_arg_count_ok: "parser_ok E p \<Longrightarrow> parser_ok E (inc_arg_count p)"
  by (auto simp: parser_ok_def inc_arg_count_def bump_build_ok split: list.splits)

lemma push_operand_ok: "parser_ok E p \<Longrightarrow> item_ok E item \<Longrightarrow> parser_ok E (push_operand item p)"
  using inc_arg_count_ok [of E p]
  by (simp add: push_operand_def parser_ok_def Let_def output_ok_snoc)

lemma push_call_ok:
  "parser_ok E p \<Longrightarrow> tok_ok E tok \<Longrightarrow> is_call (tok, None) \<Longrightarrow> parser_ok E (push_call tok p)"
  using inc_arg_count_ok [of E p]
  by (simp add: push_call_def parser_ok_def Let_def output_ok_Cons entry_ok_def)

lemma open_bracket_ok: "parser_ok E p \<Longrightarrow> parser_ok E (open_bracket p)"
  using inc_arg_count_ok [of E p]
  by (simp add: open_bracket_def parser_ok_def output_ok_Cons entry_ok_def)

lemma close_call_ok: "parser_ok E p \<Longrightarrow> step_ok (parser_ok E) (close_call p)"
  unfolding close_call_def
  by (auto simp: step_ok_def parser_ok_def output_ok_Cons entry_ok_def intro!: output_ok_snoc item_ok_function
      split: list.splits token.splits)

lemma parse_close_ok:
  assumes "parser_ok E p"
  shows "step_ok (parser_ok E) (parse_close expect p)"
proof -
  have loop: "step_ok (\<lambda>(st', out'). output_ok E st' out' \<and> calls st' = calls (operator_stack p))
      (close_loop expect (operator_stack p) (out_items p))"
    using assms by (intro close_loop_ok) (simp add: parser_ok_def)
  show ?thesis
  proof (cases "close_loop expect (operator_stack p) (out_items p)")
    case (Inr r)
    with loop assms have "parser_ok E (p\<lparr>operator_stack := fst r, out_items := snd r\<rparr>)"
      by (auto simp: step_ok_def parser_ok_def)
    from close_call_ok [OF this] Inr show ?thesis
      by (cases r) (simp add: parse_close_def)
  qed (use loop in \<open>simp add: parse_close_def step_ok_def\<close>)
qed

lemma parse_binary_ok:
  assumes "parser_ok E p"
  shows "step_ok (parser_ok E) (parse_binary bop p)"
proof -
  have loop: "step_ok (\<lambda>(st', out'). output_ok E st' out' \<and> calls st' = calls (operator_stack p))
      (binary_loop bop (operator_stack p) (out_items p))"
    using assms by (intro binary_loop_ok) (simp add: parser_ok_def)
  have dec: "operator_stack (dec_arg_count p) = operator_stack p" "out_items (dec_arg_count p) = out_items p"
    "length (arg_count (dec_arg_count p)) = length (arg_count p)"
    by (simp_all add: dec_arg_count_def split: list.splits)
  have jump: "output_ok E st out \<Longrightarrow> output_ok E st (out @ jump_item bop)"
    "bop \<in> {BAnd, BOr} \<Longrightarrow> jump_item bop \<noteq> ([] :: ('a, 'c) items)" for st :: "('a, 'c) op_stack" and out
    by (auto simp: jump_item_def output_ok_snoc split: binary_operator.splits)
  show ?thesis
  proof (cases "binary_loop bop (operator_stack p) (out_items p)")
    case (Inr r)
    then show ?thesis
      using loop assms dec jump(1) [of "fst r" "snd r"] jump(2)
      by (auto simp: parse_binary_def step_ok_def parser_ok_def output_ok_Cons entry_ok_def split: prod.splits)
  qed (use loop dec in \<open>simp add: parse_binary_def step_ok_def\<close>)
qed

lemma parse_comma_ok:
  assumes "parser_ok E p"
  shows "step_ok (parser_ok E) (parse_token TComma p)"
  using comma_loop_ok [of E "operator_stack p" "out_items p"] assms
  by (auto simp: step_ok_def parser_ok_def split: sum.splits)

lemma parse_token_ok:
  assumes "parser_ok E p" and "tok_ok E tok"
  shows "step_ok (parser_ok E) (parse_token tok p)"
proof (cases tok)
  case TComma
  with parse_comma_ok [OF assms(1)] show ?thesis by simp
next
  case (TBinaryOperator bop)
  with parse_binary_ok [OF assms(1)] show ?thesis by simp
next
  case TCloseParen
  with parse_close_ok [OF assms(1)] show ?thesis by simp
next
  case TCloseBracket
  with parse_close_ok [OF assms(1)] show ?thesis by simp
next
  case TOpenBracket
  with open_bracket_ok [OF assms(1)] show ?thesis by (simp add: step_ok_def)
qed (use assms in \<open>auto simp: step_ok_def push_operand_ok push_call_ok\<close>,
     (simp add: parser_ok_def output_ok_Cons entry_ok_def)+)

lemma parse_step_ok:
  "parser_ok E p \<Longrightarrow> tok_ok E tok \<Longrightarrow> step_ok (parser_ok E) (parse_step tok p)"
  using parse_token_ok [of E p tok] by (auto simp: parse_step_def step_ok_def parser_ok_def split: sum.splits)

lemma parse_loop_ok:
  "token_map_ok E \<Longrightarrow> list_all (tok_ok E) (next_token t) \<Longrightarrow> parser_ok E p \<Longrightarrow>
   step_ok (list_all (item_ok E)) (parse_loop E t p)"
proof (induction E t p rule: parse_loop.induct)
  case (1 E t p)
  show ?case
  proof (cases "tok_next E t")
    case (Inl e)
    then show ?thesis
      using tok_next_no_panic [of E t] by (subst parse_loop.simps) (auto simp: step_ok_def)
  next
    case (Inr r)
    show ?thesis
    proof (cases "fst r")
      case None
      with Inr 1(4) final_loop_ok [of E "operator_stack p" "out_items p"] show ?thesis
        by (subst parse_loop.simps) (cases r, simp add: parse_end_def parser_ok_def)
    next
      case (Some tok)
      with Inr obtain t' where nxt: "tok_next E t = Inr (Some tok, t')" by (cases r) auto
      note ok = tok_next_ok [OF 1(2,3) nxt]
      with 1(4) parse_step_ok [of E p tok] have step: "step_ok (parser_ok E) (parse_step tok p)" by simp
      show ?thesis
      proof (cases "parse_step tok p")
        case (Inl e)
        with step nxt show ?thesis by (subst parse_loop.simps) (simp add: step_ok_def)
      next
        case stepped: (Inr p')
        with step have "parser_ok E p'" by (simp add: step_ok_def)
        with 1(1) [OF nxt refl refl stepped 1(2)] ok nxt stepped show ?thesis
          by (subst parse_loop.simps) simp
      qed
    qed
  qed
qed

lemma parse_expression_ok:
  assumes "token_map_ok E"
  shows "step_ok (list_all (item_ok E)) (parse_expression E text)"
  unfolding parse_expression_def
  by (rule parse_loop_ok [OF assms]) (simp_all add: tokenizer_new_def parser_ok_def parser_new_def output_ok_def)

section \<open>The evaluator\<close>

lemma length_pop_args [simp]: "length (fst (pop_args n st)) = n"
  by (simp add: pop_args_def)

lemma call_function_calm:
  assumes "\<not> sort_panics E" and "arity_ok E fid n" and "length args = unat n"
  shows "fst (call_function E fid args w) \<noteq> Inl EvalPanic"
proof (cases "unat fid < length (FUNCTIONS E)")
  case True
  then obtain name f where f: "FUNCTIONS E ! unat fid = (name, f, n)"
    using assms(2) by (cases "FUNCTIONS E ! unat fid") (auto simp: arity_ok_def)
  with True have "(name, f, n) \<in> set (FUNCTIONS E)" by (metis nth_mem)
  from FUNCTIONS_total [OF this assms(3,1)] show ?thesis
    using True f by (auto simp: call_function_def split: option.splits)
next
  case False
  let ?i = "fid - of_nat (length (FUNCTIONS E))"
  have "fst (eval_fnc E (env_services E) ?i args w) \<noteq> Inl EvalPanic"
  proof (cases "?i \<in> (fst \<circ> snd) ` set ASYNC_FUNCTIONS")
    case True
    then obtain name k where k: "(name, ?i, k) \<in> set ASYNC_FUNCTIONS" by auto
    moreover have "fid = ?i + of_nat (length (FUNCTIONS E))" by simp
    ultimately have "n = k" using assms(2) False unfolding arity_ok_def by fastforce
    with ASYNC_FUNCTIONS_total [OF k] assms(3) show ?thesis by simp
  qed (simp add: eval_fnc_unknown)
  with False show ?thesis by (simp add: call_function_def)
qed

lemma setting_value_calm: "fst (setting_value E s w) \<noteq> Inl EvalPanic"
  by (cases s) (simp_all add: setting_value_def answered_no_panic)

lemma eval_items_calm:
  "\<not> sort_panics E \<Longrightarrow> list_all (item_ok E) items \<Longrightarrow> fst (eval_items E items st c w) \<noteq> Inl EvalPanic"
proof (induction E items st c w rule: eval_items.induct)
  case (6 E s items st c w)
  then show ?case
    using setting_value_calm [of E s w] by (auto split: prod.splits sum.splits)
next
  case (9 E fid n items st c w)
  then have "fst (call_function E fid (fst (pop_args (unat n) st)) w) \<noteq> Inl EvalPanic"
    by (intro call_function_calm) auto
  with 9 show ?case by (auto split: prod.splits sum.splits)
next
  case (10 E v pos items st c w)
  then show ?case by (auto simp: list_all_iff dest: in_set_dropD)
qed (auto simp: Let_def split: prod.splits)

text \<open>
  C13: No expression text makes the server panic by itself.  Provided the map of known words holds
  no functions, whatever the text, the tokenizer and the parser return an expression or an error;
  and evaluating an expression they returned never reads a missing argument, neither of a
  built-in function nor of one that asks a service, whatever the variables hold and whatever the
  services answer.  The only panic left is that of the standard library's sort, which may happen
  where the comparison of values is not a total order.
\<close>

theorem expression_never_panics:
  assumes "token_map_ok E"
  shows "parse_expression E text \<noteq> Inl ParserPanic \<and>
    (\<forall>items. parse_expression E text = Inr items \<longrightarrow>
       fst (eval_expr E items c w) = Inl EvalPanic \<longrightarrow> sort_panics E)"
proof (intro conjI allI impI)
  have ok: "step_ok (list_all (item_ok E)) (parse_expression E text)"
    using assms by (rule parse_expression_ok)
  then show "parse_expression E text \<noteq> Inl ParserPanic" by (auto simp: step_ok_def)
  fix items
  assume "parse_expression E text = Inr items" and panic: "fst (eval_expr E items c w) = Inl EvalPanic"
  with ok have "list_all (item_ok E) items" by (simp add: step_ok_def)
  from eval_items_calm [OF _ this] panic show "sort_panics E" by (auto simp: eval_expr_def)
qed

definition demo_services :: "(int, unit) services" where
  "demo_services =
     \<lparr>sv_is_local_domain = (\<lambda>_ _ w. (Inr True, w)), sv_rcpt = (\<lambda>_ _ w. (Inr RcptMailbox, w)),
      sv_key_get = (\<lambda>_ _ w. (Inr None, w)), sv_key_exists = (\<lambda>_ _ w. (Inr False, w)),
      sv_key_set = (\<lambda>_ _ _ w. (Inr (), w)), sv_counter_incr = (\<lambda>_ _ i w. (Inr i, w)),
      sv_counter_get = (\<lambda>_ _ w. (Inr 0, w)), sv_sql_rows = (\<lambda>_ _ _ w. (Inl ''no store'', w)),
      sv_sql_execute = (\<lambda>_ _ _ w. (Inl ''no store'', w)), sv_ip_lookup = (\<lambda>_ w. (Inr [], w)),
      sv_mx_lookup = (\<lambda>_ w. (Inr [], w)), sv_txt_raw_lookup = (\<lambda>_ w. (Inl ''no record'', w)),
      sv_ptr_lookup = (\<lambda>_ w. (Inr [], w)), sv_ipv4_lookup = (\<lambda>_ w. (Inr [], w)),
      sv_ipv6_lookup = (\<lambda>_ w. (Inr [], w))\<rparr>"

definition demo_env :: "(int, string, unit) eval_env" where
  "demo_env =
     \<lparr>f_add = (+), f_sub = (-), f_mul = (*), f_div = (div), f_neg = uminus, f_of_i64 = sint,
      f_to_i64 = word_of_int, f_to_usize = word_of_int, f_to_u64 = word_of_int, f_eq = (=),
      f_cmp = (\<lambda>a b. Some (if a < b then Less else if a = b then Equal else Greater)),
      f_parse = (\<lambda>_. None), f_show = (\<lambda>_. []),
      x_to_lowercase = map ascii_lower, x_to_uppercase = (\<lambda>s. s), x_is_alphabetic = (\<lambda>_. False),
      x_is_uppercase = (\<lambda>_. False), x_is_lowercase = (\<lambda>_. False), x_is_alphanumeric = (\<lambda>_. True),
      x_sort_by = (\<lambda>_ l. Some l), x_parse_ip = (\<lambda>_. None), x_to_reverse_name = (\<lambda>_. []),
      x_md5 = (\<lambda>s. s), x_sha1 = (\<lambda>s. s), x_sha256 = (\<lambda>s. s), x_sha512 = (\<lambda>s. s),
      tokens = [''rcpt'' \<mapsto> TVariable 0, ''is_tls'' \<mapsto> TVariable 14], regex_new = Some,
      resolve_variable = (\<lambda>v. if v = 0 then VString ''a'' else VInteger 0),
      resolve_global = (\<lambda>_. default_variable), server_name = ''mx'', report_domain = ''org'',
      node_id = 1, config_get = (\<lambda>_ w. (Inr None, w)), env_services = demo_services,
      regex_captures = (\<lambda>_ _. None)\<rparr>"

lemma demo_env_ok: "token_map_ok demo_env" "\<not> sort_panics demo_env"
  by (auto simp: demo_env_def token_map_ok_def sort_panics_def split: if_splits)

theorem expression_never_panics_witness:
  "token_map_ok demo_env \<and> parse_expression demo_env ''rcpt == )'' \<noteq> Inl ParserPanic \<and>
   (case parse_expression demo_env ''key_set(rcpt, rcpt, rcpt)'' of
      Inr items \<Rightarrow> fst (eval_expr demo_env items [] ()) \<noteq> Inl EvalPanic
    | Inl _ \<Rightarrow> True)"
  using expression_never_panics [OF demo_env_ok(1), of "''rcpt == )''" "[]" "()"]
    expression_never_panics [OF demo_env_ok(1), of "''key_set(rcpt, rcpt, rcpt)''" "[]" "()"] demo_env_ok
  by (auto split: sum.split)

text \<open>
  C3: An expression means what its syntax says.  For every syntax tree that respects the
  precedences, has no array item that starts with a unary operator or a parenthesis, and compiles
  to fewer than 2^32 items, and every text that spells its tokens, the tokenizer and the parser
  return its postfix program, and the stack machine runs the program to exactly the value of the tree:
  operands from left to right, the right operand of a short-circuit operator only when it is
  needed, errors and effects in that order.
\<close>

theorem expression_text_value:
  assumes "wf_tree e" and "spelled E True 0 (tree_tokens e) text" and "length (compile e) < 2 ^ 32"
  shows "parse_expression E text = Inr (compile e) \<and> eval_expr E (compile e) c w = tree_value E e c w"
proof -
  have "eval_items E (compile e @ []) [] c w = tree_value E e c w"
    unfolding eval_compile(1) [OF assms(3)] by (simp add: answer_then_def split: prod.splits sum.splits)
  with expression_text_compiles [OF assms(1,2)] show ?thesis by (simp add: eval_expr_def)
qed

definition demo_tree :: "(int, string) tree" where
  "demo_tree = Binary BAnd (Binary BEq (Var 0) (Const (CString ''a''))) (Unary UNot (Var 14))"

definition demo_text :: string where
  "demo_text = ''rcpt '' @ operator_text BEq @ quoted ''a'' @ '' '' @ operator_text BAnd @ ''! is_tls ''"

lemma demo_words: "scan_word demo_env ''rcpt'' = Inr (TVariable 0)" "scan_word demo_env ''is_tls'' = Inr (TVariable 14)"
  by (simp_all add: scan_word_def word_token_def function_token_def FUNCTIONS_def ASYNC_FUNCTIONS_def
      demo_env_def is_digit_def is_word_char_def)

lemma demo_spelled: "spelled demo_env True 0 (tree_tokens demo_tree) demo_text"
proof -
  have "spelled demo_env False 0 [TVariable 14] (''is_tls'' @ CHR '' '' # [])"
    by (rule sp_word) (simp_all add: demo_words word_text_def is_word_char_def sp_end)
  then have "spelled demo_env False 0 [TVariable 14] ''is_tls ''" by simp
  then have "spelled demo_env True 0 [TUnaryOperator UNot, TVariable 14] (''! '' @ ''is_tls '')"
    by (rule sp_not)
  then have "spelled demo_env False 0 [TBinaryOperator BAnd, TUnaryOperator UNot, TVariable 14]
      (CHR '' '' # operator_text BAnd @ ''! '' @ ''is_tls '')"
    by (intro sp_space sp_operator) simp_all
  then have "spelled demo_env True 0
      [TConstant (CString ''a''), TBinaryOperator BAnd, TUnaryOperator UNot, TVariable 14]
      (quoted ''a'' @ CHR '' '' # operator_text BAnd @ ''! '' @ ''is_tls '')"
    by (intro sp_string) (simp_all add: plain_literal_def)
  then have "spelled demo_env False 0
      [TBinaryOperator BEq, TConstant (CString ''a''), TBinaryOperator BAnd, TUnaryOperator UNot, TVariable 14]
      (operator_text BEq @ quoted ''a'' @ CHR '' '' # operator_text BAnd @ ''! '' @ ''is_tls '')"
    by (intro sp_operator) simp_all
  then have "spelled demo_env True 0 (TVariable 0 #
      [TBinaryOperator BEq, TConstant (CString ''a''), TBinaryOperator BAnd, TUnaryOperator UNot, TVariable 14])
      (''rcpt'' @ CHR '' '' # operator_text BEq @ quoted ''a'' @ CHR '' '' # operator_text BAnd @ ''! '' @ ''is_tls '')"
    by (intro sp_word) (simp_all add: demo_words word_text_def is_word_char_def)
  then show ?thesis by (simp add: demo_tree_def demo_text_def)
qed

theorem expression_text_value_witness:
  "wf_tree demo_tree \<and>
   (case parse_expression demo_env demo_text of
      Inr items \<Rightarrow> eval_expr demo_env items [] () = (Inr (VInteger 1), [], ())
    | Inl _ \<Rightarrow> False)"
proof -
  have wf: "wf_tree demo_tree" by (simp add: demo_tree_def)
  have len: "length (compile demo_tree) < 2 ^ 32" by (simp add: demo_tree_def jump_code_def)
  have "tree_value demo_env demo_tree [] () = (Inr (VInteger 1), [], ())"
    by (simp add: demo_tree_def demo_env_def binary_value_def unary_value_def op_eq_def op_not_def op_and_def
        variable_of_bool_def)
  with expression_text_value [OF wf demo_spelled len, of "[]" "()"] wf show ?thesis by simp
qed

section \<open>Deviations of the language\<close>

text \<open>
  A backslash that escapes a character stays in the string literal; after an escaped backslash the
  closing quote is taken as escaped too.
\<close>

lemma string_literal_keeps_backslash:
  "parse_string (CHR 0x22) [CHR 0x5C, CHR 0x22, CHR 0x22] = Inr ([CHR 0x5C, CHR 0x22], [])"
  "parse_string (CHR 0x22) [CHR 0x5C, CHR 0x5C, CHR 0x22] = Inl UnterminatedString"
  by (simp_all add: parse_string_def unescape_def)

text \<open>A single equals sign swallows the character after it.\<close>

lemma single_equals_swallows:
  "symbol_token (CHR ''='') (at b d (CHR ''x'' # text)) = Inr (Some (TBinaryOperator BEq), at b d text)"
  by (simp add: symbol_token_def at_simps)

text \<open>An array item that starts with a unary operator or a parenthesis is not counted.\<close>

lemma array_item_miscounted:
  "parse_tokens (tree_tokens (Build [Unary UNot (Var 0)])) parser_new = Inl (WrongArguments ''array'')"
  "parse_tokens (tree_tokens (Build [Paren (Var 0)])) parser_new = Inl (WrongArguments ''array'')"
  by (simp_all add: parser_new_def parse_step_def open_bracket_def inc_arg_count_def push_operand_def Let_def
      parse_close_def close_call_def inc_i32_def ID_ARRAY_BUILD_def ID_ARRAY_ACCESS_def)

text \<open>The order of values is not antisymmetric: a string and an array are each above the other.\<close>

lemma var_cmp_not_antisymmetric:
  "var_cmp F (VString s) (VArray l) = Greater" "var_cmp F (VArray l) (VString s) = Greater"
  by (simp_all add: var_cmp_def)

end
