(* ===== verification/ExprIfBlock.thy ===== *)
theory ExprIfBlock
  imports ExprSafety
begin

text \<open>
  Reading an \<open>if\<close> block from the configuration (\<open>crates/common/src/expr/if_block.rs\<close>): a single
  expression under the key itself, or the items \<open>key.pos.if\<close>, \<open>key.pos.then\<close> and
  \<open>key.pos.else\<close> in key order.

  The configuration is the ordered list of its keys and values, as the \<open>BTreeMap\<close> iterates them,
  and the list of reported errors.  Reading ends with a block, with \<open>GaveUp\<close> where the code returns
  nothing, or with \<open>Panicked\<close> where its \<open>unwrap\<close> fails.
\<close>

datatype 'a attempt = Done 'a | GaveUp | Panicked

datatype if_block_error =
    ParseFailed expr_error
  | MissingThen string
  | ElseBeforeIf
  | MultipleElse
  | ThenWithoutIf
  | ThenInElse
  | InvalidProperty string
  | MissingElse

record config =
  cfg_keys :: "(string \<times> string) list"
  cfg_errors :: "(string \<times> if_block_error) list"

definition cfg_value :: "config \<Rightarrow> string \<Rightarrow> string option" where
  "cfg_value cfg key = map_of (cfg_keys cfg) key"

definition new_parse_error :: "config \<Rightarrow> string \<Rightarrow> if_block_error \<Rightarrow> config" where
  "new_parse_error cfg key e = cfg\<lparr>cfg_errors := (key, e) # cfg_errors cfg\<rparr>"

definition try_parse_expr ::
    "('f, 'r, 'z) token_env_scheme \<Rightarrow> config \<Rightarrow> string \<Rightarrow> ('f, 'r) items option \<times> config" where
  "try_parse_expr E cfg key =
     (case cfg_value cfg key of
        Some expr \<Rightarrow>
          (case parse_expression E expr of
             Inr items \<Rightarrow> (Some items, cfg)
           | Inl e \<Rightarrow> (None, new_parse_error cfg key (ParseFailed e)))
      | None \<Rightarrow> (None, cfg))"

record ('f, 'r) if_scan =
  sc_block :: "('f, 'r) if_block"
  sc_found_if :: bool
  sc_found_else :: string
  sc_found_then :: bool
  sc_last_pos :: string

definition if_key_of :: "string \<Rightarrow> string" where
  "if_key_of rest = (case split_once rest ''.'' of Some (v, _) \<Rightarrow> v | None \<Rightarrow> rest)"

definition set_last_then :: "('f, 'r) items \<Rightarrow> ('f, 'r) if_block \<Rightarrow> ('f, 'r) if_block option" where
  "set_last_then items b =
     (if ib_if_then b = [] then None
      else Some (b\<lparr>ib_if_then :=
        butlast (ib_if_then b) @ [(last (ib_if_then b))\<lparr>it_then := items\<rparr>]\<rparr>))"

text \<open>
  One key of the block.  The \<open>unwrap\<close> on the last condition fails when there is none, which an empty
  position before the first condition makes possible.
\<close>

definition scan_item ::
    "('f, 'r, 'z) token_env_scheme \<Rightarrow> string \<Rightarrow> string \<Rightarrow> ('f, 'r) if_scan \<Rightarrow> config \<Rightarrow>
     ('f, 'r) if_scan attempt \<times> config" where
  "scan_item E pfx item s cfg =
     (let key = ib_key (sc_block s) in
      case split_once (drop (length pfx) item) ''.'' of
        None \<Rightarrow> (GaveUp, new_parse_error cfg key (InvalidProperty item))
      | Some (array_pos, rest) \<Rightarrow>
          (let if_key = if_key_of rest in
           if if_key = ''if'' then
             (if array_pos \<noteq> sc_last_pos s then
                (if sc_last_pos s \<noteq> [] \<and> \<not> sc_found_then s then
                   (GaveUp, new_parse_error cfg key (MissingThen (sc_last_pos s)))
                 else
                   (case try_parse_expr E cfg item of
                      (None, cfg') \<Rightarrow> (GaveUp, cfg')
                    | (Some items, cfg') \<Rightarrow>
                        (Done (s\<lparr>sc_block := (sc_block s)\<lparr>ib_if_then :=
                                   ib_if_then (sc_block s) @ [\<lparr>it_expr = items, it_then = []\<rparr>]\<rparr>,
                                 sc_found_then := False, sc_last_pos := array_pos,
                                 sc_found_if := True\<rparr>), cfg')))
              else (Done (s\<lparr>sc_found_if := True\<rparr>), cfg))
           else if if_key = ''else'' then
             (if sc_found_else s = [] then
                (if sc_found_if s then
                   (case try_parse_expr E cfg item of
                      (None, cfg') \<Rightarrow> (GaveUp, cfg')
                    | (Some items, cfg') \<Rightarrow>
                        (Done (s\<lparr>sc_block := (sc_block s)\<lparr>ib_default := items\<rparr>,
                                 sc_found_else := array_pos\<rparr>), cfg'))
                 else (GaveUp, new_parse_error cfg key ElseBeforeIf))
              else if array_pos \<noteq> sc_found_else s then (GaveUp, new_parse_error cfg key MultipleElse)
              else (Done s, cfg))
           else if if_key = ''then'' then
             (if sc_found_else s = [] then
                (if array_pos = sc_last_pos s then
                   (if \<not> sc_found_then s then
                      (case try_parse_expr E cfg item of
                         (None, cfg') \<Rightarrow> (GaveUp, cfg')
                       | (Some items, cfg') \<Rightarrow>
                           (case set_last_then items (sc_block s) of
                              None \<Rightarrow> (Panicked, cfg')
                            | Some b \<Rightarrow> (Done (s\<lparr>sc_block := b, sc_found_then := True\<rparr>), cfg')))
                    else (Done s, cfg))
                 else (GaveUp, new_parse_error cfg key ThenWithoutIf))
              else (GaveUp, new_parse_error cfg key ThenInElse))
           else (Done s, cfg)))"

fun scan_items ::
    "('f, 'r, 'z) token_env_scheme \<Rightarrow> string \<Rightarrow> string list \<Rightarrow> ('f, 'r) if_scan \<Rightarrow> config \<Rightarrow>
     ('f, 'r) if_scan attempt \<times> config" where
  "scan_items E pfx [] s cfg = (Done s, cfg)"
| "scan_items E pfx (item # items) s cfg =
     (case scan_item E pfx item s cfg of
        (Done s', cfg') \<Rightarrow> scan_items E pfx items s' cfg'
      | (GaveUp, cfg') \<Rightarrow> (GaveUp, cfg')
      | (Panicked, cfg') \<Rightarrow> (Panicked, cfg'))"

definition scan_end :: "('f, 'r) if_scan \<Rightarrow> config \<Rightarrow> ('f, 'r) if_block attempt \<times> config" where
  "scan_end s cfg =
     (let key = ib_key (sc_block s) in
      if \<not> sc_found_if s then (GaveUp, cfg)
      else if \<not> sc_found_then s then (GaveUp, new_parse_error cfg key (MissingThen (sc_last_pos s)))
      else if sc_found_else s = [] then (GaveUp, new_parse_error cfg key MissingElse)
      else (Done (sc_block s), cfg))"

definition scan_start :: "string \<Rightarrow> ('f, 'r) if_scan" where
  "scan_start key =
     \<lparr>sc_block = if_block_empty key, sc_found_if = False, sc_found_else = [], sc_found_then = False,
      sc_last_pos = []\<rparr>"

definition if_block_try_parse ::
    "('f, 'r, 'z) token_env_scheme \<Rightarrow> config \<Rightarrow> string \<Rightarrow> ('f, 'r) if_block attempt \<times> config" where
  "if_block_try_parse E cfg key =
     (if cfg_value cfg key \<noteq> None then
        (case try_parse_expr E cfg key of
           (None, cfg') \<Rightarrow> (GaveUp, cfg')
         | (Some items, cfg') \<Rightarrow> (Done ((if_block_empty key)\<lparr>ib_default := items\<rparr>), cfg'))
      else
        (let p = key @ ''.'';
             keys = filter (prefix p) (map fst (cfg_keys cfg))
         in case scan_items E p keys (scan_start key) cfg of
              (Done s, cfg') \<Rightarrow> scan_end s cfg'
            | (GaveUp, cfg') \<Rightarrow> (GaveUp, cfg')
            | (Panicked, cfg') \<Rightarrow> (Panicked, cfg')))"

section \<open>What a configuration block means\<close>

text \<open>The keys of a block with the conditions at the given positions and an \<open>else\<close> at the last.\<close>

record condition =
  cd_pos :: string
  cd_if :: string
  cd_then :: string

definition item_key :: "string \<Rightarrow> string \<Rightarrow> string \<Rightarrow> string" where
  "item_key key pos kind = key @ ''.'' @ pos @ ''.'' @ kind"

definition condition_keys :: "string \<Rightarrow> condition \<Rightarrow> (string \<times> string) list" where
  "condition_keys key d =
     [(item_key key (cd_pos d) ''if'', cd_if d), (item_key key (cd_pos d) ''then'', cd_then d)]"

definition block_keys :: "string \<Rightarrow> condition list \<Rightarrow> string \<Rightarrow> string \<Rightarrow> (string \<times> string) list" where
  "block_keys key ds pos els = concat (map (condition_keys key) ds) @ [(item_key key pos ''else'', els)]"

definition position_ok :: "string \<Rightarrow> bool" where
  "position_ok pos \<longleftrightarrow> pos \<noteq> [] \<and> CHR ''.'' \<notin> set pos"

lemma str_find_dot: "CHR ''.'' \<notin> set pos \<Longrightarrow> str_find ''.'' (pos @ CHR ''.'' # rest) = Some (length pos)"
  by (induction pos) auto

lemma split_once_dot:
  "CHR ''.'' \<notin> set pos \<Longrightarrow> split_once (pos @ CHR ''.'' # rest) ''.'' = Some (pos, rest)"
  by (simp add: split_once_def str_find_dot)

lemma if_key_of_plain: "CHR ''.'' \<notin> set kind \<Longrightarrow> if_key_of kind = kind"
proof -
  assume "CHR ''.'' \<notin> set kind"
  then have "str_find ''.'' kind = None" by (induction kind) auto
  then show ?thesis by (simp add: if_key_of_def split_once_def)
qed

lemma item_key_split:
  "position_ok pos \<Longrightarrow> split_once (drop (length (key @ ''.'')) (item_key key pos kind)) ''.'' = Some (pos, kind)"
  by (simp add: item_key_def position_ok_def split_once_dot)

definition compiled :: "('f, 'r, 'z) token_env_scheme \<Rightarrow> string \<Rightarrow> ('f, 'r) items" where
  "compiled E expr = (case parse_expression E expr of Inr items \<Rightarrow> items | Inl _ \<Rightarrow> [])"

definition compiles :: "('f, 'r, 'z) token_env_scheme \<Rightarrow> string \<Rightarrow> bool" where
  "compiles E expr = (case parse_expression E expr of Inr _ \<Rightarrow> True | Inl _ \<Rightarrow> False)"

definition compile_condition :: "('f, 'r, 'z) token_env_scheme \<Rightarrow> condition \<Rightarrow> ('f, 'r) if_then" where
  "compile_condition E d = \<lparr>it_expr = compiled E (cd_if d), it_then = compiled E (cd_then d)\<rparr>"

lemma try_parse_expr_compiled:
  "cfg_value cfg key = Some expr \<Longrightarrow> compiles E expr \<Longrightarrow> try_parse_expr E cfg key = (Some (compiled E expr), cfg)"
  by (auto simp: try_parse_expr_def compiles_def compiled_def split: sum.splits)

lemma scan_conditions:
  "\<forall>d \<in> set ds. position_ok (cd_pos d) \<and> compiles E (cd_if d) \<and> compiles E (cd_then d) \<and>
     (\<forall>(k, v) \<in> set (condition_keys key d). cfg_value cfg k = Some v) \<Longrightarrow>
   distinct (sc_last_pos s # map cd_pos ds) \<Longrightarrow>
   sc_found_else s = [] \<Longrightarrow> sc_last_pos s = [] \<or> sc_found_then s \<Longrightarrow> ib_key (sc_block s) = key \<Longrightarrow>
   \<exists>s'. scan_items E (key @ ''.'') (map fst (concat (map (condition_keys key) ds)) @ items) s cfg =
        scan_items E (key @ ''.'') items s' cfg \<and>
      sc_block s' = (sc_block s)\<lparr>ib_if_then := ib_if_then (sc_block s) @ map (compile_condition E) ds\<rparr> \<and>
      sc_found_else s' = [] \<and> sc_found_if s' = (sc_found_if s \<or> ds \<noteq> []) \<and>
      sc_found_then s' = (sc_found_then s \<or> ds \<noteq> [])"
proof (induction ds arbitrary: s)
  case Nil
  then show ?case by (intro exI [of _ s]) simp
next
  case (Cons d ds)
  let ?k = "item_key key (cd_pos d)"
  from Cons.prems(1) have d: "position_ok (cd_pos d)" "compiles E (cd_if d)" "compiles E (cd_then d)"
    "cfg_value cfg (?k ''if'') = Some (cd_if d)" "cfg_value cfg (?k ''then'') = Some (cd_then d)"
    by (auto simp: condition_keys_def)
  let ?b = "sc_block s"
  define s1 where "s1 = s\<lparr>sc_block := ?b\<lparr>ib_if_then := ib_if_then ?b @ [\<lparr>it_expr = compiled E (cd_if d), it_then = []\<rparr>]\<rparr>,
    sc_found_then := False, sc_last_pos := cd_pos d, sc_found_if := True\<rparr>"
  define s2 where "s2 = s1\<lparr>sc_block := ?b\<lparr>ib_if_then := ib_if_then ?b @ [compile_condition E d]\<rparr>, sc_found_then := True\<rparr>"
  have "cd_pos d \<noteq> sc_last_pos s" using Cons.prems(2) by auto
  then have step1: "scan_item E (key @ ''.'') (?k ''if'') s cfg = (Done s1, cfg)"
    using Cons.prems(3,4) d
    by (auto simp: scan_item_def item_key_split [OF d(1), simplified] if_key_of_plain try_parse_expr_compiled s1_def Let_def)
  have step2: "scan_item E (key @ ''.'') (?k ''then'') s1 cfg = (Done s2, cfg)"
    using Cons.prems(3) d
    by (simp add: scan_item_def item_key_split [OF d(1), simplified] if_key_of_plain try_parse_expr_compiled s1_def s2_def
        set_last_then_def compile_condition_def Let_def)
  have "\<exists>s'. scan_items E (key @ ''.'') (map fst (concat (map (condition_keys key) ds)) @ items) s2 cfg =
        scan_items E (key @ ''.'') items s' cfg \<and>
      sc_block s' = (sc_block s2)\<lparr>ib_if_then := ib_if_then (sc_block s2) @ map (compile_condition E) ds\<rparr> \<and>
      sc_found_else s' = [] \<and> sc_found_if s' = (sc_found_if s2 \<or> ds \<noteq> []) \<and>
      sc_found_then s' = (sc_found_then s2 \<or> ds \<noteq> [])"
    using Cons.prems by (intro Cons.IH) (auto simp: s2_def s1_def)
  then show ?case
    using step1 step2 by (auto simp: condition_keys_def [of key d] s2_def s1_def)
qed

text \<open>
  C31: An \<open>if\<close> block of the configuration is read as written.  When there is no value under the
  block's key itself, the keys under its prefix are one or more conditions at distinct positions
  followed by the \<open>else\<close>, no position is empty or contains a dot, and every expression compiles, the
  result is the block with those conditions in order and that default, and no error is reported.
\<close>

theorem if_block_reads_conditions:
  assumes "cfg_value cfg key = None"
    and "filter (prefix (key @ ''.'')) (map fst (cfg_keys cfg)) = map fst (block_keys key ds pos els)"
    and "\<forall>(k, v) \<in> set (block_keys key ds pos els). cfg_value cfg k = Some v"
    and "ds \<noteq> []" and "distinct (map cd_pos ds)"
    and "\<forall>d \<in> set ds. position_ok (cd_pos d) \<and> compiles E (cd_if d) \<and> compiles E (cd_then d)"
    and "position_ok pos" and "compiles E els"
  shows "if_block_try_parse E cfg key =
    (Done \<lparr>ib_key = key, ib_if_then = map (compile_condition E) ds, ib_default = compiled E els\<rparr>, cfg)"
proof -
  let ?k = "item_key key pos ''else''"
  have "\<exists>s'. scan_items E (key @ ''.'') (map fst (concat (map (condition_keys key) ds)) @ [?k]) (scan_start key) cfg =
        scan_items E (key @ ''.'') [?k] s' cfg \<and>
      sc_block s' = (sc_block (scan_start key))\<lparr>ib_if_then :=
        ib_if_then (sc_block (scan_start key)) @ map (compile_condition E) ds\<rparr> \<and>
      sc_found_else s' = [] \<and> sc_found_if s' = (sc_found_if (scan_start key :: ('a, 'b) if_scan) \<or> ds \<noteq> []) \<and>
      sc_found_then s' = (sc_found_then (scan_start key :: ('a, 'b) if_scan) \<or> ds \<noteq> [])"
    using assms(3,5,6)
    by (intro scan_conditions) (auto simp: scan_start_def if_block_empty_def block_keys_def position_ok_def)
  then obtain s' where run: "scan_items E (key @ ''.'') (map fst (block_keys key ds pos els)) (scan_start key) cfg =
        scan_items E (key @ ''.'') [?k] s' cfg"
      and s': "sc_block s' = \<lparr>ib_key = key, ib_if_then = map (compile_condition E) ds, ib_default = []\<rparr>"
        "sc_found_else s' = []" "sc_found_if s'" "sc_found_then s'"
    using assms(4) by (auto simp: block_keys_def scan_start_def if_block_empty_def)
  have "cfg_value cfg ?k = Some els" using assms(3) by (auto simp: block_keys_def)
  then have "scan_items E (key @ ''.'') [?k] s' cfg =
      (Done (s'\<lparr>sc_block := (sc_block s')\<lparr>ib_default := compiled E els\<rparr>, sc_found_else := pos\<rparr>), cfg)"
    using s' assms(7,8)
    by (simp add: scan_item_def item_key_split [OF assms(7), simplified] if_key_of_plain try_parse_expr_compiled Let_def)
  with run s' assms(7) show ?thesis
    by (simp add: if_block_try_parse_def assms(1,2) Let_def scan_end_def position_ok_def)
qed

text \<open>
  A \<open>then\<close> with an empty position before every condition makes the reader panic: the empty position
  equals the initial one, and there is no condition to complete.
\<close>

lemma empty_position_then_panics:
  assumes "cfg_value cfg key = None"
    and "filter (prefix (key @ ''.'')) (map fst (cfg_keys cfg)) = item_key key [] ''then'' # items"
    and "cfg_value cfg (item_key key [] ''then'') = Some expr" and "compiles E expr"
  shows "if_block_try_parse E cfg key = (Panicked, cfg)"
proof -
  have "split_once (drop (length (key @ ''.'')) (item_key key [] ''then'')) ''.'' = Some ([], ''then'')"
    using split_once_dot [of "[]" "''then''"] by (simp add: item_key_def)
  then show ?thesis
    using assms try_parse_expr_compiled [OF assms(3,4)]
    by (simp add: if_block_try_parse_def scan_item_def scan_start_def if_block_empty_def set_last_then_def
        if_key_of_plain Let_def)
qed

lemma demo_compiles: "compiles demo_env ''rcpt ''" "compiles demo_env ''is_tls ''"
proof -
  have "spelled demo_env True 0 (tree_tokens (Var 0)) (''rcpt'' @ CHR '' '' # [])"
    "spelled demo_env True 0 (tree_tokens (Var 14)) (''is_tls'' @ CHR '' '' # [])"
    by (simp_all only: tree_tokens.simps)
       (rule sp_word; simp add: demo_words word_text_def is_word_char_def sp_end)+
  then have "parse_expression demo_env ''rcpt '' = Inr (compile (Var 0))"
    "parse_expression demo_env ''is_tls '' = Inr (compile (Var 14))"
    using expression_text_compiles [of "Var 0" demo_env] expression_text_compiles [of "Var 14" demo_env]
    by simp_all
  then show "compiles demo_env ''rcpt ''" "compiles demo_env ''is_tls ''"
    by (simp_all add: compiles_def)
qed

definition demo_config :: config where
  "demo_config =
     \<lparr>cfg_keys = block_keys ''a'' [\<lparr>cd_pos = ''0000'', cd_if = ''is_tls '', cd_then = ''rcpt ''\<rparr>] ''0001'' ''rcpt '',
      cfg_errors = []\<rparr>"

theorem if_block_reads_conditions_witness:
  "if_block_try_parse demo_env demo_config ''a'' =
     (Done \<lparr>ib_key = ''a'',
            ib_if_then = [compile_condition demo_env \<lparr>cd_pos = ''0000'', cd_if = ''is_tls '', cd_then = ''rcpt ''\<rparr>],
            ib_default = compiled demo_env ''rcpt ''\<rparr>, demo_config)"
proof -
  let ?d = "\<lparr>cd_pos = ''0000'', cd_if = ''is_tls '', cd_then = ''rcpt ''\<rparr>"
  have "if_block_try_parse demo_env demo_config ''a'' =
    (Done \<lparr>ib_key = ''a'', ib_if_then = map (compile_condition demo_env) [?d],
           ib_default = compiled demo_env ''rcpt ''\<rparr>, demo_config)"
    by (rule if_block_reads_conditions [where pos = "''0001''"])
       (simp_all add: demo_config_def block_keys_def condition_keys_def item_key_def cfg_value_def
         position_ok_def demo_compiles)
  then show ?thesis by simp
qed

end
