(* ===== verification/Pop3Proto.thy ===== *)
theory Pop3Proto
  imports Bytes
begin

text \<open>
  The POP3 wire protocol (\<open>crates/pop3/src/protocol/\<close>): the incremental request parser and the
  responses.

  \<open>pop3_parse\<close> is \<open>Parser::parse\<close>: it consumes bytes until a request is complete, and keeps the
  unfinished request in the parser's state otherwise.  \<open>parse_byte\<close> is one round of its loop.
\<close>

section \<open>Commands\<close>

datatype ('t, 'm) command =
    User 't
  | Pass 't
  | Apop 't 't
  | Quit
  | Stat
  | ListMsg "u32 option"
  | Retr u32
  | Dele u32
  | DeleMany "u32 list"
  | Noop
  | Rset
  | Top u32 u32
  | Uidl "u32 option"
  | Capa
  | Stls
  | Utf8
  | Auth 'm "'t list"

datatype mechanism =
    Plain | CramMd5 | DigestMd5 | ScramSha1 | ScramSha256 | MApop | Ntlm | Gssapi | Anonymous
  | External | OAuthBearer | XOauth2

datatype reason =
    InvalidCommand | TooManyArguments | MissingArguments | InvalidUtf8 | NumberOutOfRange
  | InvalidDigit | UnsupportedMechanism bytes

type_synonym raw_command = "(bytes, bytes) command"
type_synonym request = "(bytes, mechanism) command"

datatype parse_state =
    PInit
  | PCommand bytes nat
  | PArgument raw_command nat bool
  | PError reason

definition MAX_ARG_LEN :: nat where "MAX_ARG_LEN = 256"

fun mechanism_as_str :: "mechanism \<Rightarrow> string" where
  "mechanism_as_str Plain = ''PLAIN''"
| "mechanism_as_str CramMd5 = ''CRAM-MD5''"
| "mechanism_as_str DigestMd5 = ''DIGEST-MD5''"
| "mechanism_as_str ScramSha1 = ''SCRAM-SHA-1''"
| "mechanism_as_str ScramSha256 = ''SCRAM-SHA-256''"
| "mechanism_as_str MApop = ''APOP''"
| "mechanism_as_str Ntlm = ''NTLM''"
| "mechanism_as_str Gssapi = ''GSSAPI''"
| "mechanism_as_str Anonymous = ''ANONYMOUS''"
| "mechanism_as_str External = ''EXTERNAL''"
| "mechanism_as_str OAuthBearer = ''OAUTHBEARER''"
| "mechanism_as_str XOauth2 = ''XOAUTH2''"

definition mechanism_parse :: "bytes \<Rightarrow> reason + mechanism" where
  "mechanism_parse v =
     (if eq_ignore_ascii_case v (str ''PLAIN'') then Inr Plain
      else if eq_ignore_ascii_case v (str ''CRAM-MD5'') then Inr CramMd5
      else if eq_ignore_ascii_case v (str ''DIGEST-MD5'') then Inr DigestMd5
      else if eq_ignore_ascii_case v (str ''SCRAM-SHA-1'') then Inr ScramSha1
      else if eq_ignore_ascii_case v (str ''SCRAM-SHA-256'') then Inr ScramSha256
      else if eq_ignore_ascii_case v (str ''APOP'') then Inr MApop
      else if eq_ignore_ascii_case v (str ''NTLM'') then Inr Ntlm
      else if eq_ignore_ascii_case v (str ''GSSAPI'') then Inr Gssapi
      else if eq_ignore_ascii_case v (str ''ANONYMOUS'') then Inr Anonymous
      else if eq_ignore_ascii_case v (str ''EXTERNAL'') then Inr External
      else if eq_ignore_ascii_case v (str ''OAUTHBEARER'') then Inr OAuthBearer
      else if eq_ignore_ascii_case v (str ''XOAUTH2'') then Inr XOauth2
      else Inl (UnsupportedMechanism v))"

definition command_parse :: "bytes \<Rightarrow> reason + raw_command" where
  "command_parse b =
     (if b = str ''user'' then Inr (User [])
      else if b = str ''uidl'' then Inr (Uidl None)
      else if b = str ''utf8'' then Inr Utf8
      else if b = str ''pass'' then Inr (Pass [])
      else if b = str ''apop'' then Inr (Apop [] [])
      else if b = str ''auth'' then Inr (Auth [] [])
      else if b = str ''quit'' then Inr Quit
      else if b = str ''list'' then Inr (ListMsg None)
      else if b = str ''retr'' then Inr (Retr 0)
      else if b = str ''rset'' then Inr Rset
      else if b = str ''dele'' then Inr (Dele 0)
      else if b = str ''noop'' then Inr Noop
      else if b = str ''top'' @ [0] then Inr (Top 0 0)
      else if b = str ''capa'' then Inr Capa
      else if b = str ''stls'' then Inr Stls
      else if b = str ''stat'' then Inr Stat
      else Inl InvalidCommand)"

text \<open>\<open>add_digit\<close>: \<open>checked_mul\<close> and \<open>checked_add\<close> on an \<open>u32\<close>.\<close>

definition add_digit :: "u32 \<Rightarrow> u8 \<Rightarrow> reason + u32" where
  "add_digit num byte =
     (if is_ascii_digit byte then
        (let n = unat num * 10 + unat (byte - 48)
         in if n < 2 ^ 32 then Inr (of_nat n) else Inl NumberOutOfRange)
      else Inl InvalidDigit)"

definition opt_digit :: "u32 option \<Rightarrow> u8 \<Rightarrow> reason + u32 option" where
  "opt_digit msg byte = map_sum id Some (add_digit (case msg of Some n \<Rightarrow> n | None \<Rightarrow> 0) byte)"

definition push_param :: "nat \<Rightarrow> bytes list \<Rightarrow> u8 \<Rightarrow> bytes list" where
  "push_param arg_num params byte =
     (let ps = (if length params < arg_num - 1 then params @ [[]] else params)
      in butlast ps @ [last ps @ [byte]])"

fun update_argument :: "raw_command \<Rightarrow> nat \<Rightarrow> u8 \<Rightarrow> reason + raw_command" where
  "update_argument (User name) n byte =
     (if n = 1 \<and> length name < MAX_ARG_LEN then Inr (User (name @ [byte])) else Inl TooManyArguments)"
| "update_argument (Pass s) n byte =
     (if n = 1 \<and> length s < MAX_ARG_LEN then Inr (Pass (s @ [byte])) else Inl TooManyArguments)"
| "update_argument (Apop name digest) n byte =
     (if n \<le> 2 \<and> length name < MAX_ARG_LEN \<and> length digest < MAX_ARG_LEN then
        Inr (if n = 1 then Apop (name @ [byte]) digest else Apop name (digest @ [byte]))
      else Inl TooManyArguments)"
| "update_argument (ListMsg msg) n byte =
     (if n = 1 then map_sum id ListMsg (opt_digit msg byte) else Inl TooManyArguments)"
| "update_argument (Retr msg) n byte =
     (if n = 1 then map_sum id Retr (add_digit msg byte) else Inl TooManyArguments)"
| "update_argument (Dele msg) n byte =
     (if n = 1 then map_sum id Dele (add_digit msg byte) else Inl TooManyArguments)"
| "update_argument (Top msg k) n byte =
     (if n \<le> 2 then
        (if n = 1 then map_sum id (\<lambda>m. Top m k) (add_digit msg byte)
         else map_sum id (Top msg) (add_digit k byte))
      else Inl TooManyArguments)"
| "update_argument (Uidl msg) n byte =
     (if n = 1 then map_sum id Uidl (opt_digit msg byte) else Inl TooManyArguments)"
| "update_argument (Auth mechanism params) n byte =
     (if n \<le> 4 \<and> length mechanism < 64 \<and> sum_list (map length params) < MAX_ARG_LEN * 4 then
        Inr (if n = 1 then Auth (mechanism @ [byte]) params else Auth mechanism (push_param n params byte))
      else Inl TooManyArguments)"
| "update_argument _ n byte = Inl TooManyArguments"

definition into_string :: "bytes \<Rightarrow> reason + bytes" where
  "into_string b = (if is_utf8 b then Inr b else Inl InvalidUtf8)"

fun finalize_request :: "raw_command \<Rightarrow> nat \<Rightarrow> reason + request" where
  "finalize_request (User name) n = (if n = 1 then map_sum id User (into_string name) else Inl MissingArguments)"
| "finalize_request (Pass s) n = (if n = 1 then map_sum id Pass (into_string s) else Inl MissingArguments)"
| "finalize_request (Apop name digest) n =
     (if n = 2 then
        (if is_utf8 name \<and> is_utf8 digest then Inr (Apop name digest) else Inl InvalidUtf8)
      else Inl MissingArguments)"
| "finalize_request Quit n = Inr Quit"
| "finalize_request Stat n = Inr Stat"
| "finalize_request (ListMsg msg) n = Inr (ListMsg msg)"
| "finalize_request (Retr msg) n = (if n = 1 then Inr (Retr msg) else Inl MissingArguments)"
| "finalize_request (Dele msg) n = (if n = 1 then Inr (Dele msg) else Inl MissingArguments)"
| "finalize_request Noop n = Inr Noop"
| "finalize_request Rset n = Inr Rset"
| "finalize_request (Top msg k) n = (if n = 2 then Inr (Top msg k) else Inl MissingArguments)"
| "finalize_request (Uidl msg) n = Inr (Uidl msg)"
| "finalize_request Capa n = Inr Capa"
| "finalize_request Stls n = Inr Stls"
| "finalize_request Utf8 n = Inr Utf8"
| "finalize_request (Auth mechanism params) n =
     (if n \<ge> 1 then
        (case mechanism_parse mechanism of
           Inl e \<Rightarrow> Inl e
         | Inr m \<Rightarrow> if list_all is_utf8 params then Inr (Auth m params) else Inl InvalidUtf8)
      else Inl MissingArguments)"
| "finalize_request (DeleMany msgs) n = Inl MissingArguments"

section \<open>The parser\<close>

fun parse_byte :: "parse_state \<Rightarrow> u8 \<Rightarrow> parse_state \<times> (reason + request) option" where
  "parse_byte PInit byte =
     (if byte \<in> {32, 9, 13, 10} then (PInit, None)
      else if is_ascii_lower byte then (PCommand [byte, 0, 0, 0] 1, None)
      else if is_ascii_upper byte then (PCommand [byte OR 0x20, 0, 0, 0] 1, None)
      else (PError InvalidCommand, None))"
| "parse_byte (PCommand b len) byte =
     (if (is_ascii_lower byte \<or> byte = 56) \<and> len < 4 then (PCommand (b[len := byte]) (len + 1), None)
      else if is_ascii_upper byte \<and> len < 4 then (PCommand (b[len := byte OR 0x20]) (len + 1), None)
      else if byte \<in> {32, 9} \<and> (len = 4 \<or> len = 3) then
        (case command_parse b of
           Inr req \<Rightarrow> (PArgument req 0 True, None)
         | Inl e \<Rightarrow> (PError e, None))
      else if byte = 13 then (PCommand b len, None)
      else if byte = 10 \<and> (len = 4 \<or> len = 3) then
        (case command_parse b of
           Inr req \<Rightarrow> (PInit, Some (finalize_request req 0))
         | Inl e \<Rightarrow> (PInit, Some (Inl e)))
      else (PError InvalidCommand, None))"
| "parse_byte (PArgument req num last_is_space) byte =
     (if byte \<in> {32, 9} then (PArgument req num True, None)
      else if byte = 13 then (PArgument req num last_is_space, None)
      else if byte = 10 then (PInit, Some (finalize_request req num))
      else
        (let num' = (if last_is_space then num + 1 else num) in
         case update_argument req num' byte of
           Inr req' \<Rightarrow> (PArgument req' num' False, None)
         | Inl e \<Rightarrow> (PError e, None)))"
| "parse_byte (PError e) byte = (if byte = 10 then (PInit, Some (Inl e)) else (PError e, None))"

text \<open>\<open>None\<close> is \<open>Error::NeedsMoreData\<close>; otherwise the result and the bytes that are left.\<close>

fun pop3_parse :: "parse_state \<Rightarrow> bytes \<Rightarrow> parse_state \<times> ((reason + request) \<times> bytes) option" where
  "pop3_parse st [] = (st, None)"
| "pop3_parse st (byte # bytes) =
     (case parse_byte st byte of
        (st', None) \<Rightarrow> pop3_parse st' bytes
      | (st', Some r) \<Rightarrow> (st', Some (r, bytes)))"

text \<open>The loop of \<open>Session::ingest\<close> over the parser: all requests of a read, and the state after it.\<close>

lemma pop3_parse_shorter: "pop3_parse st bs = (st', Some (r, rest)) \<Longrightarrow> length rest < length bs"
  by (induction st bs rule: pop3_parse.induct) (fastforce split: prod.splits option.splits)+

function parse_requests :: "parse_state \<Rightarrow> bytes \<Rightarrow> parse_state \<times> (reason + request) list" where
  "parse_requests st bs =
     (case pop3_parse st bs of
        (st', None) \<Rightarrow> (st', [])
      | (st', Some (r, rest)) \<Rightarrow>
          (let (st'', rs) = parse_requests st' rest in (st'', r # rs)))"
  by pat_completeness auto
termination
  by (relation "measure (\<lambda>(st, bs). length bs)") (auto dest: pop3_parse_shorter sym)

declare parse_requests.simps [simp del]

section \<open>Responses\<close>

datatype response =
    ROk string
  | RErr string
  | RList "string list"
  | RMessage bytes u32
  | RCapability "mechanism list" bool

definition CRLF :: bytes where "CRLF = [13, 10]"

text \<open>The transparency loop; \<open>lines\<close> 0 means no limit, and the line counter is an \<open>u32\<close>.\<close>

fun stuff :: "u32 \<Rightarrow> u32 \<Rightarrow> u8 \<Rightarrow> bytes \<Rightarrow> bytes \<times> u8" where
  "stuff lines line_count last_byte [] = ([], last_byte)"
| "stuff lines line_count last_byte (byte # bytes) =
     (let pre = (if byte = 10 \<and> last_byte \<noteq> 13 then [13] else []) @
                (if byte = 46 \<and> last_byte = 10 then [46] else []) @ [byte];
          line_count' = (if lines > 0 \<and> byte = 10 then line_count + 1 else line_count)
      in if lines > 0 \<and> byte = 10 \<and> line_count' = lines then (pre, byte)
         else (let (rest, l) = stuff lines line_count' byte bytes in (pre @ rest, l)))"

definition message_body :: "u32 \<Rightarrow> bytes \<Rightarrow> bytes" where
  "message_body lines bytes =
     (let (buf, last_byte) = stuff lines 0 0 bytes
      in buf @ (if last_byte \<noteq> 10 then CRLF else []) @ str ''.'' @ CRLF)"

fun list_lines :: "nat \<Rightarrow> string list \<Rightarrow> bytes" where
  "list_lines num [] = []"
| "list_lines num (octet # octets) = dec (num + 1) @ str '' '' @ str octet @ CRLF @ list_lines (num + 1) octets"

fun response_serialize :: "response \<Rightarrow> bytes" where
  "response_serialize (ROk message) = str ''+OK '' @ str message @ CRLF"
| "response_serialize (RErr message) = str ''-ERR '' @ str message @ CRLF"
| "response_serialize (RList octets) =
     str ''+OK '' @ dec (length octets) @ str '' messages'' @ CRLF @ list_lines 0 octets @ str ''.'' @ CRLF"
| "response_serialize (RMessage bytes lines) =
     str ''+OK '' @ dec (length bytes) @ str '' octets'' @ CRLF @ message_body lines bytes"
| "response_serialize (RCapability mechanisms stls) =
     str ''+OK Capability list follows'' @ CRLF @
     (if mechanisms \<noteq> [] then
        (if Plain \<in> set mechanisms then str ''USER'' @ CRLF else []) @ str ''SASL'' @
        concat (map (\<lambda>m. str '' '' @ str (mechanism_as_str m)) mechanisms) @ CRLF
      else []) @
     (if stls then str ''STLS'' @ CRLF else []) @
     concat (map (\<lambda>c. str c @ CRLF)
       [''TOP'', ''RESP-CODES'', ''PIPELINING'', ''EXPIRE NEVER'', ''UIDL'', ''UTF8'',
        ''IMPLEMENTATION Stalwart Mail Server'']) @
     str ''.'' @ CRLF"

section \<open>Reading in pieces\<close>

lemma parse_requests_Nil [simp]: "parse_requests st [] = (st, [])"
  by (subst parse_requests.simps) simp

lemma parse_requests_Cons:
  "parse_requests st (b # bs) =
     (case parse_byte st b of
        (st', None) \<Rightarrow> parse_requests st' bs
      | (st', Some r) \<Rightarrow> (let (st'', rs) = parse_requests st' bs in (st'', r # rs)))"
proof (cases "parse_byte st b")
  case (Pair st' r)
  then show ?thesis
    using parse_requests.simps [of st "b # bs"] parse_requests.simps [of st' bs] by (cases r) simp_all
qed

lemma parse_requests_append:
  "parse_requests st (xs @ ys) =
     (let (st1, rs1) = parse_requests st xs; (st2, rs2) = parse_requests st1 ys in (st2, rs1 @ rs2))"
  by (induction xs arbitrary: st) (simp_all add: parse_requests_Cons Let_def split: prod.splits option.splits)

text \<open>
  The parameter \<open>push_param\<close> extends exists: \<open>last_mut().unwrap()\<close> does not fail.  It is reached with an
  argument number of at least 2, because the number is only 0 before the first argument.
\<close>

lemma push_param_target:
  "n \<ge> 2 \<Longrightarrow> (if length params < n - 1 then params @ [[]] else params) \<noteq> []"
  by (cases params) auto

fun arguments_numbered :: "parse_state \<Rightarrow> bool" where
  "arguments_numbered (PArgument req num last_is_space) \<longleftrightarrow> last_is_space \<or> num \<ge> 1"
| "arguments_numbered _ \<longleftrightarrow> True"

lemma parse_byte_numbered: "arguments_numbered st \<Longrightarrow> arguments_numbered (fst (parse_byte st b))"
  by (cases st) (auto simp: Let_def split: sum.split)

section \<open>Requests as clients write them\<close>

definition arg_byte :: "u8 \<Rightarrow> bool" where
  "arg_byte b \<longleftrightarrow> b \<notin> {32, 9, 13, 10}"

definition argument :: "bytes \<Rightarrow> bool" where
  "argument w \<longleftrightarrow> w \<noteq> [] \<and> list_all arg_byte w"

fun update_all :: "raw_command \<Rightarrow> nat \<Rightarrow> bytes \<Rightarrow> reason + raw_command" where
  "update_all req n [] = Inr req"
| "update_all req n (b # bs) =
     (case update_argument req n b of Inl e \<Rightarrow> Inl e | Inr req' \<Rightarrow> update_all req' n bs)"

lemma parse_argument_tail:
  "list_all arg_byte w \<Longrightarrow> update_all req n w = Inr req' \<Longrightarrow>
   parse_requests (PArgument req n False) (w @ rest) = parse_requests (PArgument req' n False) rest"
  by (induction req n w rule: update_all.induct)
     (auto simp: parse_requests_Cons arg_byte_def split: sum.splits)

lemma parse_argument:
  assumes "argument w" and "update_all req (n + 1) w = Inr req'"
  shows "parse_requests (PArgument req n True) (w @ rest) = parse_requests (PArgument req' (n + 1) False) rest"
proof -
  obtain b bs where w: "w = b # bs" using assms(1) by (cases w) (simp_all add: argument_def)
  with assms show ?thesis
    using parse_argument_tail [of bs _ "n + 1" req' rest]
    by (auto simp: parse_requests_Cons argument_def arg_byte_def split: sum.splits)
qed

lemma parse_argument_space:
  "parse_requests (PArgument req n b) (32 # rest) = parse_requests (PArgument req n True) rest"
  by (simp add: parse_requests_Cons)

lemma parse_argument_end:
  "parse_requests (PArgument req n b) (CRLF @ rest) =
     (let (st, rs) = parse_requests PInit rest in (st, finalize_request req n # rs))"
  by (simp add: parse_requests_Cons CRLF_def)

definition keyword :: "string \<Rightarrow> bool" where
  "keyword w \<longleftrightarrow> w \<in> set [''user'', ''uidl'', ''utf8'', ''pass'', ''apop'', ''auth'', ''quit'', ''list'', ''retr'',
     ''rset'', ''dele'', ''noop'', ''top'', ''capa'', ''stls'', ''stat'']"

definition keyword_buf :: "string \<Rightarrow> bytes" where
  "keyword_buf w = str w @ replicate (4 - length w) 0"

lemma parse_keyword:
  "keyword w \<Longrightarrow> parse_requests PInit (str w @ rest) = parse_requests (PCommand (keyword_buf w) (length w)) rest"
  unfolding keyword_def
  by (simp; elim disjE; simp add: parse_requests_Cons str_def is_ascii_lower_def keyword_buf_def)

lemma command_parse_keywords:
  "command_parse (keyword_buf ''user'') = Inr (User [])"
  "command_parse (keyword_buf ''pass'') = Inr (Pass [])"
  "command_parse (keyword_buf ''apop'') = Inr (Apop [] [])"
  "command_parse (keyword_buf ''quit'') = Inr Quit"
  "command_parse (keyword_buf ''stat'') = Inr Stat"
  "command_parse (keyword_buf ''list'') = Inr (ListMsg None)"
  "command_parse (keyword_buf ''retr'') = Inr (Retr 0)"
  "command_parse (keyword_buf ''dele'') = Inr (Dele 0)"
  "command_parse (keyword_buf ''noop'') = Inr Noop"
  "command_parse (keyword_buf ''rset'') = Inr Rset"
  "command_parse (keyword_buf ''top'') = Inr (Top 0 0)"
  "command_parse (keyword_buf ''uidl'') = Inr (Uidl None)"
  "command_parse (keyword_buf ''capa'') = Inr Capa"
  "command_parse (keyword_buf ''stls'') = Inr Stls"
  "command_parse (keyword_buf ''utf8'') = Inr Utf8"
  "command_parse (keyword_buf ''auth'') = Inr (Auth [] [])"
  by (simp_all add: command_parse_def keyword_buf_def str_def)

lemma parse_keyword_space:
  assumes "keyword w" and "command_parse (keyword_buf w) = Inr req"
  shows "parse_requests PInit (str w @ 32 # rest) = parse_requests (PArgument req 0 True) rest"
proof -
  have "length w = 4 \<or> length w = 3" using assms(1) by (auto simp: keyword_def)
  then show ?thesis
    using assms(2) by (auto simp: parse_keyword [OF assms(1)] parse_requests_Cons is_ascii_lower_def is_ascii_upper_def)
qed

lemma parse_keyword_end:
  assumes "keyword w" and "command_parse (keyword_buf w) = Inr req"
  shows "parse_requests PInit (str w @ CRLF @ rest) =
    (let (st, rs) = parse_requests PInit rest in (st, finalize_request req 0 # rs))"
proof -
  have "length w = 4 \<or> length w = 3" using assms(1) by (auto simp: keyword_def)
  then show ?thesis
    using assms(2)
    by (auto simp: parse_keyword [OF assms(1)] parse_requests_Cons is_ascii_lower_def is_ascii_upper_def CRLF_def)
qed

text \<open>Numbers.\<close>

fun add_all :: "u32 \<Rightarrow> bytes \<Rightarrow> reason + u32" where
  "add_all a [] = Inr a"
| "add_all a (b # bs) = (case add_digit a b of Inl e \<Rightarrow> Inl e | Inr a' \<Rightarrow> add_all a' bs)"

lemma add_all_append:
  "add_all a (xs @ ys) = (case add_all a xs of Inl e \<Rightarrow> Inl e | Inr a' \<Rightarrow> add_all a' ys)"
  by (induction a xs rule: add_all.induct) (auto split: sum.splits)

lemma digit_byte:
  assumes "d < 10"
  shows "is_ascii_digit (of_char (digit_char d))" and "unat (of_char (digit_char d) - 48 :: u8) = d"
proof -
  show "is_ascii_digit (of_char (digit_char d))" using assms by (simp add: of_char_digit)
  have "(of_char (digit_char d) :: u8) = of_nat (of_char (digit_char d))" by (rule of_nat_of_char [symmetric])
  also have "\<dots> = 48 + of_nat d" using assms by (simp add: digit_char_def)
  finally show "unat (of_char (digit_char d) - 48 :: u8) = d"
    using assms by (simp add: unsigned_of_nat take_bit_nat_eq_self)
qed

lemma unat_of_nat_below: "n < 2 ^ 32 \<Longrightarrow> unat (of_nat n :: u32) = n"
  by (simp add: unsigned_of_nat take_bit_nat_eq_self)

lemma add_all_dec: "n < 2 ^ 32 \<Longrightarrow> add_all 0 (dec n) = Inr (of_nat n)"
proof (induction n rule: nat_to_string.induct)
  case (1 n)
  show ?case
  proof (cases "n < 10")
    case True
    then show ?thesis
      by (simp add: dec_def str_def nat_to_string.simps [of n] add_digit_def digit_byte Let_def)
  next
    case False
    then have "add_all 0 (dec (n div 10)) = Inr (of_nat (n div 10))" using 1 by simp
    moreover have "unat (of_nat (n div 10) :: u32) = n div 10" using 1(2) by (intro unat_of_nat_below) simp
    moreover have "n div 10 * 10 + n mod 10 = n" by simp
    ultimately show ?thesis
      using False 1(2)
      by (simp add: dec_def str_def nat_to_string.simps [of n] add_all_append add_digit_def digit_byte Let_def)
  qed
qed

lemma update_all_numbers:
  "update_all (Retr a) 1 w = map_sum id Retr (add_all a w)"
  "update_all (Dele a) 1 w = map_sum id Dele (add_all a w)"
  "update_all (Top a k) 1 w = map_sum id (\<lambda>m. Top m k) (add_all a w)"
  "update_all (Top m a) 2 w = map_sum id (Top m) (add_all a w)"
  "update_all (ListMsg (Some a)) 1 w = map_sum id (\<lambda>n. ListMsg (Some n)) (add_all a w)"
  "update_all (Uidl (Some a)) 1 w = map_sum id (\<lambda>n. Uidl (Some n)) (add_all a w)"
  by (induction w arbitrary: a; simp add: opt_digit_def split: sum.splits; fail)+

lemma update_all_optional:
  assumes "w \<noteq> []"
  shows "update_all (ListMsg None) 1 w = map_sum id (\<lambda>n. ListMsg (Some n)) (add_all 0 w)"
    and "update_all (Uidl None) 1 w = map_sum id (\<lambda>n. Uidl (Some n)) (add_all 0 w)"
  using assms update_all_numbers(5,6) by (cases w; simp add: opt_digit_def split: sum.splits)+

lemma argument_dec: "argument (dec n)"
proof -
  have "arg_byte b" if "is_ascii_digit b" for b
    using that by (auto simp: arg_byte_def is_ascii_digit_def)
  then show ?thesis by (auto simp: argument_def list_all_iff dest: dec_digits)
qed

text \<open>Words.\<close>

lemma update_all_words:
  "length (acc @ w) \<le> MAX_ARG_LEN \<Longrightarrow> update_all (User acc) 1 w = Inr (User (acc @ w))"
  "length (acc @ w) \<le> MAX_ARG_LEN \<Longrightarrow> update_all (Pass acc) 1 w = Inr (Pass (acc @ w))"
  "length (acc @ w) \<le> MAX_ARG_LEN \<Longrightarrow> update_all (Apop acc []) 1 w = Inr (Apop (acc @ w) [])"
  "length name < MAX_ARG_LEN \<Longrightarrow> length (acc @ w) \<le> MAX_ARG_LEN \<Longrightarrow>
     update_all (Apop name acc) 2 w = Inr (Apop name (acc @ w))"
  "length (acc @ w) \<le> 64 \<Longrightarrow> update_all (Auth acc []) 1 w = Inr (Auth (acc @ w) [])"
  by (induction w arbitrary: acc; simp add: MAX_ARG_LEN_def; fail)+

lemma update_all_param_tail:
  "length mech < 64 \<Longrightarrow> n = length ps + 2 \<Longrightarrow> n \<le> 4 \<Longrightarrow>
   sum_list (map length ps) + length acc + length w \<le> MAX_ARG_LEN * 4 \<Longrightarrow>
   update_all (Auth mech (ps @ [acc])) n w = Inr (Auth mech (ps @ [acc @ w]))"
  by (induction w arbitrary: acc) (simp_all add: push_param_def MAX_ARG_LEN_def)

lemma update_all_param:
  assumes "length mech < 64" and "n = length ps + 2" and "n \<le> 4"
    and "sum_list (map length ps) + length w \<le> MAX_ARG_LEN * 4" and "w \<noteq> []"
  shows "update_all (Auth mech ps) n w = Inr (Auth mech (ps @ [w]))"
proof -
  obtain b bs where w: "w = b # bs" using assms(5) by (cases w) auto
  have "push_param n ps b = ps @ [[b]]" using assms(2) by (simp add: push_param_def)
  then show ?thesis
    using assms update_all_param_tail [of mech n ps "[b]" bs] by (simp add: w)
qed

lemma parse_params:
  "length mech < 64 \<Longrightarrow> length ps + length qs \<le> 3 \<Longrightarrow> list_all argument qs \<Longrightarrow>
   sum_list (map length ps) + sum_list (map length qs) \<le> MAX_ARG_LEN * 4 \<Longrightarrow>
   parse_requests (PArgument (Auth mech ps) (length ps + 1) b) (concat (map (\<lambda>q. 32 # q) qs) @ CRLF @ rest) =
   (let (st, rs) = parse_requests PInit rest
    in (st, finalize_request (Auth mech (ps @ qs)) (length ps + length qs + 1) # rs))"
proof (induction qs arbitrary: ps b)
  case Nil
  then show ?case by (simp add: parse_argument_end)
next
  case (Cons q qs)
  from Cons.prems have "update_all (Auth mech ps) (length ps + 1 + 1) q = Inr (Auth mech (ps @ [q]))"
    by (intro update_all_param) (auto simp: argument_def)
  with Cons.prems parse_argument [of q "Auth mech ps" "length ps + 1"] Cons.IH [of "ps @ [q]" False]
  show ?case by (simp add: parse_argument_space)
qed

fun request_text :: "request \<Rightarrow> bytes" where
  "request_text (User name) = str ''user'' @ 32 # name @ CRLF"
| "request_text (Pass s) = str ''pass'' @ 32 # s @ CRLF"
| "request_text (Apop name digest) = str ''apop'' @ 32 # name @ 32 # digest @ CRLF"
| "request_text Quit = str ''quit'' @ CRLF"
| "request_text Stat = str ''stat'' @ CRLF"
| "request_text (ListMsg None) = str ''list'' @ CRLF"
| "request_text (ListMsg (Some n)) = str ''list'' @ 32 # dec (unat n) @ CRLF"
| "request_text (Retr n) = str ''retr'' @ 32 # dec (unat n) @ CRLF"
| "request_text (Dele n) = str ''dele'' @ 32 # dec (unat n) @ CRLF"
| "request_text (DeleMany ns) = concat (map (\<lambda>n. str ''dele'' @ 32 # dec (unat n) @ CRLF) ns)"
| "request_text Noop = str ''noop'' @ CRLF"
| "request_text Rset = str ''rset'' @ CRLF"
| "request_text (Top m n) = str ''top'' @ 32 # dec (unat m) @ 32 # dec (unat n) @ CRLF"
| "request_text (Uidl None) = str ''uidl'' @ CRLF"
| "request_text (Uidl (Some n)) = str ''uidl'' @ 32 # dec (unat n) @ CRLF"
| "request_text Capa = str ''capa'' @ CRLF"
| "request_text Stls = str ''stls'' @ CRLF"
| "request_text Utf8 = str ''utf8'' @ CRLF"
| "request_text (Auth m params) =
     str ''auth'' @ 32 # str (mechanism_as_str m) @ concat (map (\<lambda>q. 32 # q) params) @ CRLF"

fun wf_request :: "request \<Rightarrow> bool" where
  "wf_request (User name) = (argument name \<and> length name \<le> MAX_ARG_LEN \<and> is_utf8 name)"
| "wf_request (Pass s) = (argument s \<and> length s \<le> MAX_ARG_LEN \<and> is_utf8 s)"
| "wf_request (Apop name digest) =
     (argument name \<and> length name < MAX_ARG_LEN \<and> is_utf8 name \<and>
      argument digest \<and> length digest \<le> MAX_ARG_LEN \<and> is_utf8 digest)"
| "wf_request (DeleMany ns) = False"
| "wf_request (Auth m params) =
     (length params \<le> 3 \<and> list_all argument params \<and> list_all is_utf8 params \<and>
      sum_list (map length params) \<le> MAX_ARG_LEN * 4)"
| "wf_request _ = True"

lemma mechanism_roundtrip: "mechanism_parse (str (mechanism_as_str m)) = Inr m"
  by (cases m) (simp_all add: mechanism_parse_def eq_ignore_ascii_case_def str_def to_ascii_lowercase_def
      is_ascii_upper_def)

lemma mechanism_argument: "argument (str (mechanism_as_str m))" "length (mechanism_as_str m) < 64"
  by (cases m; simp add: argument_def str_def arg_byte_def)+

lemma parse_one_argument:
  assumes "keyword w" and "command_parse (keyword_buf w) = Inr req"
    and "argument a" and "update_all req 1 a = Inr req'" and "finalize_request req' 1 = r"
  shows "parse_requests PInit ((str w @ 32 # a @ CRLF) @ rest) =
    (let (st, rs) = parse_requests PInit rest in (st, r # rs))"
  using parse_argument [of a req 0 req'] assms(3-5)
  by (simp add: parse_keyword_space [OF assms(1,2)] parse_argument_end)

lemma parse_two_arguments:
  assumes "keyword w" and "command_parse (keyword_buf w) = Inr req"
    and "argument a" and "update_all req 1 a = Inr req'"
    and "argument b" and "update_all req' 2 b = Inr req''" and "finalize_request req'' 2 = r"
  shows "parse_requests PInit ((str w @ 32 # a @ 32 # b @ CRLF) @ rest) =
    (let (st, rs) = parse_requests PInit rest in (st, r # rs))"
  using parse_argument [of a req 0 req'] parse_argument [of b req' 1 req''] assms(3-7)
  by (simp add: parse_keyword_space [OF assms(1,2)] parse_argument_space parse_argument_end numeral_2_eq_2)

lemma add_all_number: "add_all 0 (dec (unat n)) = Inr (n :: u32)"
  using add_all_dec [of "unat n"] unsigned_less [of n] by simp

text \<open>
  C32: A request written by a client is read as that request: its line, given to the parser between
  requests, yields exactly this request and leaves the parser between requests again, whatever
  follows.  Arguments must be UTF-8 without white space and within the length limits, an AUTH
  request has at most three parameters, and a group of DELE requests is not a request of a client.
\<close>

theorem pop3_request_roundtrip:
  assumes "wf_request c"
  shows "parse_requests PInit (request_text c @ rest) =
    (let (st, rs) = parse_requests PInit rest in (st, Inr c # rs))"
proof (cases c rule: request_text.cases)
  case (1 name)
  show ?thesis
    unfolding 1 request_text.simps
    by (rule parse_one_argument [OF _ command_parse_keywords(1), where req' = "User name"])
       (use assms 1 update_all_words(1) [of "[]" name] in \<open>simp_all add: keyword_def into_string_def\<close>)
next
  case (2 s)
  show ?thesis
    unfolding 2 request_text.simps
    by (rule parse_one_argument [OF _ command_parse_keywords(2), where req' = "Pass s"])
       (use assms 2 update_all_words(2) [of "[]" s] in \<open>simp_all add: keyword_def into_string_def\<close>)
next
  case (3 name digest)
  show ?thesis
    unfolding 3 request_text.simps
    by (rule parse_two_arguments [OF _ command_parse_keywords(3), where req' = "Apop name []" and req'' = "Apop name digest"])
       (use assms 3 update_all_words(3) [of "[]" name] update_all_words(4) [of name "[]" digest] in \<open>simp_all add: keyword_def\<close>)
next
  case (7 n)
  show ?thesis
    unfolding 7 request_text.simps
    by (rule parse_one_argument [OF _ command_parse_keywords(6), where req' = "ListMsg (Some n)"])
       (use assms 7  in \<open>simp_all add: keyword_def argument_dec update_all_optional add_all_number del: One_nat_def\<close>)
next
  case (8 n)
  show ?thesis
    unfolding 8 request_text.simps
    by (rule parse_one_argument [OF _ command_parse_keywords(7), where req' = "Retr n"])
       (use assms 8  in \<open>simp_all add: keyword_def argument_dec update_all_numbers add_all_number del: One_nat_def\<close>)
next
  case (9 n)
  show ?thesis
    unfolding 9 request_text.simps
    by (rule parse_one_argument [OF _ command_parse_keywords(8), where req' = "Dele n"])
       (use assms 9  in \<open>simp_all add: keyword_def argument_dec update_all_numbers add_all_number del: One_nat_def\<close>)
next
  case (13 m n)
  show ?thesis
    unfolding 13 request_text.simps
    by (rule parse_two_arguments [OF _ command_parse_keywords(11), where req' = "Top m 0" and req'' = "Top m n"])
       (use assms 13  in \<open>simp_all add: keyword_def argument_dec update_all_numbers add_all_number del: One_nat_def\<close>)
next
  case (15 n)
  show ?thesis
    unfolding 15 request_text.simps
    by (rule parse_one_argument [OF _ command_parse_keywords(12), where req' = "Uidl (Some n)"])
       (use assms 15  in \<open>simp_all add: keyword_def argument_dec update_all_optional add_all_number del: One_nat_def\<close>)
next
  case (19 m params)
  let ?m = "str (mechanism_as_str m)"
  have "update_all (Auth [] []) 1 ?m = Inr (Auth ?m [])"
    using update_all_words(5) [of "[]" ?m] mechanism_argument(2) [of m] by simp
  then show ?thesis
    unfolding 19 request_text.simps
    using assms 19 mechanism_argument [of m] parse_argument [of ?m "Auth [] []" 0] parse_params [of ?m "[]" params False rest]
    by (simp add: parse_keyword_space [OF _ command_parse_keywords(16)] keyword_def mechanism_roundtrip)
qed (use assms in \<open>simp_all add: parse_keyword_end [OF _ command_parse_keywords(4)]
      parse_keyword_end [OF _ command_parse_keywords(5)] parse_keyword_end [OF _ command_parse_keywords(6)]
      parse_keyword_end [OF _ command_parse_keywords(9)] parse_keyword_end [OF _ command_parse_keywords(10)]
      parse_keyword_end [OF _ command_parse_keywords(12)] parse_keyword_end [OF _ command_parse_keywords(13)]
      parse_keyword_end [OF _ command_parse_keywords(14)] parse_keyword_end [OF _ command_parse_keywords(15)]
      keyword_def\<close>)

theorem pop3_request_roundtrip_witness:
  "parse_requests PInit (request_text (Top 3 10) @ request_text (User (str ''jane''))) =
     (PInit, [Inr (Top 3 10), Inr (User (str ''jane''))])"
proof -
  have "wf_request (Top 3 10)" "wf_request (User (str ''jane''))"
    by (simp_all add: argument_def arg_byte_def str_def MAX_ARG_LEN_def)
  with pop3_request_roundtrip [of "Top 3 10" "request_text (User (str ''jane''))"]
    pop3_request_roundtrip [of "User (str ''jane'')" "[]"]
  show ?thesis by simp
qed

end
