(* ===== verification/Pop3Message.thy ===== *)
theory Pop3Message
  imports Pop3Proto
begin

text \<open>
  How a client reads the multi-line responses of the server.  \<open>read_multi\<close> is the receiving end of
  the transparency procedure of RFC 1939: it removes the dot in front of a line and stops at the
  line that is a single dot.
\<close>

datatype reader = LineStart | Middle | AfterCR | Dot | DotCR

fun read_multi :: "reader \<Rightarrow> bytes \<Rightarrow> (bytes \<times> bytes) option" where
  "read_multi r [] = None"
| "read_multi LineStart (b # bs) =
     (if b = 46 then read_multi Dot bs
      else map_option (apfst ((#) b)) (read_multi (if b = 13 then AfterCR else Middle) bs))"
| "read_multi Middle (b # bs) =
     map_option (apfst ((#) b)) (read_multi (if b = 13 then AfterCR else Middle) bs)"
| "read_multi AfterCR (b # bs) =
     map_option (apfst ((#) b))
       (read_multi (if b = 10 then LineStart else if b = 13 then AfterCR else Middle) bs)"
| "read_multi Dot (b # bs) =
     (if b = 13 then read_multi DotCR bs
      else map_option (apfst ((#) b)) (read_multi Middle bs))"
| "read_multi DotCR (b # bs) =
     (if b = 10 then Some ([], bs)
      else map_option (apfst (\<lambda>m. 13 # b # m)) (read_multi (if b = 13 then AfterCR else Middle) bs))"

text \<open>The message with every line ended by a carriage return and a line feed.\<close>

fun crlf_lines :: "u8 \<Rightarrow> bytes \<Rightarrow> bytes" where
  "crlf_lines l [] = (if l = 10 then [] else CRLF)"
| "crlf_lines l (b # bs) = (if b = 10 \<and> l \<noteq> 13 then [13, 10] else [b]) @ crlf_lines b bs"

definition reader_after :: "u8 \<Rightarrow> reader" where
  "reader_after l = (if l = 10 then LineStart else if l = 13 then AfterCR else Middle)"

definition body_end :: "u8 \<Rightarrow> bytes" where
  "body_end l = (if l \<noteq> 10 then CRLF else []) @ str ''.'' @ CRLF"

lemma read_end: "read_multi (reader_after l) (body_end l @ rest) = Some (crlf_lines l [], rest)"
  by (simp add: reader_after_def body_end_def CRLF_def str_def)

lemma read_stuffed:
  "read_multi (reader_after l) (fst (stuff 0 c l m) @ body_end (snd (stuff 0 c l m)) @ rest) =
   Some (crlf_lines l m, rest)"
proof (induction m arbitrary: l c)
  case Nil
  then show ?case using read_end [of l rest] by simp
next
  case (Cons b m)
  obtain out e where out: "stuff 0 c b m = (out, e)" by (cases "stuff 0 c b m")
  with Cons [of b c] have "read_multi (reader_after b) (out @ body_end e @ rest) = Some (crlf_lines b m, rest)"
    by simp
  with out show ?case
    by (auto simp: reader_after_def Let_def)
qed

lemma read_message_body:
  assumes "m = [] \<or> hd m \<noteq> 46"
  shows "read_multi LineStart (message_body 0 m @ rest) = Some (crlf_lines 0 m, rest)"
proof -
  have "read_multi Middle (message_body 0 m @ rest) = Some (crlf_lines 0 m, rest)"
    using read_stuffed [of 0 0 m rest]
    by (cases "stuff 0 0 0 m") (simp add: message_body_def reader_after_def body_end_def)
  moreover have "read_multi LineStart (message_body 0 m @ rest) = read_multi Middle (message_body 0 m @ rest)"
  proof (cases "message_body 0 m @ rest")
    case (Cons b bs)
    have "hd (message_body 0 m) \<noteq> 46 \<and> message_body 0 m \<noteq> []"
      using assms by (cases m) (auto simp: message_body_def CRLF_def Let_def split: prod.splits)
    with Cons have "b \<noteq> 46" by (cases "message_body 0 m") auto
    with Cons show ?thesis by simp
  qed simp
  ultimately show ?thesis by simp
qed

text \<open>
  C33: A message survives the trip.  What a client reads of a \<open>RETR\<close> response is the message with
  its line ends as carriage return and line feed, and the reader stops exactly at the end of the
  response, provided the message does not begin with a dot.
\<close>

theorem pop3_message_transparent:
  assumes "m = [] \<or> hd m \<noteq> 46"
  shows "read_multi LineStart (message_body 0 m @ rest) = Some (crlf_lines 0 m, rest)"
  using assms by (rule read_message_body)

theorem pop3_message_transparent_witness:
  "read_multi LineStart (message_body 0 [65, 10, 46, 66] @ [43]) = Some ([65, 13, 10, 46, 66, 13, 10], [43])"
  using pop3_message_transparent [of "[65, 10, 46, 66]" "[43]"] by (simp add: CRLF_def)

text \<open>
  A message that begins with a line of a single dot ends the response there: the first line is
  never stuffed, and the rest of the message is read as responses of the server.
\<close>

lemma leading_dot_ends_response:
  "read_multi LineStart (message_body 0 ([46, 13, 10] @ m) @ rest) =
   Some ([], drop 3 (message_body 0 ([46, 13, 10] @ m)) @ rest)"
  by (cases "stuff 0 0 10 m") (simp add: message_body_def Let_def)

text \<open>
  \<open>TOP\<close>: with a limit, the body is that of the first lines of the stored message, headers
  included; the limit 0 is no limit.
\<close>

fun take_lines :: "nat \<Rightarrow> bytes \<Rightarrow> bytes" where
  "take_lines n [] = []"
| "take_lines n (b # bs) =
     (if b = 10 then (if n \<le> 1 then [b] else b # take_lines (n - 1) bs) else b # take_lines n bs)"

lemma stuff_limit:
  "unat c < unat lines \<Longrightarrow> stuff lines c l m = stuff 0 d l (take_lines (unat lines - unat c) m)"
proof (induction m arbitrary: l c d)
  case (Cons b m)
  have pos: "lines > 0" using Cons.prems by (auto simp: word_less_nat_alt)
  have "unat lines < 2 ^ LENGTH(32)" by (rule unsigned_less)
  with Cons.prems have "unat c + 1 < 2 ^ 32" by simp
  then have inc: "unat (c + 1) = unat c + 1" by (simp add: unat_word_ariths)
  show ?case
  proof (cases "b = 10")
    case True
    have eq: "c + 1 = lines \<longleftrightarrow> unat lines - unat c \<le> 1"
      using inc Cons.prems by (auto simp: word_unat_eq_iff)
    show ?thesis
    proof (cases "c + 1 = lines")
      case True
      with \<open>b = 10\<close> pos eq show ?thesis by (simp add: Let_def)
    next
      case False
      then have "unat (c + 1) < unat lines" using inc Cons.prems by (auto simp: word_unat_eq_iff)
      from Cons.IH [OF this, of 10 d] False \<open>b = 10\<close> pos eq inc show ?thesis by (simp add: Let_def)
    qed
  qed (use Cons pos in \<open>simp add: Let_def\<close>)
qed simp

lemma message_body_limit:
  assumes "lines > 0"
  shows "message_body lines m = message_body 0 (take_lines (unat lines) m)"
proof -
  have "unat (0 :: u32) < unat lines" using assms by (simp add: word_less_nat_alt)
  from stuff_limit [OF this, of 0 m 0] show ?thesis by (simp add: message_body_def)
qed

lemma take_lines_prefix: "take (length (take_lines n m)) m = take_lines n m"
  by (induction n m rule: take_lines.induct) auto

lemma take_lines_count:
  "n > 0 \<Longrightarrow> count_list (take_lines n m) 10 = min n (count_list m 10)"
  by (induction n m rule: take_lines.induct) auto

lemma take_lines_hd: "m = [] \<or> hd m \<noteq> b \<Longrightarrow> take_lines n m = [] \<or> hd (take_lines n m) \<noteq> b"
  by (cases m) auto

text \<open>
  C34: \<open>TOP\<close> with a positive line count.  The response is a status line, which gives the length of
  the whole stored message, and a body in which a client reads, provided the message does not
  begin with a dot, a prefix of the stored message with its line ends as carriage return and line
  feed.  The prefix has as many line feeds as were asked for, or all of them, counted from the
  first line of the message: header lines count.
\<close>

theorem pop3_top_cuts_lines:
  assumes "lines > 0" and "m = [] \<or> hd m \<noteq> 46"
  shows "\<exists>body part.
    response_serialize (RMessage m lines) =
      str ''+OK '' @ dec (length m) @ str '' octets'' @ CRLF @ body \<and>
    read_multi LineStart (body @ rest) = Some (crlf_lines 0 part, rest) \<and>
    part = take (length part) m \<and>
    count_list part 10 = min (unat lines) (count_list m 10) \<and>
    part = take_lines (unat lines) m"
proof (intro exI conjI)
  have "unat lines > 0" using assms(1) by (simp add: word_less_nat_alt)
  then show "count_list (take_lines (unat lines) m) 10 = min (unat lines) (count_list m 10)"
    by (rule take_lines_count)
  show "read_multi LineStart (message_body lines m @ rest) =
      Some (crlf_lines 0 (take_lines (unat lines) m), rest)"
    unfolding message_body_limit [OF assms(1)]
    by (rule read_message_body [OF take_lines_hd [OF assms(2)]])
qed (simp_all add: take_lines_prefix)

theorem pop3_top_cuts_lines_witness:
  "\<exists>body.
    response_serialize (RMessage [65, 10, 66, 10] 1) = str ''+OK '' @ dec 4 @ str '' octets'' @ CRLF @ body \<and>
    read_multi LineStart (body @ [43]) = Some ([65, 13, 10], [43])"
proof -
  have four: "dec (Suc (Suc (Suc (Suc 0)))) = dec 4" by (rule arg_cong [of _ _ dec]) simp
  show ?thesis
    using pop3_top_cuts_lines [of 1 "[65, 10, 66, 10]" "[43]"] by (auto simp: four)
qed

end
