(* ===== verification/Sasl.thy ===== *)
theory Sasl
  imports Bytes
begin

text \<open>
  Decoding of SASL challenges (\<open>crates/common/src/auth/sasl.rs\<close>): \<open>PLAIN\<close>, \<open>XOAUTH2\<close> and
  \<open>OAUTHBEARER\<close>.
\<close>

datatype credentials =
    PlainCredentials bytes bytes
  | BearerToken bytes

fun split_plain :: "nat \<Rightarrow> bytes \<Rightarrow> bytes \<Rightarrow> bytes \<Rightarrow> bytes \<times> bytes" where
  "split_plain arg_num username secret [] = (username, secret)"
| "split_plain arg_num username secret (ch # chs) =
     (if ch \<noteq> 0 then
        split_plain arg_num
          (if arg_num = 1 then username @ [ch] else username)
          (if arg_num = 2 then secret @ [ch] else secret) chs
      else split_plain (arg_num + 1) username secret chs)"

definition sasl_decode_challenge_plain :: "bytes \<Rightarrow> credentials option" where
  "sasl_decode_challenge_plain challenge =
     (let (username, secret) = split_plain 0 [] [] challenge
      in if is_utf8 username \<and> is_utf8 secret \<and> username \<noteq> [] \<and> secret \<noteq> []
         then Some (PlainCredentials username secret) else None)"

fun split_xoauth :: "nat \<Rightarrow> bool \<Rightarrow> bytes \<Rightarrow> bytes \<Rightarrow> bytes \<Rightarrow> bytes \<times> bytes" where
  "split_xoauth arg_num in_arg username secret [] = (username, secret)"
| "split_xoauth arg_num in_arg username secret (ch # chs) =
     (if in_arg then
        (if ch \<noteq> 1 then
           split_xoauth arg_num in_arg
             (if arg_num = 1 then username @ [ch] else username)
             (if arg_num = 2 then secret @ [ch] else secret) chs
         else split_xoauth arg_num False username secret chs)
      else if ch = 61 then split_xoauth (arg_num + 1) True username secret chs
      else split_xoauth arg_num in_arg username secret chs)"

definition sasl_decode_challenge_xoauth :: "bytes \<Rightarrow> credentials option" where
  "sasl_decode_challenge_xoauth challenge =
     (let (username, secret) = split_xoauth 0 False [] [] challenge
      in if is_utf8 username \<and> is_utf8 secret \<and> username \<noteq> []
         then Some (PlainCredentials username secret) else None)"

text \<open>
  \<open>extract_oauth_bearer\<close>: the fields between separators; the last byte ends a field too.  A slice
  that is out of range is \<open>None\<close>, as \<open>get\<close> has it.
\<close>

definition slice_get :: "bytes \<Rightarrow> nat \<Rightarrow> nat \<Rightarrow> bytes option" where
  "slice_get bs a b = (if a \<le> b \<and> b \<le> length bs then Some (take (b - a) (drop a bs)) else None)"

fun bearer_loop :: "bytes \<Rightarrow> nat \<Rightarrow> nat \<Rightarrow> bytes \<Rightarrow> bytes option" where
  "bearer_loop all start_pos pos [] = None"
| "bearer_loop all start_pos pos (ch # chs) =
     (if ch = 1 \<or> pos = length all - 1 then
        (if (case slice_get all start_pos (start_pos + 12) of
               Some s \<Rightarrow> eq_ignore_ascii_case s (str ''auth=Bearer '')
             | None \<Rightarrow> False)
         then Option.bind (slice_get all (start_pos + 12) (if ch = 1 then pos else length all))
                (\<lambda>s. if is_utf8 s then Some s else None)
         else bearer_loop all (pos + 1) (pos + 1) chs)
      else bearer_loop all start_pos (pos + 1) chs)"

definition extract_oauth_bearer :: "bytes \<Rightarrow> bytes option" where
  "extract_oauth_bearer bytes = bearer_loop bytes 0 0 bytes"

definition sasl_decode_challenge_oauth :: "bytes \<Rightarrow> credentials option" where
  "sasl_decode_challenge_oauth challenge = map_option BearerToken (extract_oauth_bearer challenge)"

lemma split_plain_append:
  "0 \<notin> set w \<Longrightarrow>
   split_plain n u s (w @ rest) =
   split_plain n (if n = 1 then u @ w else u) (if n = 2 then s @ w else s) rest"
  by (induction w arbitrary: u s) auto

text \<open>
  The challenge of RFC 4616: an authorization identity, which is ignored, the user and the password.
\<close>

lemma sasl_plain_roundtrip:
  assumes "0 \<notin> set authzid" and "0 \<notin> set username" and "0 \<notin> set secret"
    and "username \<noteq> []" and "secret \<noteq> []" and "is_utf8 username" and "is_utf8 secret"
  shows "sasl_decode_challenge_plain (authzid @ 0 # username @ 0 # secret) =
    Some (PlainCredentials username secret)"
  using assms split_plain_append [of secret 2 username "[]" "[]"]
  by (simp add: sasl_decode_challenge_plain_def split_plain_append numeral_2_eq_2)

end
