(* ===== verification/StoreKeys.thy ===== *)
theory StoreKeys
  imports Leb128 Bytes
begin

text \<open>
  The keys of the data store: the classes of values and bitmaps (\<open>crates/store/src/write/mod.rs\<close>),
  their subspaces and their serialization (\<open>crates/store/src/write/key.rs\<close>), and the key types and
  subspace constants of \<open>crates/store/src/lib.rs\<close>.

  The store has one ordered key space; every key starts with the byte of its subspace.  The
  lemmas show that no two different things share a key, and that the byte order of the keys that
  are scanned as a range is the order of the numbers in them.
\<close>

section \<open>Classes\<close>

record BitmapHash =
  bh_hash :: bytes
  bh_len :: u8

datatype 't TagValue = TagId 't | TagText bytes

datatype 't BitmapClass =
    DocumentIds
  | BmTag u8 "'t TagValue"
  | BmText u8 BitmapHash

datatype TaskQueueClass =
    IndexEmail u64 bytes
  | BayesTrain u64 bytes bool

datatype InMemoryClass = InMemoryKey bytes | InMemoryCounter bytes

datatype 't DirectoryClass =
    NameToId bytes
  | EmailToId bytes
  | DirMemberOf 't 't
  | DirMembers 't 't
  | DirPrincipal 't
  | UsedQuota u32

record QueueEvent =
  qe_due :: u64
  qe_queue_id :: u64

record ReportEvent =
  re_due :: u64
  re_policy_hash :: u64
  re_seq_id :: u64
  re_domain :: bytes

datatype QueueClass =
    QMessage u64
  | MessageEvent QueueEvent
  | DmarcReportHeader ReportEvent
  | DmarcReportEvent ReportEvent
  | TlsReportHeader ReportEvent
  | TlsReportEvent ReportEvent
  | QuotaCount bytes
  | QuotaSize bytes

datatype ReportClass = TlsReport u64 u64 | DmarcReport u64 u64 | ArfReport u64 u64

datatype TelemetryClass =
    TelemetrySpan u64
  | TelemetryMetric u64 u64 u64
  | TelemetryIndex u64 bytes

datatype BlobOp =
    BlobReserve bytes u64
  | BlobCommit bytes
  | BlobLink bytes
  | BlobLinkId bytes u64

datatype 't ValueClass =
    VProperty u8
  | VAcl u32
  | VInMemory InMemoryClass
  | VFtsIndex BitmapHash
  | VTaskQueue TaskQueueClass
  | VDirectory "'t DirectoryClass"
  | VBlob BlobOp
  | VConfig bytes
  | VQueue QueueClass
  | VReport ReportClass
  | VTelemetry TelemetryClass
  | VAny u8 bytes

section \<open>Identifiers assigned while a batch is written\<close>

datatype MaybeDynamicId = StaticId u32 | DynamicId nat

record AssignedIds =
  document_ids :: "u32 list"
  counter_ids :: "64 word list"

fun resolve_id :: "AssignedIds option \<Rightarrow> MaybeDynamicId \<Rightarrow> u32" where
  "resolve_id ids (StaticId i) = i"
| "resolve_id ids (DynamicId idx) =
     (case ids of
        Some a \<Rightarrow> (if idx < length (document_ids a) then document_ids a ! idx else - 1)
      | None \<Rightarrow> - 1)"

section \<open>Subspaces\<close>

definition SUBSPACE_ACL :: u8 where "SUBSPACE_ACL = 97"
definition SUBSPACE_BITMAP_ID :: u8 where "SUBSPACE_BITMAP_ID = 98"
definition SUBSPACE_BITMAP_TAG :: u8 where "SUBSPACE_BITMAP_TAG = 99"
definition SUBSPACE_BITMAP_TEXT :: u8 where "SUBSPACE_BITMAP_TEXT = 118"
definition SUBSPACE_DIRECTORY :: u8 where "SUBSPACE_DIRECTORY = 100"
definition SUBSPACE_TASK_QUEUE :: u8 where "SUBSPACE_TASK_QUEUE = 102"
definition SUBSPACE_INDEXES :: u8 where "SUBSPACE_INDEXES = 105"
definition SUBSPACE_BLOB_RESERVE :: u8 where "SUBSPACE_BLOB_RESERVE = 106"
definition SUBSPACE_BLOB_LINK :: u8 where "SUBSPACE_BLOB_LINK = 107"
definition SUBSPACE_LOGS :: u8 where "SUBSPACE_LOGS = 108"
definition SUBSPACE_COUNTER :: u8 where "SUBSPACE_COUNTER = 110"
definition SUBSPACE_IN_MEMORY_VALUE :: u8 where "SUBSPACE_IN_MEMORY_VALUE = 109"
definition SUBSPACE_IN_MEMORY_COUNTER :: u8 where "SUBSPACE_IN_MEMORY_COUNTER = 121"
definition SUBSPACE_PROPERTY :: u8 where "SUBSPACE_PROPERTY = 112"
definition SUBSPACE_SETTINGS :: u8 where "SUBSPACE_SETTINGS = 115"
definition SUBSPACE_QUEUE_MESSAGE :: u8 where "SUBSPACE_QUEUE_MESSAGE = 101"
definition SUBSPACE_QUEUE_EVENT :: u8 where "SUBSPACE_QUEUE_EVENT = 113"
definition SUBSPACE_QUOTA :: u8 where "SUBSPACE_QUOTA = 117"
definition SUBSPACE_REPORT_OUT :: u8 where "SUBSPACE_REPORT_OUT = 104"
definition SUBSPACE_REPORT_IN :: u8 where "SUBSPACE_REPORT_IN = 114"
definition SUBSPACE_FTS_INDEX :: u8 where "SUBSPACE_FTS_INDEX = 103"
definition SUBSPACE_TELEMETRY_SPAN :: u8 where "SUBSPACE_TELEMETRY_SPAN = 111"
definition SUBSPACE_TELEMETRY_INDEX :: u8 where "SUBSPACE_TELEMETRY_INDEX = 119"
definition SUBSPACE_TELEMETRY_METRIC :: u8 where "SUBSPACE_TELEMETRY_METRIC = 120"

lemmas subspace_defs =
  SUBSPACE_ACL_def SUBSPACE_BITMAP_ID_def SUBSPACE_BITMAP_TAG_def SUBSPACE_BITMAP_TEXT_def
  SUBSPACE_DIRECTORY_def SUBSPACE_TASK_QUEUE_def SUBSPACE_INDEXES_def SUBSPACE_BLOB_RESERVE_def
  SUBSPACE_BLOB_LINK_def SUBSPACE_LOGS_def SUBSPACE_COUNTER_def SUBSPACE_IN_MEMORY_VALUE_def
  SUBSPACE_IN_MEMORY_COUNTER_def SUBSPACE_PROPERTY_def SUBSPACE_SETTINGS_def
  SUBSPACE_QUEUE_MESSAGE_def SUBSPACE_QUEUE_EVENT_def SUBSPACE_QUOTA_def SUBSPACE_REPORT_OUT_def
  SUBSPACE_REPORT_IN_def SUBSPACE_FTS_INDEX_def SUBSPACE_TELEMETRY_SPAN_def
  SUBSPACE_TELEMETRY_INDEX_def SUBSPACE_TELEMETRY_METRIC_def

definition WITH_SUBSPACE :: u32 where "WITH_SUBSPACE = 1"

fun value_subspace :: "'t ValueClass \<Rightarrow> u8 \<Rightarrow> u8" where
  "value_subspace (VProperty field) collection =
     (if field = 84 \<and> collection = 1 then SUBSPACE_COUNTER else SUBSPACE_PROPERTY)"
| "value_subspace (VAcl g) collection = SUBSPACE_ACL"
| "value_subspace (VFtsIndex h) collection = SUBSPACE_FTS_INDEX"
| "value_subspace (VTaskQueue t) collection = SUBSPACE_TASK_QUEUE"
| "value_subspace (VBlob op) collection =
     (case op of BlobReserve h u \<Rightarrow> SUBSPACE_BLOB_RESERVE | _ \<Rightarrow> SUBSPACE_BLOB_LINK)"
| "value_subspace (VConfig k) collection = SUBSPACE_SETTINGS"
| "value_subspace (VInMemory l) collection =
     (case l of InMemoryKey k \<Rightarrow> SUBSPACE_IN_MEMORY_VALUE | InMemoryCounter k \<Rightarrow> SUBSPACE_IN_MEMORY_COUNTER)"
| "value_subspace (VDirectory d) collection =
     (case d of UsedQuota u \<Rightarrow> SUBSPACE_QUOTA | _ \<Rightarrow> SUBSPACE_DIRECTORY)"
| "value_subspace (VQueue q) collection =
     (case q of
        QMessage i \<Rightarrow> SUBSPACE_QUEUE_MESSAGE
      | MessageEvent e \<Rightarrow> SUBSPACE_QUEUE_EVENT
      | QuotaCount k \<Rightarrow> SUBSPACE_QUOTA
      | QuotaSize k \<Rightarrow> SUBSPACE_QUOTA
      | _ \<Rightarrow> SUBSPACE_REPORT_OUT)"
| "value_subspace (VReport r) collection = SUBSPACE_REPORT_IN"
| "value_subspace (VTelemetry t) collection =
     (case t of
        TelemetrySpan s \<Rightarrow> SUBSPACE_TELEMETRY_SPAN
      | TelemetryIndex s v \<Rightarrow> SUBSPACE_TELEMETRY_INDEX
      | TelemetryMetric t m n \<Rightarrow> SUBSPACE_TELEMETRY_METRIC)"
| "value_subspace (VAny s k) collection = s"

fun is_counter :: "'t ValueClass \<Rightarrow> u8 \<Rightarrow> bool" where
  "is_counter (VDirectory (UsedQuota u)) collection = True"
| "is_counter (VInMemory (InMemoryCounter k)) collection = True"
| "is_counter (VQueue (QuotaCount k)) collection = True"
| "is_counter (VQueue (QuotaSize k)) collection = True"
| "is_counter (VProperty field) collection = (field = 84 \<and> collection = 1)"
| "is_counter c collection = False"

fun bitmap_subspace :: "'t BitmapClass \<Rightarrow> u8" where
  "bitmap_subspace DocumentIds = SUBSPACE_BITMAP_ID"
| "bitmap_subspace (BmTag f v) = SUBSPACE_BITMAP_TAG"
| "bitmap_subspace (BmText f t) = SUBSPACE_BITMAP_TEXT"

section \<open>Serialization\<close>

text \<open>
  \<open>KeySerializer\<close> appends what it is given to its buffer; a key is the concatenation of its parts.
\<close>

abbreviation be32 :: "u32 \<Rightarrow> bytes" where "be32 \<equiv> to_be_bytes 4"
abbreviation be64 :: "u64 \<Rightarrow> bytes" where "be64 \<equiv> to_be_bytes 8"

definition with_subspace :: "u32 \<Rightarrow> u8 \<Rightarrow> bytes" where
  "with_subspace flags subspace = (if flags AND WITH_SUBSPACE \<noteq> 0 then [subspace] else [])"

definition hash_key :: "BitmapHash \<Rightarrow> bytes" where
  "hash_key h = take (min (unat (bh_len h)) 8) (bh_hash h) @ (if 8 \<le> bh_len h then [bh_len h] else [])"

definition report_key :: "ReportEvent \<Rightarrow> bytes" where
  "report_key e = be64 (re_due e) @ re_domain e @ be64 (re_policy_hash e) @ be64 (re_seq_id e)"

fun task_key :: "u32 \<Rightarrow> u32 \<Rightarrow> TaskQueueClass \<Rightarrow> bytes" where
  "task_key account_id document_id (IndexEmail seq h) = be64 seq @ be32 account_id @ 0 # be32 document_id @ h"
| "task_key account_id document_id (BayesTrain seq h learn_spam) =
     be64 seq @ be32 account_id @ (if learn_spam then 1 else 2) # be32 document_id @ h"

fun blob_key :: "u32 \<Rightarrow> u8 \<Rightarrow> u32 \<Rightarrow> BlobOp \<Rightarrow> bytes" where
  "blob_key account_id collection document_id (BlobReserve h until) = be32 account_id @ h @ be64 until"
| "blob_key account_id collection document_id (BlobCommit h) = h @ be32 (- 1) @ 0 # be32 (- 1)"
| "blob_key account_id collection document_id (BlobLink h) =
     h @ be32 account_id @ collection # be32 document_id"
| "blob_key account_id collection document_id (BlobLinkId h i) =
     h @ be32 (ucast (drop_bit 32 i)) @ (- 1) # be32 (ucast i)"

fun directory_key :: "('t \<Rightarrow> u32) \<Rightarrow> 't DirectoryClass \<Rightarrow> bytes" where
  "directory_key resolve (NameToId name) = 0 # name"
| "directory_key resolve (EmailToId email) = 1 # email"
| "directory_key resolve (DirPrincipal uid) = 2 # to_leb128_bytes (resolve uid)"
| "directory_key resolve (UsedQuota uid) = 4 # to_leb128_bytes uid"
| "directory_key resolve (DirMemberOf p m) = 5 # be32 (resolve p) @ be32 (resolve m)"
| "directory_key resolve (DirMembers p m) = 6 # be32 (resolve p) @ be32 (resolve m)"

fun queue_key :: "QueueClass \<Rightarrow> bytes" where
  "queue_key (QMessage queue_id) = be64 queue_id"
| "queue_key (MessageEvent event) = be64 (qe_due event) @ be64 (qe_queue_id event)"
| "queue_key (DmarcReportHeader event) = 0 # report_key event @ [0]"
| "queue_key (TlsReportHeader event) = 0 # report_key event @ [1]"
| "queue_key (DmarcReportEvent event) = 1 # report_key event"
| "queue_key (TlsReportEvent event) = 2 # report_key event"
| "queue_key (QuotaCount key) = 0 # key"
| "queue_key (QuotaSize key) = 1 # key"

fun report_in_key :: "ReportClass \<Rightarrow> bytes" where
  "report_in_key (TlsReport i expires) = 0 # be64 expires @ be64 i"
| "report_in_key (DmarcReport i expires) = 1 # be64 expires @ be64 i"
| "report_in_key (ArfReport i expires) = 2 # be64 expires @ be64 i"

fun telemetry_key :: "TelemetryClass \<Rightarrow> bytes" where
  "telemetry_key (TelemetrySpan span_id) = be64 span_id"
| "telemetry_key (TelemetryIndex span_id val) = val @ be64 span_id"
| "telemetry_key (TelemetryMetric timestamp metric_id node_id) =
     be64 timestamp @ to_leb128_bytes metric_id @ to_leb128_bytes node_id"

fun value_key :: "('t \<Rightarrow> u32) \<Rightarrow> u32 \<Rightarrow> u8 \<Rightarrow> u32 \<Rightarrow> 't ValueClass \<Rightarrow> bytes" where
  "value_key resolve account_id collection document_id (VProperty field) =
     be32 account_id @ collection # field # be32 document_id"
| "value_key resolve account_id collection document_id (VFtsIndex h) =
     be32 account_id @ hash_key h @ collection # be32 document_id"
| "value_key resolve account_id collection document_id (VAcl grant_account_id) =
     be32 grant_account_id @ be32 account_id @ collection # be32 document_id"
| "value_key resolve account_id collection document_id (VTaskQueue task) = task_key account_id document_id task"
| "value_key resolve account_id collection document_id (VBlob op) =
     blob_key account_id collection document_id op"
| "value_key resolve account_id collection document_id (VConfig key) = key"
| "value_key resolve account_id collection document_id (VInMemory lookup) =
     (case lookup of InMemoryKey key \<Rightarrow> key | InMemoryCounter key \<Rightarrow> key)"
| "value_key resolve account_id collection document_id (VDirectory d) = directory_key resolve d"
| "value_key resolve account_id collection document_id (VQueue q) = queue_key q"
| "value_key resolve account_id collection document_id (VReport r) = report_in_key r"
| "value_key resolve account_id collection document_id (VTelemetry t) = telemetry_key t"
| "value_key resolve account_id collection document_id (VAny s key) = key"

definition value_class_serialize ::
  "('t \<Rightarrow> u32) \<Rightarrow> u32 \<Rightarrow> u8 \<Rightarrow> u32 \<Rightarrow> u32 \<Rightarrow> 't ValueClass \<Rightarrow> bytes" where
  "value_class_serialize resolve account_id collection document_id flags c =
     with_subspace flags (value_subspace c collection) @
     value_key resolve account_id collection document_id c"

definition BM_MARKER :: u8 where "BM_MARKER = 128"

fun bitmap_key :: "('t \<Rightarrow> u32) \<Rightarrow> u32 \<Rightarrow> u8 \<Rightarrow> 't BitmapClass \<Rightarrow> bytes" where
  "bitmap_key resolve account_id collection DocumentIds = be32 account_id @ [collection]"
| "bitmap_key resolve account_id collection (BmTag field (TagId i)) =
     be32 account_id @ collection # field # to_leb128_bytes (resolve i)"
| "bitmap_key resolve account_id collection (BmTag field (TagText t)) =
     be32 account_id @ collection # (field OR BM_MARKER) # t"
| "bitmap_key resolve account_id collection (BmText field token) =
     be32 account_id @ hash_key token @ [collection, field]"

definition bitmap_class_serialize ::
  "('t \<Rightarrow> u32) \<Rightarrow> u32 \<Rightarrow> u8 \<Rightarrow> u32 \<Rightarrow> u32 \<Rightarrow> 't BitmapClass \<Rightarrow> bytes" where
  "bitmap_class_serialize resolve account_id collection document_id flags c =
     with_subspace flags (bitmap_subspace c) @ bitmap_key resolve account_id collection c @ be32 document_id"

definition index_key_serialize :: "u32 \<Rightarrow> u8 \<Rightarrow> u32 \<Rightarrow> u8 \<Rightarrow> bytes \<Rightarrow> u32 \<Rightarrow> bytes" where
  "index_key_serialize account_id collection document_id field key flags =
     with_subspace flags SUBSPACE_INDEXES @
     be32 account_id @ collection # field # key @ be32 document_id"

definition index_prefix_serialize :: "u32 \<Rightarrow> u8 \<Rightarrow> u8 \<Rightarrow> u32 \<Rightarrow> bytes" where
  "index_prefix_serialize account_id collection field flags =
     with_subspace flags SUBSPACE_INDEXES @ be32 account_id @ [collection, field]"

definition log_key_serialize :: "u32 \<Rightarrow> u8 \<Rightarrow> u64 \<Rightarrow> u32 \<Rightarrow> bytes" where
  "log_key_serialize account_id collection change_id flags =
     with_subspace flags SUBSPACE_LOGS @ be32 account_id @ collection # be64 change_id"

definition any_key_serialize :: "u8 \<Rightarrow> bytes \<Rightarrow> u32 \<Rightarrow> bytes" where
  "any_key_serialize subspace key flags = with_subspace flags subspace @ key"

text \<open>The key types that implement \<open>Key\<close>.\<close>

datatype store_key =
    ValueKey u32 u8 u32 "u32 ValueClass"
  | BitmapKey u32 u8 u32 "u32 BitmapClass"
  | IndexKey u32 u8 u32 u8 bytes
  | IndexKeyPrefix u32 u8 u8
  | LogKey u32 u8 u64
  | AnyKey u8 bytes

fun key_serialize :: "store_key \<Rightarrow> u32 \<Rightarrow> bytes" where
  "key_serialize (ValueKey a c d cls) flags = value_class_serialize (\<lambda>i. i) a c d flags cls"
| "key_serialize (BitmapKey a c d cls) flags = bitmap_class_serialize (\<lambda>i. i) a c d flags cls"
| "key_serialize (IndexKey a c d f k) flags = index_key_serialize a c d f k flags"
| "key_serialize (IndexKeyPrefix a c f) flags = index_prefix_serialize a c f flags"
| "key_serialize (LogKey a c i) flags = log_key_serialize a c i flags"
| "key_serialize (AnyKey s k) flags = any_key_serialize s k flags"

fun key_subspace :: "store_key \<Rightarrow> u8" where
  "key_subspace (ValueKey a c d cls) = value_subspace cls c"
| "key_subspace (BitmapKey a c d cls) = bitmap_subspace cls"
| "key_subspace (IndexKey a c d f k) = SUBSPACE_INDEXES"
| "key_subspace (IndexKeyPrefix a c f) = SUBSPACE_INDEXES"
| "key_subspace (LogKey a c i) = SUBSPACE_LOGS"
| "key_subspace (AnyKey s k) = s"

section \<open>Reading numbers out of keys\<close>

datatype store_error = DataCorruption

text \<open>
  \<open>index + U32_LEN\<close> wraps for an index near the end of the address space; \<open>get\<close> refuses a
  range that is not in order, so such an index is an error too.
\<close>

definition be_slice :: "nat \<Rightarrow> bytes \<Rightarrow> usize \<Rightarrow> store_error + bytes" where
  "be_slice n bs index =
     (let a = unat index; b = unat (index + of_nat n)
      in if a \<le> b \<and> b \<le> length bs then Inr (take (b - a) (drop a bs)) else Inl DataCorruption)"

definition deserialize_be_u32 :: "bytes \<Rightarrow> usize \<Rightarrow> store_error + u32" where
  "deserialize_be_u32 bs index = map_sum id from_be_bytes (be_slice 4 bs index)"

definition deserialize_be_u64 :: "bytes \<Rightarrow> usize \<Rightarrow> store_error + u64" where
  "deserialize_be_u64 bs index = map_sum id from_be_bytes (be_slice 8 bs index)"

text \<open>\<open>ReportEvent::deserialize\<close>; the subtractions are on \<open>usize\<close> and wrap on a short key.\<close>

definition report_event_deserialize :: "bytes \<Rightarrow> store_error + ReportEvent" where
  "report_event_deserialize key =
     (let len = (of_nat (length key) :: usize) in
      case deserialize_be_u64 key 1 of
        Inl e \<Rightarrow> Inl e
      | Inr due \<Rightarrow>
          (case deserialize_be_u64 key (len - 17) of
             Inl e \<Rightarrow> Inl e
           | Inr policy_hash \<Rightarrow>
               (case deserialize_be_u64 key (len - 9) of
                  Inl e \<Rightarrow> Inl e
                | Inr seq_id \<Rightarrow>
                    (let b = unat (len - 17) in
                     if 9 \<le> b \<and> b \<le> length key \<and> is_utf8 (take (b - 9) (drop 9 key))
                     then Inr \<lparr>re_due = due, re_policy_hash = policy_hash, re_seq_id = seq_id,
                            re_domain = take (b - 9) (drop 9 key)\<rparr>
                     else Inl DataCorruption))))"

section \<open>Fixed-width numbers keep their order\<close>

lemma append_less_append:
  "length xs = length ys \<Longrightarrow> xs @ r < ys @ s \<longleftrightarrow> xs < ys \<or> xs = ys \<and> r < (s::'a::linorder list)"
  by (induction xs ys rule: list_induct2) auto

text \<open>
  A codec of fixed width whose byte order is the order of its values.  A scan over a range of
  keys relies on it: what follows the number in the key only matters between equal numbers.
\<close>

locale ordered_codec = codec enc dec
  for enc :: "'v::linorder \<Rightarrow> bytes" and dec :: "bytes \<Rightarrow> ('v \<times> bytes) option" +
  fixes width :: nat
  assumes enc_width: "length (enc v) = width"
    and enc_less: "enc v < enc w \<longleftrightarrow> v < w"
begin

lemma enc_append_less: "enc v @ r < enc w @ s \<longleftrightarrow> v < w \<or> v = w \<and> r < s"
  by (simp add: append_less_append enc_width enc_less enc_inj)

lemma enc_append_le: "enc v @ r \<le> enc w @ s \<longleftrightarrow> v < w \<or> v = w \<and> r \<le> s"
  unfolding le_less enc_append_less by (auto simp: enc_cancel)

end

lemma digit_less_iff:
  fixes a b r s m :: nat
  assumes "r < m" and "s < m"
  shows "m * a + r < m * b + s \<longleftrightarrow> a < b \<or> a = b \<and> r < s"
proof (cases a b rule: linorder_cases)
  case less
  then have "m * Suc a \<le> m * b" by (intro mult_le_mono2) simp
  with less assms show ?thesis by simp
next
  case greater
  then have "m * Suc b \<le> m * a" by (intro mult_le_mono2) simp
  with greater assms show ?thesis by simp
qed simp

lemma unat_byte: "unat (ucast (drop_bit (8 * n) (w::'a::len word)) :: u8) = unat w div 256 ^ n mod 256"
proof -
  have "unat (drop_bit (8 * n) w) = unat w div 2 ^ (8 * n)"
    by (simp add: unat_drop_bit_eq) (simp add: drop_bit_eq_div)
  then show ?thesis
    by (simp add: unsigned_ucast_eq take_bit_eq_mod power_mult)
qed

lemma to_be_bytes_less_mod:
  fixes v w :: "'a::len word"
  shows "to_be_bytes n v < to_be_bytes n w \<longleftrightarrow> unat v mod 256 ^ n < unat w mod 256 ^ n"
proof (induction n)
  case 0
  then show ?case by (simp add: to_be_bytes_def)
next
  case (Suc n)
  have digits: "unat x mod 256 ^ Suc n = 256 ^ n * (unat x div 256 ^ n mod 256) + unat x mod 256 ^ n"
    for x :: "'a word"
    using mod_mult2_eq [of "unat x" "256 ^ n" 256] by (simp add: mult.commute)
  show ?case
    unfolding digits [of v] digits [of w] using Suc
    by (simp add: to_be_bytes_Suc word_less_nat_alt word_unat_eq_iff unat_byte digit_less_iff)
qed

definition next_be :: "nat \<Rightarrow> bytes \<Rightarrow> ('a::len word \<times> bytes) option" where
  "next_be n bs = (if length bs < n then None else Some (from_be_bytes (take n bs), drop n bs))"

lemma to_be_bytes_less:
  fixes v w :: "'a::len word"
  shows "LENGTH('a) = 8 * n \<Longrightarrow> to_be_bytes n v < to_be_bytes n w \<longleftrightarrow> v < w"
  using unsigned_less [of v, where ?'a = nat] unsigned_less [of w, where ?'a = nat]
  by (simp add: to_be_bytes_less_mod word_less_nat_alt power_mult)

interpretation be_u32: ordered_codec be32 "next_be 4" 4
  by unfold_locales (simp_all add: next_be_def from_be_to_be_bytes to_be_bytes_less)

interpretation be_u64: ordered_codec be64 "next_be 8" 8
  by unfold_locales (simp_all add: next_be_def from_be_to_be_bytes to_be_bytes_less)

lemmas be_cancel [simp] = be_u32.enc_cancel be_u64.enc_cancel be_u32.enc_inj be_u64.enc_inj

section \<open>Different things have different keys\<close>

text \<open>
  What a key stands for: the parts of it that its class does not use are dropped.
\<close>

definition norm_hash :: "BitmapHash \<Rightarrow> BitmapHash" where
  "norm_hash h = h\<lparr>bh_hash := take (min (unat (bh_len h)) 8) (bh_hash h)\<rparr>"

fun value_identity :: "u32 \<Rightarrow> u8 \<Rightarrow> u32 \<Rightarrow> u32 ValueClass \<Rightarrow> store_key" where
  "value_identity a c d (VFtsIndex h) = ValueKey a c d (VFtsIndex (norm_hash h))"
| "value_identity a c d (VProperty f) = ValueKey a c d (VProperty f)"
| "value_identity a c d (VAcl g) = ValueKey a c d (VAcl g)"
| "value_identity a c d (VTaskQueue t) = ValueKey a 0 d (VTaskQueue t)"
| "value_identity a c d (VBlob (BlobReserve h u)) = ValueKey a 0 0 (VBlob (BlobReserve h u))"
| "value_identity a c d (VBlob (BlobLink h)) = ValueKey a c d (VBlob (BlobLink h))"
| "value_identity a c d cls = ValueKey 0 0 0 cls"

fun key_identity :: "store_key \<Rightarrow> store_key" where
  "key_identity (ValueKey a c d cls) = value_identity a c d cls"
| "key_identity (BitmapKey a c d (BmText f h)) = BitmapKey a c d (BmText f (norm_hash h))"
| "key_identity k = k"

text \<open>
  Hashes have their fixed sizes, a field leaves its top bit to the bitmap marker, the link of a
  document does not use the collection and the document that stand for the other links, and keys
  of the untyped class, which may lie in any subspace, are excluded.
\<close>

fun wf_value :: "u32 \<Rightarrow> u8 \<Rightarrow> u32 \<Rightarrow> u32 ValueClass \<Rightarrow> bool" where
  "wf_value a c d (VFtsIndex h) = (length (bh_hash h) = 8)"
| "wf_value a c d (VTaskQueue (IndexEmail s h)) = (length h = 32)"
| "wf_value a c d (VTaskQueue (BayesTrain s h l)) = (length h = 32)"
| "wf_value a c d (VBlob (BlobReserve h u)) = (length h = 32)"
| "wf_value a c d (VBlob (BlobCommit h)) = (length h = 32)"
| "wf_value a c d (VBlob (BlobLink h)) = (length h = 32 \<and> c \<noteq> - 1 \<and> \<not> (a = - 1 \<and> c = 0 \<and> d = - 1))"
| "wf_value a c d (VBlob (BlobLinkId h i)) = (length h = 32)"
| "wf_value a c d (VAny s k) = False"
| "wf_value a c d cls = True"

fun wf_key :: "store_key \<Rightarrow> bool" where
  "wf_key (ValueKey a c d cls) = wf_value a c d cls"
| "wf_key (BitmapKey a c d (BmTag f v)) = (\<not> bit f 7)"
| "wf_key (BitmapKey a c d (BmText f h)) = (length (bh_hash h) = 8)"
| "wf_key (AnyKey s k) = False"
| "wf_key k = True"

lemma key_serialize_subspace:
  "key_serialize k WITH_SUBSPACE = key_subspace k # key_serialize k 0"
  by (cases k) (simp_all add: value_class_serialize_def bitmap_class_serialize_def index_key_serialize_def
    index_prefix_serialize_def log_key_serialize_def any_key_serialize_def with_subspace_def WITH_SUBSPACE_def)

lemma length_hash_key:
  "length (bh_hash h) = 8 \<Longrightarrow> length (hash_key h) = (if bh_len h < 8 then unat (bh_len h) else 9)"
  by (simp add: hash_key_def word_less_nat_alt word_le_nat_alt)

lemma hash_key_eq_iff:
  assumes "length (bh_hash h) = 8" and "length (bh_hash k) = 8"
  shows "hash_key h = hash_key k \<longleftrightarrow> norm_hash h = norm_hash k"
proof (cases "length (hash_key h) = length (hash_key k)")
  case True
  show ?thesis
  proof (cases "bh_len h < 8")
    case small: True
    with True assms have "bh_len h = bh_len k"
      by (auto simp: length_hash_key word_less_nat_alt word_unat_eq_iff split: if_splits)
    with small show ?thesis
      by (cases h; cases k) (simp add: hash_key_def norm_hash_def flip: not_less)
  next
    case large: False
    with True assms have "\<not> bh_len k < 8"
      by (auto simp: length_hash_key word_less_nat_alt split: if_splits)
    with large show ?thesis
      by (cases h; cases k) (auto simp: hash_key_def norm_hash_def not_less word_le_nat_alt)
  qed
next
  case False
  then have "hash_key h \<noteq> hash_key k" by auto
  moreover from False assms have "bh_len h \<noteq> bh_len k" by (auto simp: length_hash_key split: if_splits)
  then have "norm_hash h \<noteq> norm_hash k" by (cases h; cases k) (simp add: norm_hash_def)
  ultimately show ?thesis by simp
qed

lemma hash_key_cancel:
  assumes "length (bh_hash h) = 8" and "length (bh_hash k) = 8" and "length r = length s"
  shows "hash_key h @ r = hash_key k @ s \<longleftrightarrow> norm_hash h = norm_hash k \<and> r = s"
  using assms by (simp add: hash_key_eq_iff)

lemma report_key_eq_iff: "report_key e = report_key f \<longleftrightarrow> e = f"
  by (cases e; cases f) (auto simp: report_key_def append_eq_append_conv [of _ _ "be64 x @ be64 y" "be64 z @ be64 w" for x y z w])

lemma or_marker:
  assumes "\<not> bit f 7" and "\<not> bit g 7"
  shows "f OR BM_MARKER = g OR BM_MARKER \<longleftrightarrow> f = g" and "f OR BM_MARKER \<noteq> g" and "g \<noteq> f OR BM_MARKER"
proof -
  have eq: "x OR BM_MARKER = set_bit 7 x" for x :: u8
    using or_0x80_eq [of x] by (simp add: BM_MARKER_def)
  show "f OR BM_MARKER \<noteq> g" "g \<noteq> f OR BM_MARKER"
    using assms(2) bit_set_bit_iff [of 7 f 7] unfolding eq by auto
  show "f OR BM_MARKER = g OR BM_MARKER \<longleftrightarrow> f = g"
    unfolding eq using assms by (metis bit_set_bit_iff bit_eqI)
qed

lemma halves_eq_iff:
  fixes i j :: u64
  shows "(ucast (drop_bit 32 i) :: u32) = ucast (drop_bit 32 j) \<and> (ucast i :: u32) = ucast j \<longleftrightarrow> i = j"
proof
  assume eq: "(ucast (drop_bit 32 i) :: u32) = ucast (drop_bit 32 j) \<and> (ucast i :: u32) = ucast j"
  show "i = j"
  proof (rule bit_word_eqI)
    fix n assume n: "n < LENGTH(64)"
    from eq have "bit (ucast (drop_bit 32 i) :: u32) (n - 32) = bit (ucast (drop_bit 32 j) :: u32) (n - 32)"
      and "bit (ucast i :: u32) n = bit (ucast j :: u32) n" by simp_all
    with n show "bit i n = bit j n"
      by (cases "n < 32") (auto simp: bit_simps)
  qed
qed simp

lemma task_key_eq_iff:
  "wf_value a c d (VTaskQueue t) \<Longrightarrow> wf_value a' c' d' (VTaskQueue t') \<Longrightarrow>
   task_key a d t = task_key a' d' t' \<longleftrightarrow> a = a' \<and> d = d' \<and> t = t'"
  by (cases t; cases t') auto

lemma blob_key_eq_iff:
  assumes "wf_value a c d (VBlob b)" and "wf_value a' c' d' (VBlob b')"
    and "value_subspace (VBlob b :: u32 ValueClass) c = value_subspace (VBlob b' :: u32 ValueClass) c'"
  shows "blob_key a c d b = blob_key a' c' d' b' \<longleftrightarrow> value_identity a c d (VBlob b) = value_identity a' c' d' (VBlob b')"
  using assms by (cases b; cases b') (auto simp: subspace_defs append_eq_append_conv halves_eq_iff)

lemma directory_key_eq_iff:
  "directory_key (\<lambda>i. i) x = directory_key (\<lambda>i. i) y \<longleftrightarrow> x = y"
  by (cases x; cases y) (auto simp: leb_u32.enc_inj)

lemma queue_key_eq_iff:
  assumes "value_subspace (VQueue x :: u32 ValueClass) 0 = value_subspace (VQueue y :: u32 ValueClass) 0"
  shows "queue_key x = queue_key y \<longleftrightarrow> x = y"
proof -
  have ev: "e = f \<longleftrightarrow> qe_due e = qe_due f \<and> qe_queue_id e = qe_queue_id f" for e f :: QueueEvent
    by (cases e; cases f) auto
  from assms show ?thesis
    by (cases x; cases y) (simp_all add: subspace_defs report_key_eq_iff ev)
qed

lemma report_in_key_eq_iff: "report_in_key x = report_in_key y \<longleftrightarrow> x = y"
  by (cases x; cases y) auto

lemma telemetry_key_eq_iff:
  assumes "value_subspace (VTelemetry x :: u32 ValueClass) 0 = value_subspace (VTelemetry y :: u32 ValueClass) 0"
  shows "telemetry_key x = telemetry_key y \<longleftrightarrow> x = y"
  using assms by (cases x; cases y) (auto simp: subspace_defs leb_u64.enc_cancel leb_u64.enc_inj)

lemma quota_keys_differ:
  "queue_key q \<noteq> directory_key r (UsedQuota u)" if "value_subspace (VQueue q :: u32 ValueClass) 0 = SUBSPACE_QUOTA"
  using that by (cases q) (simp_all add: subspace_defs)

fun value_kind :: "'t ValueClass \<Rightarrow> nat" where
  "value_kind (VProperty f) = 0"
| "value_kind (VAcl g) = 1"
| "value_kind (VInMemory m) = 2"
| "value_kind (VFtsIndex h) = 3"
| "value_kind (VTaskQueue t) = 4"
| "value_kind (VDirectory d) = 5"
| "value_kind (VBlob b) = 6"
| "value_kind (VConfig k) = 7"
| "value_kind (VQueue q) = 8"
| "value_kind (VReport r) = 9"
| "value_kind (VTelemetry t) = 10"
| "value_kind (VAny s k) = 11"

text \<open>Outside the quota subspace, which two classes share, the subspace tells the class.\<close>

definition subspace_kind :: "u8 \<Rightarrow> nat" where
  "subspace_kind s =
     (if s \<in> {110, 112} then 0 else if s = 97 then 1 else if s \<in> {109, 121} then 2 else if s = 103 then 3
      else if s = 102 then 4 else if s = 100 then 5 else if s \<in> {106, 107} then 6 else if s = 115 then 7
      else if s \<in> {101, 113, 104} then 8 else if s = 114 then 9 else if s \<in> {111, 119, 120} then 10
      else 12)"

lemma value_subspace_kind:
  "value_kind x \<noteq> 11 \<Longrightarrow> value_subspace x c \<noteq> SUBSPACE_QUOTA \<Longrightarrow> subspace_kind (value_subspace x c) = value_kind x"
  by (cases x) (simp_all add: subspace_kind_def subspace_defs
    split: BlobOp.splits InMemoryClass.splits DirectoryClass.splits QueueClass.splits TelemetryClass.splits)

lemma value_subspace_quota:
  "value_kind x \<noteq> 11 \<Longrightarrow> value_subspace x c = SUBSPACE_QUOTA \<longleftrightarrow>
   (\<exists>u. x = VDirectory (UsedQuota u)) \<or> (\<exists>k. x = VQueue (QuotaCount k) \<or> x = VQueue (QuotaSize k))"
  by (cases x) (simp_all add: subspace_defs
    split: BlobOp.splits InMemoryClass.splits DirectoryClass.splits QueueClass.splits TelemetryClass.splits)

lemma value_key_quota:
  assumes "value_subspace x c = SUBSPACE_QUOTA" and "value_kind x \<noteq> 11"
    and "value_subspace y c' = SUBSPACE_QUOTA" and "value_kind y \<noteq> 11"
  shows "value_key (\<lambda>i. i) a c d x = value_key (\<lambda>i. i) a' c' d' y \<longleftrightarrow>
    value_identity a c d x = value_identity a' c' d' y"
  using assms by (auto simp: value_subspace_quota leb_u32.enc_inj)

lemma wf_value_kind: "wf_value a c d x \<Longrightarrow> value_kind x \<noteq> 11"
  by (cases x) simp_all

lemma value_key_eq_iff:
  assumes wf: "wf_value a c d x" "wf_value a' c' d' y"
    and subspace: "value_subspace x c = value_subspace y c'"
  shows "value_key (\<lambda>i. i) a c d x = value_key (\<lambda>i. i) a' c' d' y \<longleftrightarrow>
    value_identity a c d x = value_identity a' c' d' y"
proof (cases "value_subspace x c = SUBSPACE_QUOTA")
  case True
  with wf subspace show ?thesis
    by (intro value_key_quota) (simp_all add: wf_value_kind)
next
  case False
  with wf subspace have "value_kind x = value_kind y"
    by (metis value_subspace_kind wf_value_kind)
  with wf subspace show ?thesis
    by (cases x; cases y)
      (simp_all add: hash_key_cancel hash_key_eq_iff task_key_eq_iff blob_key_eq_iff directory_key_eq_iff
        queue_key_eq_iff report_in_key_eq_iff telemetry_key_eq_iff SUBSPACE_IN_MEMORY_VALUE_def
        SUBSPACE_IN_MEMORY_COUNTER_def conj_ac split: InMemoryClass.splits)
qed

lemma bitmap_key_eq_iff:
  assumes "wf_key (BitmapKey a c d x)" and "wf_key (BitmapKey a' c' d' y)"
    and "bitmap_subspace x = bitmap_subspace y"
  shows "key_serialize (BitmapKey a c d x) 0 = key_serialize (BitmapKey a' c' d' y) 0 \<longleftrightarrow>
    key_identity (BitmapKey a c d x) = key_identity (BitmapKey a' c' d' y)"
proof (cases x; cases y)
  fix f v g w assume xy: "x = BmTag f v" "y = BmTag g w"
  with assms show ?thesis
    by (cases v; cases w)
      (auto simp: bitmap_class_serialize_def with_subspace_def or_marker leb_u32.enc_inj)
qed (use assms in \<open>auto simp: subspace_defs bitmap_class_serialize_def with_subspace_def hash_key_eq_iff\<close>)

lemma other_subspaces:
  "value_kind x \<noteq> 11 \<Longrightarrow> value_subspace x c \<notin> {SUBSPACE_BITMAP_ID, SUBSPACE_BITMAP_TAG, SUBSPACE_BITMAP_TEXT, SUBSPACE_INDEXES, SUBSPACE_LOGS}"
  by (cases x) (simp_all add: subspace_defs
    split: BlobOp.splits InMemoryClass.splits DirectoryClass.splits QueueClass.splits TelemetryClass.splits)

lemma bitmap_subspaces:
  "bitmap_subspace x \<in> {SUBSPACE_BITMAP_ID, SUBSPACE_BITMAP_TAG, SUBSPACE_BITMAP_TEXT}"
  by (cases x) simp_all

lemma be_not_Nil [simp]: "be32 x \<noteq> []" "be64 y \<noteq> []"
  by (metis length_to_be_bytes list.size(3) zero_neq_numeral)+

fun key_kind :: "store_key \<Rightarrow> nat" where
  "key_kind (ValueKey a c d x) = 0"
| "key_kind (BitmapKey a c d x) = 1"
| "key_kind (IndexKey a c d f k) = 2"
| "key_kind (IndexKeyPrefix a c f) = 2"
| "key_kind (LogKey a c i) = 3"
| "key_kind (AnyKey s k) = 4"

lemma key_subspace_kind:
  assumes "wf_key k"
  shows "key_kind k = (if key_subspace k \<in> {SUBSPACE_BITMAP_ID, SUBSPACE_BITMAP_TAG, SUBSPACE_BITMAP_TEXT} then 1
    else if key_subspace k = SUBSPACE_INDEXES then 2 else if key_subspace k = SUBSPACE_LOGS then 3 else 0)"
proof (cases k)
  case (ValueKey a c d x)
  with assms have "value_kind x \<noteq> 11" by (simp add: wf_value_kind)
  from other_subspaces [OF this, of c] ValueKey show ?thesis by (simp del: value_subspace.simps)
next
  case (BitmapKey a c d x)
  with bitmap_subspaces [of x] show ?thesis by simp
qed (use assms in \<open>simp_all add: subspace_defs\<close>)

lemma same_subspace_eq_iff:
  assumes wf: "wf_key k" "wf_key l" and subspace: "key_subspace k = key_subspace l"
  shows "key_serialize k 0 = key_serialize l 0 \<longleftrightarrow> key_identity k = key_identity l"
proof -
  have kind: "key_kind k = key_kind l"
    unfolding key_subspace_kind [OF wf(1)] key_subspace_kind [OF wf(2)] subspace ..
  show ?thesis
  proof (cases k; cases l)
    fix a c d x a' c' d' y assume "k = ValueKey a c d x" "l = ValueKey a' c' d' y"
    with wf subspace show ?thesis
      using value_key_eq_iff [of a c d x a' c' d' y] by (simp add: value_class_serialize_def with_subspace_def)
  next
    fix a c d x a' c' d' y assume "k = BitmapKey a c d x" "l = BitmapKey a' c' d' y"
    with wf subspace show ?thesis
      using bitmap_key_eq_iff [of a c d x a' c' d' y] by simp
  qed (use kind wf in
    \<open>auto simp: index_key_serialize_def index_prefix_serialize_def log_key_serialize_def with_subspace_def\<close>)
qed

lemma key_subspace_identity: "key_subspace (key_identity k) = key_subspace k"
proof -
  have "key_subspace (value_identity a c d x) = value_subspace x c" for a c d x
    by (induction a c d x rule: value_identity.induct) simp_all
  then show ?thesis
    by (induction k rule: key_identity.induct) simp_all
qed

text \<open>
  C6: No two different things share a key of the data store.  Over the typed keys of values,
  bitmaps, index entries and change logs, with the class-specific conditions of \<open>wf_key\<close> on their
  variable-length parts, two keys serialize to the same bytes exactly if they
  agree on every part their class uses; in particular the variable-length parts (names, tokens,
  domains, LEB128 numbers) never run into what follows them.
\<close>

theorem store_keys_distinct:
  assumes "wf_key k" and "wf_key l"
  shows "key_serialize k WITH_SUBSPACE = key_serialize l WITH_SUBSPACE \<longleftrightarrow> key_identity k = key_identity l"
  using same_subspace_eq_iff [OF assms] key_subspace_identity [of k] key_subspace_identity [of l]
  unfolding key_serialize_subspace by (metis list.inject)

text \<open>The key of an e-mail's size in the index, and of the link between two principals.\<close>

theorem store_keys_distinct_witness:
  "key_serialize (IndexKey 7 1 3 14 (be32 2048)) WITH_SUBSPACE \<noteq>
   key_serialize (ValueKey 0 0 0 (VDirectory (DirMembers 7 3))) WITH_SUBSPACE"
  using store_keys_distinct [of "IndexKey 7 1 3 14 (be32 2048)" "ValueKey 0 0 0 (VDirectory (DirMembers 7 3))"]
  by simp

section \<open>Ranges\<close>

text \<open>
  Between two keys of one subspace there are only keys of that subspace.
\<close>

lemma between_subspace:
  assumes "s # x \<le> t # y" and "t # y \<le> s # z"
  shows "t = (s :: u8) \<and> x \<le> y \<and> y \<le> z"
  using assms by auto

lemma log_key_le:
  "key_serialize (LogKey a c i) 0 \<le> key_serialize (LogKey a' c' j) 0 \<longleftrightarrow>
   a < a' \<or> a = a' \<and> (c < c' \<or> c = c' \<and> i \<le> j)"
  using be_u64.enc_append_le [of i "[]" j "[]"]
  by (auto simp: log_key_serialize_def with_subspace_def be_u32.enc_append_le)

lemma log_range_iff:
  assumes "wf_key k"
  shows "key_serialize (LogKey a c lo) WITH_SUBSPACE \<le> key_serialize k WITH_SUBSPACE \<and>
    key_serialize k WITH_SUBSPACE \<le> key_serialize (LogKey a c hi) WITH_SUBSPACE \<longleftrightarrow>
    (\<exists>i. k = LogKey a c i \<and> lo \<le> i \<and> i \<le> hi)"
proof
  assume range: "key_serialize (LogKey a c lo) WITH_SUBSPACE \<le> key_serialize k WITH_SUBSPACE \<and>
    key_serialize k WITH_SUBSPACE \<le> key_serialize (LogKey a c hi) WITH_SUBSPACE"
  have sub: "key_subspace k = SUBSPACE_LOGS" and
    body: "key_serialize (LogKey a c lo) 0 \<le> key_serialize k 0" "key_serialize k 0 \<le> key_serialize (LogKey a c hi) 0"
    using range unfolding key_serialize_subspace by (auto dest: between_subspace)
  have "key_kind k = 3"
    unfolding key_subspace_kind [OF assms] sub by (simp add: subspace_defs)
  then obtain a' c' i where "k = LogKey a' c' i" by (cases k) auto
  with body show "\<exists>i. k = LogKey a c i \<and> lo \<le> i \<and> i \<le> hi" by (auto simp: log_key_le simp del: key_serialize.simps)
next
  assume "\<exists>i. k = LogKey a c i \<and> lo \<le> i \<and> i \<le> hi"
  then show "key_serialize (LogKey a c lo) WITH_SUBSPACE \<le> key_serialize k WITH_SUBSPACE \<and>
    key_serialize k WITH_SUBSPACE \<le> key_serialize (LogKey a c hi) WITH_SUBSPACE"
    unfolding key_serialize_subspace by (auto simp: log_key_le simp del: key_serialize.simps)
qed

abbreviation event_key :: "u64 \<Rightarrow> u64 \<Rightarrow> store_key" where
  "event_key due i \<equiv> ValueKey 0 0 0 (VQueue (MessageEvent \<lparr>qe_due = due, qe_queue_id = i\<rparr>))"

lemma event_key_le:
  "key_serialize (event_key t i) 0 \<le> key_serialize (event_key u j) 0 \<longleftrightarrow> t < u \<or> t = u \<and> i \<le> j"
  using be_u64.enc_append_le [of i "[]" j "[]"]
  by (auto simp: value_class_serialize_def with_subspace_def be_u64.enc_append_le)

lemma queue_event_subspace:
  assumes "wf_key k" and "key_subspace k = SUBSPACE_QUEUE_EVENT"
  shows "\<exists>a c d e. k = ValueKey a c d (VQueue (MessageEvent e))"
proof -
  have "key_kind k = 0"
    unfolding key_subspace_kind [OF assms(1)] assms(2) by (simp add: subspace_defs)
  then obtain a c d x where k: "k = ValueKey a c d x" by (cases k) auto
  with assms have sub: "value_subspace x c = SUBSPACE_QUEUE_EVENT" and wf: "wf_value a c d x"
    by (simp_all del: value_subspace.simps wf_value.simps)
  from value_subspace_kind [OF wf_value_kind [OF wf], of c] sub have "value_kind x = 8"
    by (simp add: subspace_defs subspace_kind_def del: value_subspace.simps)
  then obtain q where "x = VQueue q" by (cases x) auto
  with sub k show ?thesis by (cases q) (auto simp: subspace_defs)
qed

lemma event_range_iff:
  assumes "wf_key k"
  shows "key_serialize (event_key t i) WITH_SUBSPACE \<le> key_serialize k WITH_SUBSPACE \<and>
    key_serialize k WITH_SUBSPACE \<le> key_serialize (event_key u (- 1)) WITH_SUBSPACE \<longleftrightarrow>
    (\<exists>due j. key_identity k = event_key due j \<and> (t < due \<or> t = due \<and> i \<le> j) \<and> due \<le> u)"
proof -
  have max: "j \<le> (- 1 :: u64)" for j by simp
  show ?thesis
  proof
    assume range: "key_serialize (event_key t i) WITH_SUBSPACE \<le> key_serialize k WITH_SUBSPACE \<and>
      key_serialize k WITH_SUBSPACE \<le> key_serialize (event_key u (- 1)) WITH_SUBSPACE"
    then have sub: "key_subspace k = SUBSPACE_QUEUE_EVENT" and
      body: "key_serialize (event_key t i) 0 \<le> key_serialize k 0" "key_serialize k 0 \<le> key_serialize (event_key u (- 1)) 0"
      unfolding key_serialize_subspace by (auto dest: between_subspace)
    from queue_event_subspace [OF assms sub] obtain a c d due j
      where k: "k = ValueKey a c d (VQueue (MessageEvent \<lparr>qe_due = due, qe_queue_id = j\<rparr>))"
      by (metis QueueEvent.cases)
    then have "key_serialize k 0 = key_serialize (event_key due j) 0"
      by (simp add: value_class_serialize_def with_subspace_def)
    with body have "t < due \<or> t = due \<and> i \<le> j" "due < u \<or> due = u \<and> j \<le> - 1"
      by (simp_all only: event_key_le)
    with k show "\<exists>due j. key_identity k = event_key due j \<and> (t < due \<or> t = due \<and> i \<le> j) \<and> due \<le> u"
      by auto
  next
    assume "\<exists>due j. key_identity k = event_key due j \<and> (t < due \<or> t = due \<and> i \<le> j) \<and> due \<le> u"
    then obtain due j where k: "key_identity k = key_identity (event_key due j)"
      and le: "t < due \<or> t = due \<and> i \<le> j" "due \<le> u" by auto
    have "key_serialize k 0 = key_serialize (event_key due j) 0" "key_subspace k = SUBSPACE_QUEUE_EVENT"
      using k key_subspace_identity [of k] same_subspace_eq_iff [OF assms, of "event_key due j"]
      by (simp_all del: key_serialize.simps)
    with le max show "key_serialize (event_key t i) WITH_SUBSPACE \<le> key_serialize k WITH_SUBSPACE \<and>
      key_serialize k WITH_SUBSPACE \<le> key_serialize (event_key u (- 1)) WITH_SUBSPACE"
      unfolding key_serialize_subspace by (auto simp: event_key_le simp del: key_serialize.simps)
  qed
qed

text \<open>
  C16: A scan of the store reads exactly what it is meant to.  Among all well-formed keys of the
  store, the keys between two change-log keys of an account's collection are that collection's log entries
  with a change id in the range, and the keys from a queue event to the end of a due time are the
  queue events due in between, so a scan meets them by due time and then by queue id.
\<close>

theorem store_ranges_exact:
  assumes "wf_key k"
  shows "(key_serialize (LogKey a c lo) WITH_SUBSPACE \<le> key_serialize k WITH_SUBSPACE \<and>
      key_serialize k WITH_SUBSPACE \<le> key_serialize (LogKey a c hi) WITH_SUBSPACE \<longleftrightarrow>
      (\<exists>i. k = LogKey a c i \<and> lo \<le> i \<and> i \<le> hi)) \<and>
    (key_serialize (event_key t i) WITH_SUBSPACE \<le> key_serialize k WITH_SUBSPACE \<and>
      key_serialize k WITH_SUBSPACE \<le> key_serialize (event_key u (- 1)) WITH_SUBSPACE \<longleftrightarrow>
      (\<exists>due j. key_identity k = event_key due j \<and> (t < due \<or> t = due \<and> i \<le> j) \<and> due \<le> u))"
  using log_range_iff [OF assms] event_range_iff [OF assms] by blast

theorem store_ranges_exact_witness:
  "key_serialize (LogKey 5 1 10) WITH_SUBSPACE \<le> key_serialize (LogKey 5 1 12) WITH_SUBSPACE \<and>
   \<not> key_serialize (LogKey 5 2 12) WITH_SUBSPACE \<le> key_serialize (LogKey 5 1 (- 1)) WITH_SUBSPACE \<and>
   \<not> key_serialize (event_key 301 0) WITH_SUBSPACE \<le> key_serialize (event_key 300 (- 1)) WITH_SUBSPACE"
  using store_ranges_exact [of "LogKey 5 1 12" 5 1 10 20] store_ranges_exact [of "LogKey 5 2 12" 5 1 0 "- 1"]
    store_ranges_exact [of "event_key 301 0" 0 0 0 0 0 0 300]
  by (simp add: key_serialize_subspace log_key_le event_key_le del: key_serialize.simps)

section \<open>Reading a report's key\<close>

lemma be_slice_middle:
  assumes "length p = unat index" and "length p + n + length r < 2 ^ 64" and "length x = n"
  shows "be_slice n (p @ x @ r) index = Inr x"
proof -
  have "unat (index + of_nat n) = length p + n"
    using assms by (simp add: unat_word_ariths unsigned_of_nat take_bit_nat_eq_self)
  with assms show ?thesis by (simp add: be_slice_def Let_def)
qed

lemma be_slice_u64:
  assumes "length p = unat index" and "length p + 8 + length r < 2 ^ 64"
  shows "deserialize_be_u64 (p @ be64 x @ r) index = Inr x"
  using be_slice_middle [of p index 8 r "be64 x"] assms
  by (simp add: deserialize_be_u64_def from_be_to_be_bytes)

lemma report_event_roundtrip:
  assumes "is_utf8 (re_domain e)" and "length (re_domain e) < 2 ^ 63"
  shows "report_event_deserialize (queue_key (DmarcReportHeader e)) = Inr e"
    and "report_event_deserialize (queue_key (TlsReportHeader e)) = Inr e"
proof -
  have "report_event_deserialize (0 # report_key e @ [b]) = Inr e" for b
  proof -
    obtain due ph sq dom where e: "e = \<lparr>re_due = due, re_policy_hash = ph, re_seq_id = sq, re_domain = dom\<rparr>"
      by (cases e)
    define key where "key = 0 # report_key e @ [b]"
    have len: "length key = length dom + 26" by (simp add: key_def report_key_def e)
    from assms have small: "length dom < 2 ^ 63" by (simp add: e)
    have idx: "unat (of_nat (length key) - 17 :: usize) = length dom + 9"
      "unat (of_nat (length key) - 9 :: usize) = length dom + 17"
      using small unsigned_of_nat [of "length dom + 9", where ?'b = 64 and ?'a = nat]
        unsigned_of_nat [of "length dom + 17", where ?'b = 64 and ?'a = nat]
      by (simp_all add: len take_bit_nat_eq_self add.commute [of "9 :: usize"] add.commute [of "17 :: usize"])
    have "deserialize_be_u64 key 1 = Inr due"
      using be_slice_u64 [of "[0]" 1 "dom @ be64 ph @ be64 sq @ [b]" due] small
      by (simp add: key_def report_key_def e)
    moreover have "deserialize_be_u64 key (of_nat (length key) - 17) = Inr ph"
      using be_slice_u64 [of "0 # be64 due @ dom" "of_nat (length key) - 17" "be64 sq @ [b]" ph] small idx
      by (simp add: key_def report_key_def e)
    moreover have "deserialize_be_u64 key (of_nat (length key) - 9) = Inr sq"
      using be_slice_u64 [of "0 # be64 due @ dom @ be64 ph" "of_nat (length key) - 9" "[b]" sq] small idx
      by (simp add: key_def report_key_def e)
    moreover have "take (length dom) (drop 9 key) = dom"
      by (simp add: key_def report_key_def e)
    ultimately show ?thesis
      using assms(1) idx len unfolding report_event_deserialize_def key_def [symmetric]
      by (simp add: e)
  qed
  then show "report_event_deserialize (queue_key (DmarcReportHeader e)) = Inr e"
    "report_event_deserialize (queue_key (TlsReportHeader e)) = Inr e" by simp_all
qed

end
