(* ===== verification/ChangeLog.thy ===== *)
theory ChangeLog
  imports StoreKeys VecMap
begin

text \<open>
  The change log: collecting and serializing the changes of a transaction
  (\<open>crates/store/src/write/log.rs\<close>) and reading the changes since a state back
  (\<open>crates/store/src/query/log.rs\<close>).

  A hash set of ids is a set; the order in which it is iterated is the parameter \<open>ord\<close>, of which
  the code relies on \<open>hash_order\<close>: every element is visited once.  The scan of the store is a
  parameter too; \<open>scans_log\<close> says what it returns for a range of log keys.

  The lemmas show that the list of changes a client is given for a period says, for every id,
  exactly what happened to it: whether it is new, gone, updated, or only has updated children.
\<close>

section \<open>Collecting changes\<close>

record Changes =
  inserts :: "u64 set"
  updates :: "u64 set"
  deletes :: "u64 set"
  child_updates :: "u64 set"

definition changes_default :: Changes where
  "changes_default = \<lparr>inserts = {}, updates = {}, deletes = {}, child_updates = {}\<rparr>"

record ChangeLogBuilder =
  clb_change_id :: u64
  clb_changes :: "(u8, Changes) vec_map"

definition clb_new :: ChangeLogBuilder where
  "clb_new = \<lparr>clb_change_id = - 1, clb_changes = vm_new\<rparr>"

definition with_change_id :: "u64 \<Rightarrow> ChangeLogBuilder" where
  "with_change_id change_id = \<lparr>clb_change_id = change_id, clb_changes = vm_new\<rparr>"

text \<open>\<open>changes.get_mut_or_insert(collection)\<close> and the update made through the reference.\<close>

definition edit_changes :: "u8 \<Rightarrow> (Changes \<Rightarrow> Changes) \<Rightarrow> ChangeLogBuilder \<Rightarrow> ChangeLogBuilder" where
  "edit_changes collection f b =
     b\<lparr>clb_changes := vm_get_mut_or_insert_with (clb_changes b) collection changes_default f\<rparr>"

definition log_insert :: "u8 \<Rightarrow> u64 \<Rightarrow> ChangeLogBuilder \<Rightarrow> ChangeLogBuilder" where
  "log_insert collection jmap_id = edit_changes collection (\<lambda>c. c\<lparr>inserts := insert jmap_id (inserts c)\<rparr>)"

definition log_update :: "u8 \<Rightarrow> u64 \<Rightarrow> ChangeLogBuilder \<Rightarrow> ChangeLogBuilder" where
  "log_update collection jmap_id = edit_changes collection (\<lambda>c. c\<lparr>updates := insert jmap_id (updates c)\<rparr>)"

definition log_child_update :: "u8 \<Rightarrow> u64 \<Rightarrow> ChangeLogBuilder \<Rightarrow> ChangeLogBuilder" where
  "log_child_update collection jmap_id =
     edit_changes collection (\<lambda>c. c\<lparr>child_updates := insert jmap_id (child_updates c)\<rparr>)"

definition log_delete :: "u8 \<Rightarrow> u64 \<Rightarrow> ChangeLogBuilder \<Rightarrow> ChangeLogBuilder" where
  "log_delete collection jmap_id = edit_changes collection (\<lambda>c. c\<lparr>deletes := insert jmap_id (deletes c)\<rparr>)"

definition log_move :: "u8 \<Rightarrow> u64 \<Rightarrow> u64 \<Rightarrow> ChangeLogBuilder \<Rightarrow> ChangeLogBuilder" where
  "log_move collection old_jmap_id new_jmap_id =
     edit_changes collection
       (\<lambda>c. c\<lparr>deletes := insert old_jmap_id (deletes c), inserts := insert new_jmap_id (inserts c)\<rparr>)"

text \<open>
  One id of \<open>other.deletes\<close> in \<open>merge\<close>.  The ids of a set are visited in some order; what is done
  for one does not touch the others, so the loop is a fold over any listing of the set.
\<close>

definition merge_delete :: "u64 \<Rightarrow> Changes \<Rightarrow> Changes" where
  "merge_delete i c =
     (let c = (if i \<in> inserts c then c\<lparr>inserts := inserts c - {i}\<rparr> else c\<lparr>deletes := insert i (deletes c)\<rparr>)
      in c\<lparr>updates := updates c - {i}, child_updates := child_updates c - {i}\<rparr>)"

definition merge_changes :: "(u64 set \<Rightarrow> u64 list) \<Rightarrow> Changes \<Rightarrow> Changes \<Rightarrow> Changes" where
  "merge_changes ord other this =
     (let c = fold merge_delete (ord (deletes other)) this
      in c\<lparr>inserts := inserts c \<union> inserts other, updates := updates c \<union> updates other,
           child_updates := child_updates c \<union> child_updates other\<rparr>)"

definition clb_merge :: "(u64 set \<Rightarrow> u64 list) \<Rightarrow> ChangeLogBuilder \<Rightarrow> ChangeLogBuilder \<Rightarrow> ChangeLogBuilder" where
  "clb_merge ord changes b =
     fold (\<lambda>(collection, other). edit_changes collection (merge_changes ord other)) (clb_changes changes) b"

definition clb_is_empty :: "ChangeLogBuilder \<Rightarrow> bool" where
  "clb_is_empty b = (clb_changes b = [])"

definition changes_insert :: "u64 list \<Rightarrow> Changes" where
  "changes_insert ids = changes_default\<lparr>inserts := set ids\<rparr>"

definition changes_update :: "u64 list \<Rightarrow> Changes" where
  "changes_update ids = changes_default\<lparr>updates := set ids\<rparr>"

definition changes_child_update :: "u64 list \<Rightarrow> Changes" where
  "changes_child_update ids = changes_default\<lparr>child_updates := set ids\<rparr>"

definition changes_delete :: "u64 list \<Rightarrow> Changes" where
  "changes_delete ids = changes_default\<lparr>deletes := set ids\<rparr>"

section \<open>Writing\<close>

definition push_ids :: "u64 list \<Rightarrow> bytes" where
  "push_ids ids = concat (map to_leb128_bytes ids)"

definition changes_serialize :: "(u64 set \<Rightarrow> u64 list) \<Rightarrow> Changes \<Rightarrow> bytes" where
  "changes_serialize ord c =
     to_leb128_bytes (of_nat (card (inserts c)) :: usize) @
     to_leb128_bytes (of_nat (card (updates c)) :: usize) @
     to_leb128_bytes (of_nat (card (child_updates c)) :: usize) @
     to_leb128_bytes (of_nat (card (deletes c)) :: usize) @
     push_ids (ord (inserts c)) @ push_ids (ord (updates c)) @ push_ids (ord (child_updates c)) @
     push_ids (ord (deletes c))"

datatype log_op = OpChangeId u64 | OpCollection u8 | OpLog bytes

definition clb_build :: "(u64 set \<Rightarrow> u64 list) \<Rightarrow> ChangeLogBuilder \<Rightarrow> log_op list" where
  "clb_build ord b =
     OpChangeId (clb_change_id b) #
     concat (map (\<lambda>(collection, c). [OpCollection collection, OpLog (changes_serialize ord c)]) (clb_changes b))"

datatype assign_error = NoDocumentIds

definition last_document_id :: "AssignedIds \<Rightarrow> assign_error + u32" where
  "last_document_id ids = (if document_ids ids = [] then Inl NoDocumentIds else Inr (last (document_ids ids)))"

definition log_insert_serialize :: "(u64 set \<Rightarrow> u64 list) \<Rightarrow> AssignedIds \<Rightarrow> assign_error + bytes" where
  "log_insert_serialize ord ids =
     map_sum id (\<lambda>i. changes_serialize ord (changes_insert [ucast i])) (last_document_id ids)"

section \<open>Reading\<close>

datatype Change = ChInsert u64 | ChUpdate u64 | ChChildUpdate u64 | ChDelete u64

fun change_id_of :: "Change \<Rightarrow> u64" where
  "change_id_of (ChInsert i) = i"
| "change_id_of (ChUpdate i) = i"
| "change_id_of (ChChildUpdate i) = i"
| "change_id_of (ChDelete i) = i"

definition add_insert :: "nat \<Rightarrow> u64 \<Rightarrow> Change list \<Rightarrow> Change list" where
  "add_insert pos i cs = cs @ [ChInsert i]"

definition add_update :: "usize \<Rightarrow> nat \<Rightarrow> u64 \<Rightarrow> Change list \<Rightarrow> Change list" where
  "add_update total_updates change_pos i cs =
     (let is_child_update = unat total_updates \<le> change_pos;
          item = (if is_child_update then ChChildUpdate i else ChUpdate i)
      in case position (\<lambda>ch. ch \<in> {ChInsert i, ChUpdate i, ChChildUpdate i}) cs of
           None \<Rightarrow> cs @ [item]
         | Some idx \<Rightarrow>
             (case cs ! idx of
                ChInsert _ \<Rightarrow> cs
              | ChUpdate _ \<Rightarrow> remove_at idx cs @ [ChUpdate i]
              | _ \<Rightarrow> remove_at idx cs @ [item]))"

definition add_delete :: "nat \<Rightarrow> u64 \<Rightarrow> Change list \<Rightarrow> Change list" where
  "add_delete pos i cs =
     (case position (\<lambda>ch. ch \<in> {ChInsert i, ChUpdate i, ChChildUpdate i}) cs of
        None \<Rightarrow> cs @ [ChDelete i]
      | Some idx \<Rightarrow>
          (case cs ! idx of
             ChInsert _ \<Rightarrow> remove_at idx cs
           | _ \<Rightarrow> remove_at idx cs @ [ChDelete i]))"

text \<open>One of the three loops: \<open>n\<close> ids are read, and \<open>f\<close> is the body for the id at a position.\<close>

fun read_each ::
  "(nat \<Rightarrow> u64 \<Rightarrow> Change list \<Rightarrow> Change list) \<Rightarrow> nat \<Rightarrow> nat \<Rightarrow> Change list \<Rightarrow> bytes \<Rightarrow> (Change list \<times> bytes) option" where
  "read_each f pos 0 cs it = Some (cs, it)"
| "read_each f pos (Suc n) cs it =
     (case next_leb128_u64 it of
        None \<Rightarrow> None
      | Some (i, it') \<Rightarrow> read_each f (pos + 1) n (f pos i cs) it')"

definition changes_deserialize :: "Change list \<Rightarrow> bytes \<Rightarrow> Change list option" where
  "changes_deserialize cs bs =
     (case next_leb128_usize bs of None \<Rightarrow> None | Some (total_inserts, it) \<Rightarrow>
      case next_leb128_usize it of None \<Rightarrow> None | Some (total_updates, it) \<Rightarrow>
      case next_leb128_usize it of None \<Rightarrow> None | Some (total_child_updates, it) \<Rightarrow>
      case next_leb128_usize it of None \<Rightarrow> None | Some (total_deletes, it) \<Rightarrow>
      case read_each add_insert 0 (unat total_inserts) cs it of None \<Rightarrow> None | Some (cs, it) \<Rightarrow>
      case (if 0 < total_updates \<or> 0 < total_child_updates
            then read_each (add_update total_updates) 0 (unat (total_updates + total_child_updates)) cs it
            else Some (cs, it)) of None \<Rightarrow> None | Some (cs, it) \<Rightarrow>
      map_option fst (read_each add_delete 0 (unat total_deletes) cs it))"

datatype Query =
    QueryAll
  | QuerySince u64
  | QuerySinceInclusive u64
  | QueryRangeInclusive u64 u64

record changelog =
  cl_changes :: "Change list"
  from_change_id :: u64
  to_change_id :: u64

fun query_range :: "Query \<Rightarrow> bool \<times> u64 \<times> u64" where
  "query_range QueryAll = (True, 0, - 1)"
| "query_range (QuerySince c) = (False, c, - 1)"
| "query_range (QuerySinceInclusive c) = (True, c, - 1)"
| "query_range (QueryRangeInclusive f t) = (True, f, t)"

definition read_entry :: "bool \<Rightarrow> u64 \<Rightarrow> bytes \<times> bytes \<Rightarrow> changelog \<Rightarrow> store_error + changelog" where
  "read_entry is_inclusive from = (\<lambda>(key, v) log.
     case deserialize_be_u64 key (of_nat (length key) - 8) of
       Inl e \<Rightarrow> Inl e
     | Inr change_id \<Rightarrow>
         (if is_inclusive \<or> change_id \<noteq> from then
            (let log = (if cl_changes log = [] then log\<lparr>from_change_id := change_id\<rparr> else log)
             in case changes_deserialize (cl_changes log) v of
                  None \<Rightarrow> Inl DataCorruption
                | Some cs \<Rightarrow> Inr (log\<lparr>to_change_id := change_id, cl_changes := cs\<rparr>))
          else Inr log))"

fun read_entries :: "bool \<Rightarrow> u64 \<Rightarrow> (bytes \<times> bytes) list \<Rightarrow> changelog \<Rightarrow> store_error + changelog" where
  "read_entries is_inclusive from [] log = Inr log"
| "read_entries is_inclusive from (kv # kvs) log =
     (case read_entry is_inclusive from kv log of
        Inl e \<Rightarrow> Inl e
      | Inr log' \<Rightarrow> read_entries is_inclusive from kvs log')"

type_synonym scan = "store_key \<Rightarrow> store_key \<Rightarrow> store_error + (bytes \<times> bytes) list"

definition store_changes :: "scan \<Rightarrow> u32 \<Rightarrow> u8 \<Rightarrow> Query \<Rightarrow> store_error + changelog" where
  "store_changes iterate account_id collection query =
     (let (is_inclusive, from, to) = query_range query in
      case iterate (LogKey account_id collection from) (LogKey account_id collection to) of
        Inl e \<Rightarrow> Inl e
      | Inr kvs \<Rightarrow>
          (case read_entries is_inclusive from kvs \<lparr>cl_changes = [], from_change_id = 0, to_change_id = 0\<rparr> of
             Inl e \<Rightarrow> Inl e
           | Inr log \<Rightarrow>
               Inr (if cl_changes log = []
                    then log\<lparr>from_change_id := from, to_change_id := (if to \<noteq> - 1 then to else from)\<rparr>
                    else log)))"

text \<open>The descending scan for the newest entry is the ascending one read from its end.\<close>

definition get_last_change_id :: "scan \<Rightarrow> u32 \<Rightarrow> u8 \<Rightarrow> store_error + u64 option" where
  "get_last_change_id iterate account_id collection =
     (case iterate (LogKey account_id collection 0) (LogKey account_id collection (- 1)) of
        Inl e \<Rightarrow> Inl e
      | Inr kvs \<Rightarrow>
          (case List.rev kvs of
             [] \<Rightarrow> Inr None
           | (key, v) # _ \<Rightarrow> map_sum id Some (deserialize_be_u64 key (of_nat (length key) - 8))))"

section \<open>What was written is read\<close>

definition hash_order :: "(u64 set \<Rightarrow> u64 list) \<Rightarrow> bool" where
  "hash_order ord \<longleftrightarrow> (\<forall>s. set (ord s) = s \<and> distinct (ord s))"

lemma hash_orderD:
  assumes "hash_order ord"
  shows "set (ord s) = s" and "distinct (ord s)" and "length (ord s) = card s"
  using assms distinct_card [of "ord s"] by (auto simp: hash_order_def)

fun run_each :: "(nat \<Rightarrow> u64 \<Rightarrow> Change list \<Rightarrow> Change list) \<Rightarrow> nat \<Rightarrow> u64 list \<Rightarrow> Change list \<Rightarrow> Change list" where
  "run_each f pos [] cs = cs"
| "run_each f pos (i # ids) cs = run_each f (pos + 1) ids (f pos i cs)"

lemma read_each_push_ids:
  "read_each f pos (length ids) cs (push_ids ids @ rest) = Some (run_each f pos ids cs, rest)"
  by (induction ids arbitrary: pos cs) (simp_all add: push_ids_def leb_u64.dec_enc)

definition apply_changes :: "(u64 set \<Rightarrow> u64 list) \<Rightarrow> Changes \<Rightarrow> Change list \<Rightarrow> Change list" where
  "apply_changes ord c cs =
     run_each add_delete 0 (ord (deletes c))
       (run_each (add_update (of_nat (card (updates c)))) 0 (ord (updates c) @ ord (child_updates c))
         (run_each add_insert 0 (ord (inserts c)) cs))"

text \<open>An id has 64 bits, so no set of ids comes near the bound that would wrap the sum of two counts.\<close>

definition small_changes :: "Changes \<Rightarrow> bool" where
  "small_changes c \<longleftrightarrow>
     card (inserts c) < 2 ^ 63 \<and> card (updates c) < 2 ^ 63 \<and> card (child_updates c) < 2 ^ 63 \<and> card (deletes c) < 2 ^ 63"

lemma unat_of_nat_small: "n < 2 ^ 64 \<Longrightarrow> unat (of_nat n :: u64) = n"
  by (simp add: unsigned_of_nat take_bit_nat_eq_self)

lemma changes_deserialize_serialize:
  assumes ord: "hash_order ord" and small: "small_changes c"
  shows "changes_deserialize cs (changes_serialize ord c) = Some (apply_changes ord c cs)"
proof -
  note len = hash_orderD(3) [OF ord, symmetric]
  have counts: "unat (of_nat (length (ord (inserts c))) :: usize) = length (ord (inserts c))"
    "unat (of_nat (length (ord (updates c))) :: usize) = length (ord (updates c))"
    "unat (of_nat (length (ord (child_updates c))) :: usize) = length (ord (child_updates c))"
    "unat (of_nat (length (ord (deletes c))) :: usize) = length (ord (deletes c))"
    "unat (of_nat (length (ord (updates c))) + of_nat (length (ord (child_updates c))) :: usize) =
     length (ord (updates c) @ ord (child_updates c))"
    using small unat_of_nat_small [of "card (updates c) + card (child_updates c)"]
    by (simp_all add: small_changes_def len [symmetric] unat_of_nat_small)
  let ?us = "ord (updates c) @ ord (child_updates c)"
  have both: "push_ids (ord (updates c)) @ push_ids (ord (child_updates c)) @ rest = push_ids ?us @ rest" for rest
    by (simp add: push_ids_def)
  have updates: "(if 0 < (of_nat (length (ord (updates c))) :: usize) \<or> 0 < (of_nat (length (ord (child_updates c))) :: usize)
      then Some (run_each f 0 ?us cs, rest) else Some (cs, push_ids ?us @ rest)) =
      Some (run_each f 0 ?us cs, rest)" for f cs rest
    using counts(2,3) by (auto simp: word_less_nat_alt push_ids_def)
  show ?thesis
    unfolding changes_deserialize_def changes_serialize_def apply_changes_def len
    using read_each_push_ids [of add_delete 0 "ord (deletes c)" _ "[]"]
    by (simp only: leb_usize.dec_enc counts read_each_push_ids both updates option.case prod.case
        option.map fst_conv append_Nil2)
qed

section \<open>The changes of one id\<close>

datatype event = EInsert | EUpdate | EChild | EDelete

fun event_of :: "Change \<Rightarrow> event" where
  "event_of (ChInsert i) = EInsert"
| "event_of (ChUpdate i) = EUpdate"
| "event_of (ChChildUpdate i) = EChild"
| "event_of (ChDelete i) = EDelete"

definition events_of :: "u64 \<Rightarrow> Change list \<Rightarrow> event list" where
  "events_of i cs = map event_of (filter (\<lambda>ch. change_id_of ch = i) cs)"

lemma events_of_simps [simp]:
  "events_of i [] = []"
  "events_of i (ch # cs) = (if change_id_of ch = i then event_of ch # events_of i cs else events_of i cs)"
  "events_of i (cs @ ds) = events_of i cs @ events_of i ds"
  by (simp_all add: events_of_def)

text \<open>The bodies of the three loops, seen from one id: an insert, an update, a deletion.\<close>

fun net :: "event list \<Rightarrow> event \<Rightarrow> event list" where
  "net p EInsert = p @ [EInsert]"
| "net p EDelete =
     (case dropWhile (\<lambda>e. e = EDelete) p of
        [] \<Rightarrow> p @ [EDelete]
      | EInsert # q \<Rightarrow> takeWhile (\<lambda>e. e = EDelete) p @ q
      | _ # q \<Rightarrow> takeWhile (\<lambda>e. e = EDelete) p @ q @ [EDelete])"
| "net p e =
     (case dropWhile (\<lambda>e. e = EDelete) p of
        [] \<Rightarrow> p @ [e]
      | EInsert # q \<Rightarrow> p
      | EUpdate # q \<Rightarrow> takeWhile (\<lambda>e. e = EDelete) p @ q @ [EUpdate]
      | _ # q \<Rightarrow> takeWhile (\<lambda>e. e = EDelete) p @ q @ [e])"

lemma open_change_cases:
  fixes cs :: "Change list" and i :: u64
  defines "hit \<equiv> position (\<lambda>ch. ch \<in> {ChInsert i, ChUpdate i, ChChildUpdate i}) cs"
  obtains (none) "hit = None" "dropWhile (\<lambda>e. e = EDelete) (events_of i cs) = []"
  | (found) idx ys y zs where "hit = Some idx" "cs = ys @ y # zs" "length ys = idx"
      "y \<in> {ChInsert i, ChUpdate i, ChChildUpdate i}" "\<forall>e \<in> set (events_of i ys). e = EDelete"
proof -
  have deletes: "\<forall>e \<in> set (events_of i ds). e = EDelete"
    if "\<forall>ch \<in> set ds. ch \<notin> {ChInsert i, ChUpdate i, ChChildUpdate i}" for ds
    using that
  proof (induction ds)
    case (Cons d ds)
    then show ?case by (cases d) auto
  qed simp
  show thesis
  proof (cases hit)
    case None
    then have "\<forall>ch \<in> set cs. ch \<notin> {ChInsert i, ChUpdate i, ChChildUpdate i}"
      unfolding hit_def position_eq_None_iff .
    from deletes [OF this] show thesis by (intro none None) simp
  next
    case (Some idx)
    from position_split [OF this [unfolded hit_def]] obtain ys y zs where
      "cs = ys @ y # zs" "length ys = idx" "y \<in> {ChInsert i, ChUpdate i, ChChildUpdate i}"
      "\<forall>z \<in> set ys. z \<notin> {ChInsert i, ChUpdate i, ChChildUpdate i}" by blast
    with Some deletes [of ys] show thesis by (intro found) auto
  qed
qed

lemma remove_at_middle: "length ys = idx \<Longrightarrow> remove_at idx (ys @ y # zs) = ys @ zs"
  by (simp add: remove_at_def)

lemma events_add_insert:
  "events_of j (add_insert pos i cs) = (if j = i then net (events_of i cs) EInsert else events_of j cs)"
  by (simp add: add_insert_def)

lemma events_add_update:
  "events_of j (add_update tu pos i cs) =
     (if j = i then net (events_of i cs) (if unat tu \<le> pos then EChild else EUpdate) else events_of j cs)"
proof (cases rule: open_change_cases [of i cs])
  case none
  show ?thesis by (cases "j = i") (simp_all add: add_update_def Let_def none(1) [simplified] none(2))
next
  case (found idx ys y zs)
  then have *: "dropWhile (\<lambda>e. e = EDelete) (events_of i ys @ q) = dropWhile (\<lambda>e. e = EDelete) q"
    "takeWhile (\<lambda>e. e = EDelete) (events_of i ys @ q) = events_of i ys @ takeWhile (\<lambda>e. e = EDelete) q" for q
    by (simp_all add: dropWhile_append2 takeWhile_append2)
  from found show ?thesis
    by (auto simp: add_update_def Let_def remove_at_middle * nth_append)
qed

lemma events_add_delete:
  "events_of j (add_delete pos i cs) = (if j = i then net (events_of i cs) EDelete else events_of j cs)"
proof (cases rule: open_change_cases [of i cs])
  case none
  show ?thesis by (cases "j = i") (simp_all add: add_delete_def Let_def none(1) [simplified] none(2))
next
  case (found idx ys y zs)
  then have *: "dropWhile (\<lambda>e. e = EDelete) (events_of i ys @ q) = dropWhile (\<lambda>e. e = EDelete) q"
    "takeWhile (\<lambda>e. e = EDelete) (events_of i ys @ q) = events_of i ys @ takeWhile (\<lambda>e. e = EDelete) q" for q
    by (simp_all add: dropWhile_append2 takeWhile_append2)
  from found show ?thesis
    by (auto simp: add_delete_def Let_def remove_at_middle * nth_append)
qed

section \<open>The changes of a period\<close>

definition entry_events :: "u64 \<Rightarrow> Changes \<Rightarrow> event list" where
  "entry_events i c =
     (if i \<in> inserts c then [EInsert] else []) @ (if i \<in> updates c then [EUpdate] else []) @
     (if i \<in> child_updates c then [EChild] else []) @ (if i \<in> deletes c then [EDelete] else [])"

definition history :: "u64 \<Rightarrow> Changes list \<Rightarrow> event list" where
  "history i log = concat (map (entry_events i) log)"

lemma run_each_append: "run_each f pos (xs @ ys) cs = run_each f (pos + length xs) ys (run_each f pos xs cs)"
  by (induction xs arbitrary: pos cs) simp_all

lemma events_run_each:
  assumes "\<And>q i ds. pos \<le> q \<Longrightarrow> q < pos + length ids \<Longrightarrow>
      events_of j (f q i ds) = (if j = i then net (events_of i ds) e else events_of j ds)"
    and "distinct ids"
  shows "events_of j (run_each f pos ids cs) = (if j \<in> set ids then net (events_of j cs) e else events_of j cs)"
  using assms
proof (induction ids arbitrary: pos cs)
  case (Cons i ids)
  have "events_of j (run_each f (pos + 1) ids ds) = (if j \<in> set ids then net (events_of j ds) e else events_of j ds)" for ds
    using Cons.prems by (intro Cons.IH) simp_all
  with Cons.prems(1) [of pos i cs] Cons.prems(2) show ?case by auto
qed simp

lemma events_apply_changes:
  assumes ord: "hash_order ord" and small: "small_changes c"
  shows "events_of j (apply_changes ord c cs) = foldl net (events_of j cs) (entry_events j c)"
proof -
  note [simp] = hash_orderD [OF ord]
  have tu: "unat (of_nat (card (updates c)) :: usize) = card (updates c)"
    using small by (simp add: small_changes_def unat_of_nat_small)
  have "events_of j (run_each add_insert 0 (ord (inserts c)) ds) =
      (if j \<in> inserts c then net (events_of j ds) EInsert else events_of j ds)" for ds
    by (subst events_run_each [where e = EInsert]) (auto simp: events_add_insert)
  moreover have "events_of j (run_each (add_update (of_nat (card (updates c)))) 0 (ord (updates c)) ds) =
      (if j \<in> updates c then net (events_of j ds) EUpdate else events_of j ds)" for ds
    by (subst events_run_each [where e = EUpdate]) (auto simp: events_add_update tu simp del: net.simps)
  moreover have "events_of j (run_each (add_update (of_nat (card (updates c)))) (card (updates c)) (ord (child_updates c)) ds) =
      (if j \<in> child_updates c then net (events_of j ds) EChild else events_of j ds)" for ds
    by (subst events_run_each [where e = EChild]) (auto simp: events_add_update tu simp del: net.simps)
  moreover have "events_of j (run_each add_delete 0 (ord (deletes c)) ds) =
      (if j \<in> deletes c then net (events_of j ds) EDelete else events_of j ds)" for ds
    by (subst events_run_each [where e = EDelete]) (auto simp: events_add_delete simp del: net.simps)
  ultimately show ?thesis
    by (simp add: apply_changes_def entry_events_def run_each_append del: net.simps)
qed

text \<open>
  A history in which only absent ids appear and only present ids are updated or go away, and what
  it amounts to for an id that was \<open>live\<close> at its start.
\<close>

fun legal :: "bool \<Rightarrow> event list \<Rightarrow> bool" where
  "legal live [] = True"
| "legal live (e # es) = (if e = EInsert then \<not> live \<and> legal True es else live \<and> legal (e \<noteq> EDelete) es)"

fun live_after :: "bool \<Rightarrow> event list \<Rightarrow> bool" where
  "live_after live [] = live"
| "live_after live (e # es) = live_after (if e = EInsert then True else if e = EDelete then False else live) es"

definition summary :: "bool \<Rightarrow> event list \<Rightarrow> event list" where
  "summary live es =
     (if live \<and> EDelete \<in> set es then [EDelete] else []) @
     (if live_after live es \<and> (\<not> live \<or> EDelete \<in> set es) then [EInsert] else []) @
     (if live \<and> EDelete \<notin> set es then
        (if EUpdate \<in> set es then [EUpdate] else if EChild \<in> set es then [EChild] else [])
      else [])"

lemma legal_append: "legal live (es @ fs) \<longleftrightarrow> legal live es \<and> legal (live_after live es) fs"
proof (induction es arbitrary: live)
  case (Cons e es)
  then show ?case by (cases e; cases live) simp_all
qed simp

lemma live_after_keeps: "live \<Longrightarrow> EDelete \<notin> set es \<Longrightarrow> live_after live es"
  by (induction es arbitrary: live) auto

lemma live_after_append: "live_after live (es @ fs) = live_after (live_after live es) fs"
  by (induction es arbitrary: live) simp_all

lemma net_summary: "legal live es \<Longrightarrow> foldl net [] es = summary live es"
proof (induction es rule: rev_induct)
  case Nil
  then show ?case by (simp add: summary_def)
next
  case (snoc e es)
  then have legal: "legal live es" "legal (live_after live es) [e]" by (simp_all add: legal_append)
  from snoc.IH [OF legal(1)] have IH: "foldl net [] (es @ [e]) = net (summary live es) e" by simp
  show ?case
    unfolding IH using legal(2) live_after_keeps [of live es]
    by (cases e; cases live; cases "live_after live es"; cases "EDelete \<in> set es")
      (simp_all add: summary_def live_after_append)
qed

section \<open>Reading a period\<close>

type_synonym stored_log = "(u64 \<times> Changes) list"

definition stored_entry :: "(u64 set \<Rightarrow> u64 list) \<Rightarrow> u32 \<Rightarrow> u8 \<Rightarrow> u64 \<times> Changes \<Rightarrow> bytes \<times> bytes" where
  "stored_entry ord a c = (\<lambda>(i, e). (key_serialize (LogKey a c i) 0, changes_serialize ord e))"

definition scans_log :: "scan \<Rightarrow> (u64 set \<Rightarrow> u64 list) \<Rightarrow> u32 \<Rightarrow> u8 \<Rightarrow> stored_log \<Rightarrow> bool" where
  "scans_log iterate ord a c log \<longleftrightarrow>
     (\<forall>lo hi. iterate (LogKey a c lo) (LogKey a c hi) =
        Inr (map (stored_entry ord a c) (filter (\<lambda>(i, e). lo \<le> i \<and> i \<le> hi) log)))"

definition in_period :: "Query \<Rightarrow> u64 \<Rightarrow> bool" where
  "in_period q i = (case query_range q of (incl, from, to) \<Rightarrow> from \<le> i \<and> i \<le> to \<and> (incl \<or> i \<noteq> from))"

definition period :: "Query \<Rightarrow> stored_log \<Rightarrow> Changes list" where
  "period q log = map snd (filter (\<lambda>(i, e). in_period q i) log)"

text \<open>
  A store that keeps its entries in a list behaves so, whatever else it keeps: the range of log
  keys holds the log entries of the collection and nothing else.
\<close>

definition list_scan :: "(store_key \<times> bytes) list \<Rightarrow> scan" where
  "list_scan db lo hi =
     Inr (map (\<lambda>(k, v). (key_serialize k 0, v))
       (filter (\<lambda>(k, v). key_serialize lo WITH_SUBSPACE \<le> key_serialize k WITH_SUBSPACE \<and>
          key_serialize k WITH_SUBSPACE \<le> key_serialize hi WITH_SUBSPACE) db))"

definition log_entries :: "u32 \<Rightarrow> u8 \<Rightarrow> (store_key \<times> bytes) list \<Rightarrow> (u64 \<times> bytes) list" where
  "log_entries a c db = List.map_filter (\<lambda>(k, v). case k of LogKey a' c' i \<Rightarrow> if a' = a \<and> c' = c then Some (i, v) else None | _ \<Rightarrow> None) db"

lemma list_scan_log:
  assumes "\<forall>(k, v) \<in> set db. wf_key k"
    and "log_entries a c db = map (\<lambda>(i, e). (i, changes_serialize ord e)) log"
  shows "scans_log (list_scan db) ord a c log"
proof -
  have range: "list_scan db (LogKey a c lo) (LogKey a c hi) =
      Inr (map (\<lambda>(i, v). (key_serialize (LogKey a c i) 0, v)) (filter (\<lambda>(i, v). lo \<le> i \<and> i \<le> hi) (log_entries a c db)))" for lo hi
    using assms(1)
  proof (induction db)
    case (Cons kv db)
    obtain k v where kv: "kv = (k, v)" by (cases kv)
    with Cons have "wf_key k" and IH: "list_scan db (LogKey a c lo) (LogKey a c hi) =
      Inr (map (\<lambda>(i, v). (key_serialize (LogKey a c i) 0, v)) (filter (\<lambda>(i, v). lo \<le> i \<and> i \<le> hi) (log_entries a c db)))"
      by simp_all
    from log_range_iff [OF this(1), of a c lo hi] IH show ?case
      by (cases k) (auto simp: list_scan_def log_entries_def map_filter_simps kv simp del: key_serialize.simps)
  qed (simp add: list_scan_def log_entries_def map_filter_simps)
  have "filter (\<lambda>(i, v). lo \<le> i \<and> i \<le> hi) (map (\<lambda>(i, e). (i, changes_serialize ord e)) log) =
    map (\<lambda>(i, e). (i, changes_serialize ord e)) (filter (\<lambda>(i, e). lo \<le> i \<and> i \<le> hi) log)" for lo hi
    by (induction log) auto
  then show ?thesis
    unfolding scans_log_def range assms(2) by (simp add: stored_entry_def case_prod_unfold comp_def)
qed

lemma read_stored_entry:
  "deserialize_be_u64 (key_serialize (LogKey a c i) 0) (of_nat (length (key_serialize (LogKey a c i) 0)) - 8) = Inr i"
  using be_slice_u64 [of "be32 a @ [c]" 5 "[]" i]
  by (simp add: log_key_serialize_def with_subspace_def)

lemma read_entries_stored:
  assumes "hash_order ord" and "\<forall>(i, e) \<in> set es. small_changes e"
  shows "\<exists>log'. read_entries incl from (map (stored_entry ord a c) es) log = Inr log' \<and>
    cl_changes log' = foldl (\<lambda>cs e. apply_changes ord e cs) (cl_changes log)
      (map snd (filter (\<lambda>(i, e). incl \<or> i \<noteq> from) es))"
  using assms(2)
proof (induction es arbitrary: log)
  case (Cons ie es)
  obtain i e where ie: "ie = (i, e)" by (cases ie)
  with Cons.prems have "small_changes e" by simp
  define log1 where "log1 = (if incl \<or> i \<noteq> from
      then (if cl_changes log = [] then log\<lparr>from_change_id := i\<rparr> else log)
        \<lparr>to_change_id := i, cl_changes := apply_changes ord e (cl_changes log)\<rparr>
      else log)"
  have step: "read_entry incl from (stored_entry ord a c (i, e)) log = Inr log1"
    using changes_deserialize_serialize [OF assms(1) \<open>small_changes e\<close>]
    by (auto simp: log1_def read_entry_def stored_entry_def read_stored_entry Let_def simp del: key_serialize.simps)
  have log1: "cl_changes log1 = (if incl \<or> i \<noteq> from then apply_changes ord e (cl_changes log) else cl_changes log)"
    by (simp add: log1_def)
  from Cons.prems have small: "\<forall>(i, e) \<in> set es. small_changes e" by simp
  have tail: "read_entries incl from (map (stored_entry ord a c) (ie # es)) log =
      read_entries incl from (map (stored_entry ord a c) es) log1"
    by (simp add: ie step)
  from Cons.IH [OF small, of log1] show ?case
    unfolding tail by (auto simp: ie log1)
qed simp

lemma events_foldl_apply:
  assumes "hash_order ord" and "\<forall>e \<in> set es. small_changes e"
  shows "events_of j (foldl (\<lambda>cs e. apply_changes ord e cs) cs es) = foldl net (events_of j cs) (history j es)"
  using assms(2)
  by (induction es arbitrary: cs) (simp_all add: history_def events_apply_changes [OF assms(1)])

text \<open>The changes a client is given, read as what it does to its set of ids.\<close>

lemma summary_live:
  "live_after live es \<longleftrightarrow> EInsert \<in> set (summary live es) \<or> live \<and> EDelete \<notin> set (summary live es)"
  if "legal live es"
proof (cases live)
  case True
  then show ?thesis using live_after_keeps [of live es] by (auto simp: summary_def)
next
  case False
  then show ?thesis by (simp add: summary_def)
qed

lemma event_in_events:
  "EInsert \<in> set (events_of i cs) \<longleftrightarrow> ChInsert i \<in> set cs"
  "EUpdate \<in> set (events_of i cs) \<longleftrightarrow> ChUpdate i \<in> set cs"
  "EChild \<in> set (events_of i cs) \<longleftrightarrow> ChChildUpdate i \<in> set cs"
  "EDelete \<in> set (events_of i cs) \<longleftrightarrow> ChDelete i \<in> set cs"
proof -
  have "(\<exists>ch \<in> set cs. change_id_of ch = i \<and> event_of ch = e) \<longleftrightarrow> e \<in> set (events_of i cs)" for e
    by (auto simp: events_of_def)
  moreover have "change_id_of ch = i \<and> event_of ch = EInsert \<longleftrightarrow> ch = ChInsert i"
    "change_id_of ch = i \<and> event_of ch = EUpdate \<longleftrightarrow> ch = ChUpdate i"
    "change_id_of ch = i \<and> event_of ch = EChild \<longleftrightarrow> ch = ChChildUpdate i"
    "change_id_of ch = i \<and> event_of ch = EDelete \<longleftrightarrow> ch = ChDelete i" for ch
    by (cases ch; auto)+
  ultimately show "EInsert \<in> set (events_of i cs) \<longleftrightarrow> ChInsert i \<in> set cs"
    "EUpdate \<in> set (events_of i cs) \<longleftrightarrow> ChUpdate i \<in> set cs"
    "EChild \<in> set (events_of i cs) \<longleftrightarrow> ChChildUpdate i \<in> set cs"
    "EDelete \<in> set (events_of i cs) \<longleftrightarrow> ChDelete i \<in> set cs" by metis+
qed

lemma store_changes_stored:
  assumes "hash_order ord" and "scans_log iterate ord a c log" and "\<forall>(i, e) \<in> set log. small_changes e"
  shows "\<exists>r. store_changes iterate a c q = Inr r \<and>
    cl_changes r = foldl (\<lambda>cs e. apply_changes ord e cs) [] (period q log)"
proof -
  obtain incl fr upto where q: "query_range q = (incl, fr, upto)" by (cases "query_range q")
  define es where "es = filter (\<lambda>(i, e). fr \<le> i \<and> i \<le> upto) log"
  have "\<forall>(i, e) \<in> set es. small_changes e" using assms(3) by (auto simp: es_def)
  from read_entries_stored [OF assms(1) this] obtain r
    where r: "read_entries incl fr (map (stored_entry ord a c) es)
        \<lparr>cl_changes = [], from_change_id = 0, to_change_id = 0\<rparr> = Inr r"
      "cl_changes r = foldl (\<lambda>cs e. apply_changes ord e cs) [] (map snd (filter (\<lambda>(i, e). incl \<or> i \<noteq> fr) es))"
    by fastforce
  have "map snd (filter (\<lambda>(i, e). incl \<or> i \<noteq> fr) es) = period q log"
    by (simp add: period_def in_period_def q es_def case_prod_unfold conj_ac)
  with r assms(2) show ?thesis
    by (auto simp: store_changes_def q scans_log_def simp flip: es_def)
qed

text \<open>
  C4: The changes reported for a period are exactly its net effect.  If the log is read back as
  it was written, its entries are not too large, only ids that do not exist are inserted and only
  ids that exist are updated or deleted, then for every id the report
  lists: an insertion, if it exists at the end and is new or was created again; a deletion, if it
  existed at the start and was deleted; an update, or an update of children only, if it existed
  throughout; each at most once and nothing else.  A client that drops the deleted ids and then
  adds the inserted ones has the ids that exist at the end.
\<close>

theorem store_changes_net_effect:
  assumes "hash_order ord" and "scans_log iterate ord a c log" and "\<forall>(i, e) \<in> set log. small_changes e"
    and "\<forall>i. legal (i \<in> ids) (history i (period q log))"
  shows "\<exists>r. store_changes iterate a c q = Inr r \<and>
    (\<forall>i. events_of i (cl_changes r) = summary (i \<in> ids) (history i (period q log))) \<and>
    {i. live_after (i \<in> ids) (history i (period q log))} =
      (ids - {i. ChDelete i \<in> set (cl_changes r)}) \<union> {i. ChInsert i \<in> set (cl_changes r)}"
proof -
  from store_changes_stored [OF assms(1-3)] obtain r where r: "store_changes iterate a c q = Inr r"
    "cl_changes r = foldl (\<lambda>cs e. apply_changes ord e cs) [] (period q log)" by blast
  have "\<forall>e \<in> set (period q log). small_changes e"
    using assms(3) by (auto simp: period_def)
  from events_foldl_apply [OF assms(1) this, where cs = "[]"] assms(4)
  have ev: "events_of i (cl_changes r) = summary (i \<in> ids) (history i (period q log))" for i
    by (simp add: r(2) net_summary)
  have "live_after (i \<in> ids) (history i (period q log)) \<longleftrightarrow>
      ChInsert i \<in> set (cl_changes r) \<or> i \<in> ids \<and> ChDelete i \<notin> set (cl_changes r)" for i
    using summary_live [of "i \<in> ids" "history i (period q log)"] assms(4)
    by (simp add: ev event_in_events flip: ev)
  with ev r(1) show ?thesis by blast
qed

text \<open>
  An account's log next to another key of the store: message 5 arrives, then it is deleted and
  message 7, which the client knows, is updated.
\<close>

definition sample_db :: "(store_key \<times> bytes) list" where
  "sample_db =
     [(LogKey 1 2 10, changes_serialize sorted_list_of_set (changes_insert [5])),
      (LogKey 1 2 11, changes_serialize sorted_list_of_set (changes_default\<lparr>updates := {7}, deletes := {5}\<rparr>)),
      (ValueKey 1 2 7 (VProperty 3), [1])]"

lemma sample_db_scans:
  "scans_log (list_scan sample_db) sorted_list_of_set 1 2
     [(10, changes_insert [5]), (11, changes_default\<lparr>updates := {7}, deletes := {5}\<rparr>)]"
  by (rule list_scan_log) (simp_all add: sample_db_def log_entries_def map_filter_simps)

theorem store_changes_net_effect_witness:
  "\<exists>r. store_changes (list_scan sample_db) 1 2 QueryAll = Inr r \<and>
     events_of 5 (cl_changes r) = [] \<and> events_of 7 (cl_changes r) = [EUpdate]"
proof -
  let ?log = "[(10, changes_insert [5]), (11, changes_default\<lparr>updates := {7}, deletes := {5}\<rparr>)] :: stored_log"
  have ord: "hash_order sorted_list_of_set" by (simp add: hash_order_def)
  have hist: "history i (period QueryAll ?log) =
      (if i = 5 then [EInsert, EDelete] else if i = 7 then [EUpdate] else [])" for i
    by (simp add: history_def period_def in_period_def entry_events_def changes_insert_def changes_default_def)
  have "\<forall>(i, e) \<in> set ?log. small_changes e"
    by (simp add: small_changes_def changes_insert_def changes_default_def)
  moreover have "\<forall>i. legal (i \<in> {7}) (history i (period QueryAll ?log))"
    unfolding hist by simp
  ultimately obtain r where r: "store_changes (list_scan sample_db) 1 2 QueryAll = Inr r"
    "\<forall>i. events_of i (cl_changes r) = summary (i \<in> {7}) (history i (period QueryAll ?log))"
    using store_changes_net_effect [OF ord sample_db_scans] by blast
  from r(2) have "events_of 5 (cl_changes r) = []" "events_of 7 (cl_changes r) = [EUpdate]"
    unfolding hist by (simp_all add: summary_def)
  with r(1) show ?thesis by blast
qed

section \<open>Merging two logs\<close>

lemma fold_merge_delete:
  assumes "distinct ds"
  shows "inserts (fold merge_delete ds c) = inserts c - set ds"
    and "deletes (fold merge_delete ds c) = deletes c \<union> (set ds - inserts c)"
    and "updates (fold merge_delete ds c) = updates c - set ds"
    and "child_updates (fold merge_delete ds c) = child_updates c - set ds"
  using assms by (induction ds arbitrary: c) (auto simp: merge_delete_def Let_def)

lemma merge_changes_sets:
  assumes "hash_order ord"
  shows "inserts (merge_changes ord other this) = (inserts this - deletes other) \<union> inserts other"
    and "deletes (merge_changes ord other this) = deletes this \<union> (deletes other - inserts this)"
    and "updates (merge_changes ord other this) = (updates this - deletes other) \<union> updates other"
    and "child_updates (merge_changes ord other this) = (child_updates this - deletes other) \<union> child_updates other"
  using hash_orderD [OF assms] by (simp_all add: merge_changes_def Let_def fold_merge_delete)

text \<open>
  C17: Merging a second log into a first has the net effect of the two in sequence, after any
  earlier events, for an id on which the whole sequence is legal (only absent ids are inserted,
  only present ones updated or deleted) and which the second does not create again after the first
  deleted it, and does not both update and delete.
\<close>

theorem merge_changes_sequence:
  assumes "hash_order ord" and "legal live (es @ entry_events i this @ entry_events i other)"
    and "i \<notin> deletes this \<or> i \<notin> inserts other"
    and "i \<notin> deletes other \<or> i \<notin> updates other \<union> child_updates other"
  shows "foldl net [] (es @ entry_events i (merge_changes ord other this)) =
    foldl net [] (es @ entry_events i this @ entry_events i other)"
proof -
  have alive: "live_after live es \<or> EDelete \<in> set es \<or> \<not> live"
    using live_after_keeps [of live es] by blast
  have merged: "legal (live_after live es) (entry_events i (merge_changes ord other this)) \<and>
    summary live (es @ entry_events i (merge_changes ord other this)) =
    summary live (es @ entry_events i this @ entry_events i other)"
    using assms(2-4) alive
    by (cases "live_after live es"; cases "i \<in> inserts this"; cases "i \<in> updates this"; cases "i \<in> child_updates this";
        cases "i \<in> deletes this"; cases "i \<in> inserts other"; cases "i \<in> updates other";
        cases "i \<in> child_updates other"; cases "i \<in> deletes other";
        simp add: legal_append entry_events_def merge_changes_sets [OF assms(1)] summary_def live_after_append; blast)
  then have "legal live (es @ entry_events i (merge_changes ord other this))"
    using assms(2) by (simp add: legal_append)
  with merged assms(2) show ?thesis by (simp add: net_summary del: foldl_append)
qed

theorem merge_changes_sequence_witness:
  "foldl net [] (entry_events 5 (merge_changes sorted_list_of_set (changes_delete [5, 6]) (changes_insert [5]))) = [] \<and>
   foldl net [] (entry_events 6 (merge_changes sorted_list_of_set (changes_delete [5, 6]) (changes_insert [5]))) = [EDelete]"
proof -
  have ord: "hash_order sorted_list_of_set" by (simp add: hash_order_def)
  have ev: "entry_events 5 (changes_insert [5]) = [EInsert]" "entry_events 5 (changes_delete [5, 6]) = [EDelete]"
    "entry_events 6 (changes_insert [5]) = []" "entry_events 6 (changes_delete [5, 6]) = [EDelete]"
    by (simp_all add: entry_events_def changes_insert_def changes_delete_def changes_default_def)
  have "foldl net [] ([] @ entry_events 5 (merge_changes sorted_list_of_set (changes_delete [5, 6]) (changes_insert [5]))) =
      foldl net [] ([] @ entry_events 5 (changes_insert [5]) @ entry_events 5 (changes_delete [5, 6]))"
    using ord by (rule merge_changes_sequence [where live = False])
      (simp_all add: ev, simp_all add: changes_insert_def changes_delete_def changes_default_def)
  moreover have "foldl net [] ([] @ entry_events 6 (merge_changes sorted_list_of_set (changes_delete [5, 6]) (changes_insert [5]))) =
      foldl net [] ([] @ entry_events 6 (changes_insert [5]) @ entry_events 6 (changes_delete [5, 6]))"
    using ord by (rule merge_changes_sequence [where live = True])
      (simp_all add: ev, simp_all add: changes_insert_def changes_delete_def changes_default_def)
  ultimately show ?thesis by (simp add: ev)
qed

text \<open>
  Without the conditions the merged log differs: an id that the first log inserts and the second
  updates and deletes is left as an update of an id the client never had, and an id that is
  created again after its deletion is lost.
\<close>

lemma merge_leaves_update:
  "entry_events 5 (merge_changes (\<lambda>s. if s = {5} then [5] else []) (changes_default\<lparr>updates := {5}, deletes := {5}\<rparr>) (changes_insert [5])) =
   [EUpdate]"
  by (simp add: entry_events_def merge_changes_def merge_delete_def changes_insert_def changes_default_def)

lemma merge_loses_recreated:
  "foldl net [] (entry_events 5 (merge_changes (\<lambda>s. []) (changes_insert [5]) (changes_delete [5]))) = []"
  "foldl net [] (entry_events 5 (changes_delete [5]) @ entry_events 5 (changes_insert [5])) = [EDelete, EInsert]"
  by (simp_all add: entry_events_def merge_changes_def changes_insert_def changes_delete_def changes_default_def)

end
