(* ===== verification/Limiter.thy ===== *)
theory Limiter
  imports Prelude
begin

text \<open>
  The concurrency limiter of \<open>crates/common/src/listener/limiter.rs\<close>: a shared counter of the
  requests in flight and its limit.

  \<open>is_allowed\<close> reads the counter and then increments it, in two atomic operations.  The sequential
  functions below run the two together; \<open>limiter_step\<close> is the same code with every atomic operation
  a step of its own and the requests interleaved.  The code uses relaxed atomics; the steps idealise
  them to one order of all operations on the counter, in which a load sees the latest value.  The
  lemmas show that the counter always is the
  number of requests in flight, and by how much the limit can be passed.
\<close>

section \<open>One caller\<close>

text \<open>The counter behind the \<open>Arc\<close> is the second argument and result.\<close>

datatype LimiterResult = LimitAllowed | LimitForbidden | LimitDisabled

record ConcurrencyLimiter =
  max_concurrent :: u64
  concurrent :: u64

definition limiter_new :: "u64 \<Rightarrow> ConcurrencyLimiter" where
  "limiter_new n = \<lparr>max_concurrent = n, concurrent = 0\<rparr>"

definition check_is_allowed :: "ConcurrencyLimiter \<Rightarrow> bool" where
  "check_is_allowed l = (concurrent l < max_concurrent l)"

definition is_allowed :: "ConcurrencyLimiter \<Rightarrow> LimiterResult \<times> ConcurrencyLimiter" where
  "is_allowed l =
     (if concurrent l < max_concurrent l then (LimitAllowed, l\<lparr>concurrent := concurrent l + 1\<rparr>)
      else (LimitForbidden, l))"

definition in_flight_drop :: "ConcurrencyLimiter \<Rightarrow> ConcurrencyLimiter" where
  "in_flight_drop l = l\<lparr>concurrent := concurrent l - 1\<rparr>"

definition is_active :: "ConcurrencyLimiter \<Rightarrow> bool" where
  "is_active l = (0 < concurrent l)"

text \<open>\<open>From<LimiterResult> for Option<InFlight>\<close>: \<open>Disabled\<close> gives a guard of a counter of its own.\<close>

fun into_option :: "LimiterResult \<Rightarrow> bool" where
  "into_option LimitAllowed = True"
| "into_option LimitForbidden = False"
| "into_option LimitDisabled = True"

lemma allowed_then_drop: "is_allowed l = (LimitAllowed, l') \<Longrightarrow> in_flight_drop l' = l"
  by (auto simp: is_allowed_def in_flight_drop_def split: if_splits)

section \<open>Interleaved callers\<close>

text \<open>
  A request is not there yet, has passed the check and not yet incremented the counter, or is in
  flight.  A refused request leaves everything as it was.
\<close>

datatype phase = Outside | Checked | InFlight

record limiter_state =
  ls_limiter :: ConcurrencyLimiter
  ls_phase :: "nat \<Rightarrow> phase"

definition in_phase :: "phase \<Rightarrow> limiter_state \<Rightarrow> nat set" where
  "in_phase p s = {t. ls_phase s t = p}"

inductive limiter_step :: "limiter_state \<Rightarrow> limiter_state \<Rightarrow> bool" where
  load_below: "ls_phase s t = Outside \<Longrightarrow> concurrent (ls_limiter s) < max_concurrent (ls_limiter s) \<Longrightarrow>
    limiter_step s (s\<lparr>ls_phase := (ls_phase s)(t := Checked)\<rparr>)"
| load_full: "ls_phase s t = Outside \<Longrightarrow> \<not> concurrent (ls_limiter s) < max_concurrent (ls_limiter s) \<Longrightarrow>
    limiter_step s s"
| fetch_add: "ls_phase s t = Checked \<Longrightarrow>
    limiter_step s (s\<lparr>ls_limiter := (ls_limiter s)\<lparr>concurrent := concurrent (ls_limiter s) + 1\<rparr>,
      ls_phase := (ls_phase s)(t := InFlight)\<rparr>)"
| drop_guard: "ls_phase s t = InFlight \<Longrightarrow>
    limiter_step s (s\<lparr>ls_limiter := in_flight_drop (ls_limiter s), ls_phase := (ls_phase s)(t := Outside)\<rparr>)"

text \<open>
  The states of an execution in which at most \<open>k\<close> requests are between the check and the increment
  at a time.
\<close>

inductive limiter_reach :: "u64 \<Rightarrow> nat \<Rightarrow> limiter_state \<Rightarrow> bool" for limit k where
  start: "limiter_reach limit k \<lparr>ls_limiter = limiter_new limit, ls_phase = \<lambda>t. Outside\<rparr>"
| step: "limiter_reach limit k s \<Longrightarrow> limiter_step s s' \<Longrightarrow> card (in_phase Checked s') \<le> k \<Longrightarrow> limiter_reach limit k s'"

lemma in_phase_upd:
  "in_phase p (s\<lparr>ls_phase := (ls_phase s)(t := q)\<rparr>) =
     (if p = q then insert t (in_phase p s) else in_phase p s - {t})"
  "in_phase p (s\<lparr>ls_limiter := l, ls_phase := (ls_phase s)(t := q)\<rparr>) =
     (if p = q then insert t (in_phase p s) else in_phase p s - {t})"
  by (auto simp: in_phase_def)

definition limiter_inv :: "u64 \<Rightarrow> nat \<Rightarrow> limiter_state \<Rightarrow> bool" where
  "limiter_inv limit k s \<longleftrightarrow>
     max_concurrent (ls_limiter s) = limit \<and> finite (in_phase Checked s) \<and> finite (in_phase InFlight s) \<and>
     unat (concurrent (ls_limiter s)) = card (in_phase InFlight s) \<and>
     card (in_phase InFlight s) + card (in_phase Checked s) \<le> unat limit - 1 + k \<and>
     card (in_phase Checked s) \<le> k"

lemma in_phase_limiter [simp]: "in_phase p (s\<lparr>ls_limiter := l\<rparr>) = in_phase p s"
  by (simp add: in_phase_def)

lemma in_phase_mem: "t \<in> in_phase p s \<longleftrightarrow> ls_phase s t = p"
  by (simp add: in_phase_def)

lemma limiter_step_inv:
  assumes "limiter_step s s'" and inv: "limiter_inv limit k s" and k: "card (in_phase Checked s') \<le> k"
    and room: "unat limit + k < 2 ^ 64"
  shows "limiter_inv limit k s'"
  using assms(1)
proof cases
  case (load_below t)
  then have "unat (concurrent (ls_limiter s)) < unat limit"
    using inv by (simp add: limiter_inv_def word_less_nat_alt)
  with load_below inv k show ?thesis
    by (auto simp: limiter_inv_def in_phase_upd in_phase_mem)
next
  case (load_full t)
  with inv show ?thesis by simp
next
  case (fetch_add t)
  from inv fetch_add(2) have pos: "0 < card (in_phase Checked s)"
    by (auto simp: limiter_inv_def card_gt_0_iff in_phase_mem)
  with inv room have "Suc (unat (concurrent (ls_limiter s))) < 2 ^ 64"
    by (auto simp: limiter_inv_def)
  then have "unat (concurrent (ls_limiter s) + 1) = Suc (unat (concurrent (ls_limiter s)))"
    by (simp add: unat_word_ariths)
  with fetch_add inv pos show ?thesis
    by (auto simp: limiter_inv_def in_phase_upd in_phase_mem card_Diff_singleton)
next
  case (drop_guard t)
  from inv drop_guard(2) have "0 < card (in_phase InFlight s)"
    by (auto simp: limiter_inv_def card_gt_0_iff in_phase_mem)
  with inv have "unat (concurrent (ls_limiter s)) \<noteq> 0" by (auto simp: limiter_inv_def)
  then have "unat (concurrent (ls_limiter s) - 1) = unat (concurrent (ls_limiter s)) - 1"
    by (simp add: unat_sub_if_size)
  with drop_guard inv show ?thesis
    by (auto simp: limiter_inv_def in_flight_drop_def in_phase_upd in_phase_mem card_Diff_singleton)
qed

lemma limiter_reach_inv:
  assumes "limiter_reach limit k s" and "unat limit + k < 2 ^ 64"
  shows "limiter_inv limit k s"
  using assms
proof (induction rule: limiter_reach.induct)
  case start
  then show ?case by (simp add: limiter_inv_def limiter_new_def in_phase_def)
next
  case (step s s')
  then show ?case using limiter_step_inv by blast
qed

text \<open>
  C35: The limiter's counter never drifts: in every interleaving of checks, increments and drops it
  is the number of requests in flight, as long as the limit and the requests that may check at a
  time stay below the range of the counter.  With at most \<open>k\<close> requests between check and increment
  at a time and a positive limit, fewer than \<open>k\<close> requests beyond the limit are ever in flight, so the
  limit is kept when the two operations are never interleaved (\<open>k\<close> is 1); with the limit 0 the
  bound is \<open>k\<close>.
\<close>

theorem limiter_counts_requests:
  assumes "limiter_reach limit k s" and "unat limit + k < 2 ^ 64"
  shows "unat (concurrent (ls_limiter s)) = card (in_phase InFlight s) \<and>
    card (in_phase InFlight s) \<le> unat limit - 1 + k"
  using limiter_reach_inv [OF assms] by (simp add: limiter_inv_def)

text \<open>Two requests that both check before either increments are both let in past a limit of one.\<close>

definition two_checked :: "phase \<Rightarrow> phase \<Rightarrow> u64 \<Rightarrow> limiter_state" where
  "two_checked p q n = \<lparr>ls_limiter = \<lparr>max_concurrent = 1, concurrent = n\<rparr>, ls_phase = (\<lambda>t. if t = 0 then p else if t = 1 then q else Outside)\<rparr>"

lemma limiter_overshoots: "limiter_reach 1 2 (two_checked InFlight InFlight 2)"
proof -
  have s0: "limiter_reach 1 2 (two_checked Outside Outside 0)"
    using limiter_reach.start [of 1 2] by (simp add: two_checked_def limiter_new_def cong: if_cong)
  have few: "card (in_phase Checked (two_checked p q n)) \<le> 2" for p q n
  proof -
    have "in_phase Checked (two_checked p q n) \<subseteq> {0, 1}"
      by (auto simp: in_phase_def two_checked_def split: if_splits)
    from card_mono [OF _ this] show ?thesis by simp
  qed
  have moves: "(ls_phase (two_checked p q n))(0 := p') = ls_phase (two_checked p' q n)"
    "(ls_phase (two_checked p q n))(1 := q') = ls_phase (two_checked p q' n)" for p q p' q' n
    by (auto simp: two_checked_def)
  have load: "limiter_step (two_checked Outside q 0) (two_checked Checked q 0)"
    "limiter_step (two_checked p Outside 0) (two_checked p Checked 0)" for p q
    using load_below [of "two_checked Outside q 0" 0] load_below [of "two_checked p Outside 0" 1]
    unfolding moves by (simp_all add: two_checked_def)
  have add: "limiter_step (two_checked Checked q n) (two_checked InFlight q (n + 1))"
    "limiter_step (two_checked p Checked n) (two_checked p InFlight (n + 1))" for p q n
    using fetch_add [of "two_checked Checked q n" 0] fetch_add [of "two_checked p Checked n" 1]
    unfolding moves by (simp_all add: two_checked_def)
  note step = limiter_reach.step [OF _ _ few]
  from step [OF step [OF step [OF step [OF s0 load(1)] load(2)] add(1)] add(2)] show ?thesis by simp
qed

theorem limiter_counts_requests_witness:
  "card (in_phase InFlight (two_checked InFlight InFlight 2)) = 2"
  using limiter_counts_requests [OF limiter_overshoots] by (simp add: two_checked_def)

end
