(* ===== verification/Pop3Session.thy ===== *)
theory Pop3Session
  imports AccessToken Pop3Message Sasl ChangeLog Limiter
begin

text \<open>
  A POP3 connection (\<open>crates/pop3/src\<close>): the mailbox, the handlers of \<open>op/\<close>, the request loop of
  \<open>client.rs\<close> and the connection of \<open>session.rs\<close>.

  A handler is an action: it takes the session and returns its result or failure with the session
  it leaves.  A failure is an error that is reported to the client, or \<open>Panic\<close>, where a handler has
  \<open>unreachable!\<close> or \<open>unwrap\<close>; the one \<open>unwrap\<close> of the request parser never fails (\<open>push_param_target\<close>).  What the connection asks of the rest of the server, of the store and of
  the socket is the record \<open>pop3_env\<close> of functions over an opaque world \<open>'w\<close>, which each call may
  change.  \<open>sess_out\<close> is what has been sent, \<open>counters\<close> the shared counters of the limiters.
\<close>

section \<open>Errors\<close>

datatype trc_event =
    EvPop3Error
  | EvAuthError
  | EvAuthFailed
  | EvAuthTooManyAttempts
  | EvLimitConcurrentRequest
  | EvLimitTooManyRequests
  | EvSecurity
  | EvNetwork
  | EvStoreUnexpected
  | EvStoreCorruption
  | EvOther string

type_synonym trc_error = "trc_event \<times> bytes option"

datatype fail = Err trc_error | Panic

definition must_disconnect :: "trc_error \<Rightarrow> bool" where
  "must_disconnect e =
     (fst e \<in> {EvNetwork, EvAuthTooManyAttempts, EvLimitConcurrentRequest, EvLimitTooManyRequests, EvSecurity})"

definition should_write_err :: "trc_error \<Rightarrow> bool" where
  "should_write_err e = (fst e \<notin> {EvNetwork, EvSecurity})"

fun event_message :: "trc_event \<Rightarrow> string" where
  "event_message EvPop3Error = ''POP3 error''"
| "event_message EvAuthError = ''Authentication error''"
| "event_message EvAuthFailed = ''Authentication failed''"
| "event_message EvAuthTooManyAttempts = ''Too many authentication attempts''"
| "event_message EvLimitConcurrentRequest = ''Too many concurrent requests''"
| "event_message EvLimitTooManyRequests = ''Too many requests''"
| "event_message EvSecurity = ''Insufficient permissions''"
| "event_message EvNetwork = ''Network error''"
| "event_message EvStoreUnexpected = ''Unexpected error''"
| "event_message EvStoreCorruption = ''Data corruption''"
| "event_message (EvOther m) = m"

definition error_serialize :: "trc_error \<Rightarrow> bytes" where
  "error_serialize e =
     str ''-ERR '' @ (case snd e of Some d \<Rightarrow> d | None \<Rightarrow> str (event_message (fst e))) @ CRLF"

fun reason_text :: "reason \<Rightarrow> bytes" where
  "reason_text InvalidCommand = str ''Invalid command''"
| "reason_text TooManyArguments = str ''Too many arguments''"
| "reason_text MissingArguments = str ''Missing arguments''"
| "reason_text InvalidUtf8 = str ''Invalid UTF-8''"
| "reason_text NumberOutOfRange = str ''Numeric argument out of range''"
| "reason_text InvalidDigit = str ''Invalid digit''"
| "reason_text (UnsupportedMechanism v) = str ''Unsupported mechanism '' @ [39] @ from_utf8_lossy v @ [39, 46]"

section \<open>The session\<close>

record message =
  msg_id :: u32
  msg_uid :: u32
  msg_size :: u32
  msg_deleted :: bool

record mailbox =
  mb_messages :: "message list"
  mb_account_id :: u32
  mb_uid_validity :: u32
  mb_total :: u32
  mb_size :: u32

definition mailbox_default :: mailbox where
  "mailbox_default = \<lparr>mb_messages = [], mb_account_id = 0, mb_uid_validity = 0, mb_total = 0, mb_size = 0\<rparr>"

text \<open>A guard of the limiter is the reference to its counter.\<close>

datatype session_state =
    NotAuthenticated u32 "bytes option"
  | Authenticated mailbox "nat option" AccessToken

record 'w session =
  sess_state :: session_state
  sess_receiver :: parse_state
  sess_tls :: bool
  sess_out :: bytes
  counters :: "nat \<Rightarrow> u64"
  sess_world :: 'w

type_synonym ('w, 'a) action = "'w session \<Rightarrow> (fail + 'a) \<times> 'w session"
type_synonym ('w, 'a) query = "'w \<Rightarrow> (trc_error + 'a) \<times> 'w"

record 'w pop3_env =
  allow_plain_auth :: bool
  max_auth_failures :: u32
  rate_requests :: bool
  is_rate_allowed :: "u32 \<Rightarrow> ('w, bool) query"
  is_scanner_fail2banned :: "('w, bool) query"
  authenticate :: "credentials \<Rightarrow> ('w, AccessToken) query"
  imap_limiter :: "AccessToken \<Rightarrow> (u64 \<times> nat) option"
  base64_decode :: "bytes \<Rightarrow> bytes option"
  write_all :: "bytes \<Rightarrow> 'w \<Rightarrow> bool \<times> 'w"
  acceptor_is_tls :: bool
  tls_accept :: "'w \<Rightarrow> bool \<times> 'w"
  get_inbox_ids :: "u32 \<Rightarrow> ('w, u32 list option) query"
  mailbox_get_or_create :: "u32 \<Rightarrow> ('w, unit) query"
  get_inbox_cid :: "u32 \<Rightarrow> ('w, u64 option) query"
  iterate_keys :: "store_key \<Rightarrow> store_key \<Rightarrow> ('w, bytes list) query"
  get_uid_mailboxes :: "u32 \<Rightarrow> u32 list \<Rightarrow> ('w, (u32 \<times> (u32 \<times> u32) list) list) query"
  get_blob_hash :: "u32 \<Rightarrow> u32 \<Rightarrow> ('w, bytes option) query"
  get_blob :: "bytes \<Rightarrow> ('w, bytes option) query"
  emails_tombstone :: "u32 \<Rightarrow> u32 set \<Rightarrow> ('w, ChangeLogBuilder \<times> u32 set) query"
  commit_changes :: "u32 \<Rightarrow> ChangeLogBuilder \<Rightarrow> ('w, u64) query"
  broadcast_state_change :: "u32 \<Rightarrow> u64 \<Rightarrow> 'w \<Rightarrow> 'w"

section \<open>Actions\<close>

definition ret :: "'a \<Rightarrow> ('w, 'a) action" where
  "ret a s = (Inr a, s)"

definition throw :: "trc_error \<Rightarrow> ('w, 'a) action" where
  "throw e s = (Inl (Err e), s)"

definition panic :: "('w, 'a) action" where
  "panic s = (Inl Panic, s)"

definition act_bind :: "('w, 'a) action \<Rightarrow> ('a \<Rightarrow> ('w, 'b) action) \<Rightarrow> ('w, 'b) action" where
  "act_bind m f s = (case m s of (Inl e, s') \<Rightarrow> (Inl e, s') | (Inr a, s') \<Rightarrow> f a s')"

definition act_then :: "('w, 'a) action \<Rightarrow> ('w, 'b) action \<Rightarrow> ('w, 'b) action" where
  "act_then m n = act_bind m (\<lambda>_. n)"

definition ask :: "('w, 'a) query \<Rightarrow> ('w, 'a) action" where
  "ask q s = (case q (sess_world s) of (r, w) \<Rightarrow> (map_sum Err id r, s\<lparr>sess_world := w\<rparr>))"

definition lift :: "trc_error + 'a \<Rightarrow> ('w, 'a) action" where
  "lift r s = (map_sum Err id r, s)"

section \<open>Writing\<close>

definition write_bytes :: "'w pop3_env \<Rightarrow> bytes \<Rightarrow> ('w, unit) action" where
  "write_bytes env bytes s =
     (case write_all env bytes (sess_world s) of
        (True, w) \<Rightarrow> (Inr (), s\<lparr>sess_world := w, sess_out := sess_out s @ bytes\<rparr>)
      | (False, w) \<Rightarrow> (Inl (Err (EvNetwork, None)), s\<lparr>sess_world := w\<rparr>))"

definition write_ok :: "'w pop3_env \<Rightarrow> string \<Rightarrow> ('w, unit) action" where
  "write_ok env message = write_bytes env (response_serialize (ROk message))"

definition write_err :: "'w pop3_env \<Rightarrow> trc_error \<Rightarrow> 'w session \<Rightarrow> bool \<times> 'w session" where
  "write_err env err s =
     (if should_write_err err then
        (case write_bytes env (error_serialize err) s of
           (Inl _, s') \<Rightarrow> (False, s')
         | (Inr _, s') \<Rightarrow> (\<not> must_disconnect err, s'))
      else (\<not> must_disconnect err, s))"

section \<open>The state\<close>

definition get_mailbox :: "('w, mailbox) action" where
  "get_mailbox s = (case sess_state s of Authenticated mb _ _ \<Rightarrow> ret mb s | _ \<Rightarrow> panic s)"

definition get_token :: "('w, AccessToken) action" where
  "get_token s = (case sess_state s of Authenticated _ _ token \<Rightarrow> ret token s | _ \<Rightarrow> panic s)"

definition put_mailbox :: "mailbox \<Rightarrow> ('w, unit) action" where
  "put_mailbox mb s =
     (case sess_state s of
        Authenticated _ in_flight token \<Rightarrow> ret () (s\<lparr>sess_state := Authenticated mb in_flight token\<rparr>)
      | _ \<Rightarrow> panic s)"

text \<open>Dropping a guard decrements its counter; a new state drops the one it replaces.\<close>

definition drop_guard_of :: "nat option \<Rightarrow> (nat \<Rightarrow> u64) \<Rightarrow> nat \<Rightarrow> u64" where
  "drop_guard_of in_flight cs = (case in_flight of Some r \<Rightarrow> cs(r := cs r - 1) | None \<Rightarrow> cs)"

fun drop_state :: "session_state \<Rightarrow> (nat \<Rightarrow> u64) \<Rightarrow> nat \<Rightarrow> u64" where
  "drop_state (NotAuthenticated _ _) cs = cs"
| "drop_state (Authenticated _ in_flight _) cs = drop_guard_of in_flight cs"

definition set_state :: "session_state \<Rightarrow> ('w, unit) action" where
  "set_state st s = ret () (s\<lparr>sess_state := st, counters := drop_state (sess_state s) (counters s)\<rparr>)"

definition is_imap_request_allowed :: "'w pop3_env \<Rightarrow> AccessToken \<Rightarrow> ('w, LimiterResult \<times> nat option) action" where
  "is_imap_request_allowed env token s =
     (case imap_limiter env token of
        None \<Rightarrow> ret (LimitDisabled, None) s
      | Some (limit, r) \<Rightarrow>
          (case is_allowed \<lparr>max_concurrent = limit, concurrent = counters s r\<rparr> of
             (LimitAllowed, l) \<Rightarrow> ret (LimitAllowed, Some r) (s\<lparr>counters := (counters s)(r := concurrent l)\<rparr>)
           | (result, l) \<Rightarrow> ret (result, None) s))"

definition Pop3Authenticate :: nat where "Pop3Authenticate = 151"
definition Pop3List :: nat where "Pop3List = 152"
definition Pop3Uidl :: nat where "Pop3Uidl = 153"
definition Pop3Stat :: nat where "Pop3Stat = 154"
definition Pop3Retr :: nat where "Pop3Retr = 155"
definition Pop3Dele :: nat where "Pop3Dele = 156"

text \<open>The name of the permission goes into the error's details, which are not sent for this event.\<close>

definition assert_token_permission :: "AccessToken \<Rightarrow> nat \<Rightarrow> trc_error + unit" where
  "assert_token_permission token permission =
     (if has_permission token permission then Inr () else Inl (EvSecurity, None))"

section \<open>Fetching the mailbox\<close>

definition INBOX_ID :: u32 where "INBOX_ID = 0"
definition EMAIL_COLLECTION :: u8 where "EMAIL_COLLECTION = 0"
definition SIZE_FIELD :: u8 where "SIZE_FIELD = 27"

text \<open>One key of the scan over the size index: the last eight bytes are the size and the document.\<close>

definition read_size :: "u32 list \<Rightarrow> bytes \<Rightarrow> (u32 \<Rightarrow> u32 option) \<Rightarrow> trc_error + (u32 \<Rightarrow> u32 option)" where
  "read_size message_ids key sizes =
     (case deserialize_be_u32 key (of_nat (length key) - 4) of
        Inl _ \<Rightarrow> Inl (EvStoreCorruption, None)
      | Inr document_id \<Rightarrow>
          (if document_id \<in> set message_ids then
             (case deserialize_be_u32 key (of_nat (length key) - 8) of
                Inl _ \<Rightarrow> Inl (EvStoreCorruption, None)
              | Inr sz \<Rightarrow> Inr (sizes(document_id := Some sz)))
           else Inr sizes))"

fun read_sizes :: "u32 list \<Rightarrow> bytes list \<Rightarrow> (u32 \<Rightarrow> u32 option) \<Rightarrow> trc_error + (u32 \<Rightarrow> u32 option)" where
  "read_sizes message_ids [] sizes = Inr sizes"
| "read_sizes message_ids (key # keys) sizes =
     (case read_size message_ids key sizes of Inl e \<Rightarrow> Inl e | Inr sizes' \<Rightarrow> read_sizes message_ids keys sizes')"

text \<open>\<open>BTreeMap::insert\<close> on the sorted list of the map's entries.\<close>

fun bt_insert :: "'k::linorder \<Rightarrow> 'v \<Rightarrow> ('k \<times> 'v) list \<Rightarrow> ('k \<times> 'v) list" where
  "bt_insert k v [] = [(k, v)]"
| "bt_insert k v ((k', v') # m) =
     (if k < k' then (k, v) # (k', v') # m else if k = k' then (k, v) # m else (k', v') # bt_insert k v m)"

definition add_uid :: "u32 \<times> (u32 \<times> u32) list \<Rightarrow> (u32 \<times> u32) list \<Rightarrow> (u32 \<times> u32) list" where
  "add_uid = (\<lambda>(message_id, uid_mailbox) message_map.
     case find (\<lambda>(mailbox_id, uid). mailbox_id = INBOX_ID) uid_mailbox of
       Some (_, uid) \<Rightarrow> bt_insert uid message_id message_map
     | None \<Rightarrow> message_map)"

definition add_message :: "(u32 \<Rightarrow> u32 option) \<Rightarrow> u32 \<times> u32 \<Rightarrow> mailbox \<Rightarrow> mailbox" where
  "add_message sizes = (\<lambda>(uid, i) mb.
     case sizes i of
       Some sz \<Rightarrow>
         mb\<lparr>mb_messages := mb_messages mb @ [\<lparr>msg_id = i, msg_uid = uid, msg_size = sz, msg_deleted = False\<rparr>],
            mb_total := mb_total mb + 1, mb_size := mb_size mb + sz\<rparr>
     | None \<Rightarrow> mb)"

definition fetch_mailbox :: "'w pop3_env \<Rightarrow> u32 \<Rightarrow> ('w, mailbox) action" where
  "fetch_mailbox env account_id =
     act_bind (ask (get_inbox_ids env account_id)) (\<lambda>found.
       (case found of
          None \<Rightarrow> ret mailbox_default
        | Some [] \<Rightarrow> ret mailbox_default
        | Some (i # is) \<Rightarrow>
            (let message_ids = i # is in
             act_then (ask (mailbox_get_or_create env account_id))
              (act_bind (ask (get_inbox_cid env account_id)) (\<lambda>cid.
                (case cid of
                   None \<Rightarrow> throw (EvStoreUnexpected, Some (str ''Failed to obtain UID validity''))
                 | Some v \<Rightarrow>
                     act_bind (ask (iterate_keys env
                       (IndexKey account_id EMAIL_COLLECTION (Min (set message_ids)) SIZE_FIELD (be32 0))
                       (IndexKey account_id EMAIL_COLLECTION (Max (set message_ids)) SIZE_FIELD (be32 (- 1))))) (\<lambda>keys.
                     act_bind (lift (read_sizes message_ids keys (\<lambda>_. None))) (\<lambda>message_sizes.
                     act_bind (ask (get_uid_mailboxes env account_id message_ids)) (\<lambda>uids.
                       ret (fold (add_message message_sizes) (fold add_uid uids [])
                         \<lparr>mb_messages = [], mb_account_id = account_id, mb_uid_validity = ucast v,
                          mb_total = 0, mb_size = 0\<rparr>))))))))))"

section \<open>Authentication\<close>

text \<open>The failures of \<open>authenticate\<close> are counted; the error is replaced when there are too many.\<close>

definition count_failure :: "'w pop3_env \<Rightarrow> trc_error \<Rightarrow> ('w, 'a) action" where
  "count_failure env err s =
     (if fst err = EvAuthFailed then
        (case sess_state s of
           NotAuthenticated auth_failures username \<Rightarrow>
             (if auth_failures < max_auth_failures env then
                act_then (set_state (NotAuthenticated (auth_failures + 1) username)) (throw err) s
              else throw (EvAuthTooManyAttempts, None) s)
         | _ \<Rightarrow> throw (EvAuthTooManyAttempts, None) s)
      else throw err s)"

definition check_credentials :: "'w pop3_env \<Rightarrow> credentials \<Rightarrow> ('w, AccessToken) action" where
  "check_credentials env credentials s =
     (case authenticate env credentials (sess_world s) of
        (Inl err, w) \<Rightarrow> count_failure env err (s\<lparr>sess_world := w\<rparr>)
      | (Inr token, w) \<Rightarrow> ret token (s\<lparr>sess_world := w\<rparr>))"

text \<open>A failing \<open>fetch_mailbox\<close> returns early, and the guard goes out of scope.\<close>

definition fetch_guarded :: "'w pop3_env \<Rightarrow> nat option \<Rightarrow> u32 \<Rightarrow> ('w, mailbox) action" where
  "fetch_guarded env in_flight account_id s =
     (case fetch_mailbox env account_id s of
        (Inl e, s') \<Rightarrow> (Inl e, s'\<lparr>counters := drop_guard_of in_flight (counters s')\<rparr>)
      | (Inr mb, s') \<Rightarrow> (Inr mb, s'))"

definition handle_auth :: "'w pop3_env \<Rightarrow> credentials \<Rightarrow> ('w, unit) action" where
  "handle_auth env credentials =
     act_bind (check_credentials env credentials) (\<lambda>access_token.
     act_then (lift (assert_token_permission access_token Pop3Authenticate))
      (act_bind (is_imap_request_allowed env access_token) (\<lambda>(result, in_flight).
        (if result = LimitForbidden then throw (EvLimitConcurrentRequest, None)
         else
           act_bind (fetch_guarded env in_flight (primary_id access_token)) (\<lambda>mailbox.
           act_then (set_state (Authenticated mailbox in_flight access_token))
             (write_ok env ''Authentication successful''))))))"

definition decode_challenge :: "'w pop3_env \<Rightarrow> mechanism \<Rightarrow> bytes \<Rightarrow> credentials option" where
  "decode_challenge env mechanism param =
     Option.bind (base64_decode env param)
       (if mechanism = Plain then sasl_decode_challenge_plain else sasl_decode_challenge_oauth)"

definition handle_sasl :: "'w pop3_env \<Rightarrow> mechanism \<Rightarrow> bytes list \<Rightarrow> ('w, unit) action" where
  "handle_sasl env mechanism params =
     (if mechanism = Plain \<or> mechanism = OAuthBearer then
        (if params \<noteq> [] then
           (case decode_challenge env mechanism (last params) of
              Some credentials \<Rightarrow> handle_auth env credentials
            | None \<Rightarrow> throw (EvAuthError, Some (str ''Invalid SASL challenge'')))
         else
           (\<lambda>s. write_bytes env (str ''+'' @ CRLF)
             (s\<lparr>sess_receiver := PArgument (Auth (str (mechanism_as_str mechanism)) []) 1 True\<rparr>)))
      else throw (EvAuthError, Some (str ''Authentication mechanism not supported.'')))"

section \<open>Transactions\<close>

text \<open>\<open>msg.saturating_sub(1) as usize\<close>.\<close>

definition message_index :: "u32 \<Rightarrow> nat" where
  "message_index msg = unat (if msg = 0 then 0 else msg - 1)"

definition number :: "u32 \<Rightarrow> string" where
  "number n = nat_to_string (unat n)"

definition dele_one :: "u32 \<Rightarrow> message list \<times> bytes \<Rightarrow> message list \<times> bytes" where
  "dele_one msg = (\<lambda>(messages, response).
     let i = message_index msg in
     if i < length messages then
       (if \<not> msg_deleted (messages ! i) then
          (messages[i := (messages ! i)\<lparr>msg_deleted := True\<rparr>],
           response @ str ''+OK message '' @ str (number msg) @ str '' deleted'' @ CRLF)
        else (messages, response @ str ''-ERR message '' @ str (number msg) @ str '' already deleted'' @ CRLF))
     else (messages, response @ str ''-ERR no such message'' @ CRLF))"

definition handle_dele :: "'w pop3_env \<Rightarrow> u32 list \<Rightarrow> ('w, unit) action" where
  "handle_dele env msgs =
     act_bind get_token (\<lambda>token.
     act_then (lift (assert_token_permission token Pop3Dele))
      (act_bind get_mailbox (\<lambda>mb.
        (case fold dele_one msgs (mb_messages mb, []) of
           (messages, response) \<Rightarrow>
             act_then (put_mailbox (mb\<lparr>mb_messages := messages\<rparr>)) (write_bytes env response)))))"

definition handle_rset :: "'w pop3_env \<Rightarrow> ('w, unit) action" where
  "handle_rset env =
     act_bind get_mailbox (\<lambda>mb.
     act_then (put_mailbox (mb\<lparr>mb_messages := map (\<lambda>m. m\<lparr>msg_deleted := False\<rparr>) (mb_messages mb)\<rparr>))
       (write_ok env (nat_to_string (length (filter msg_deleted (mb_messages mb))) @ '' messages undeleted'')))"

definition marked_ids :: "mailbox \<Rightarrow> u32 set" where
  "marked_ids mb = set (map msg_id (filter msg_deleted (mb_messages mb)))"

definition publish_changes :: "'w pop3_env \<Rightarrow> u32 \<Rightarrow> ChangeLogBuilder \<Rightarrow> ('w, unit) action" where
  "publish_changes env account_id changes s =
     (if \<not> clb_is_empty changes then
        (case commit_changes env account_id changes (sess_world s) of
           (Inr change_id, w) \<Rightarrow> ret () (s\<lparr>sess_world := broadcast_state_change env account_id change_id w\<rparr>)
         | (Inl _, w) \<Rightarrow> ret () (s\<lparr>sess_world := w\<rparr>))
      else ret () s)"

definition handle_quit :: "'w pop3_env \<Rightarrow> ('w, unit) action" where
  "handle_quit env s =
     (case sess_state s of
        Authenticated mb _ _ \<Rightarrow>
          (if marked_ids mb \<noteq> {} then
             act_bind (ask (emails_tombstone env (mb_account_id mb) (marked_ids mb))) (\<lambda>(changes, not_deleted).
             act_then (publish_changes env (mb_account_id mb) changes)
               (if not_deleted = {} then
                  write_ok env (''Stalwart POP3 bids you farewell ('' @ nat_to_string (card (marked_ids mb)) @ '' messages deleted).'')
                else write_bytes env (response_serialize (RErr ''Some messages could not be deleted'')))) s
           else write_ok env ''Stalwart POP3 bids you farewell (no messages deleted).'' s)
      | NotAuthenticated _ _ \<Rightarrow> write_ok env ''Stalwart POP3 bids you farewell.'' s)"

definition no_such_message :: trc_error where
  "no_such_message = (EvPop3Error, Some (str ''No such message.''))"

definition fetch_failed :: trc_error where
  "fetch_failed = (EvPop3Error, Some (str ''Failed to fetch message. Perhaps another session deleted it?''))"

definition handle_fetch :: "'w pop3_env \<Rightarrow> u32 \<Rightarrow> u32 option \<Rightarrow> ('w, unit) action" where
  "handle_fetch env msg lines =
     act_bind get_token (\<lambda>token.
     act_then (lift (assert_token_permission token Pop3Retr))
      (act_bind get_mailbox (\<lambda>mb.
        (if message_index msg < length (mb_messages mb) then
           act_bind (ask (get_blob_hash env (mb_account_id mb) (msg_id (mb_messages mb ! message_index msg)))) (\<lambda>metadata.
             (case metadata of
                None \<Rightarrow> throw fetch_failed
              | Some blob_hash \<Rightarrow>
                  act_bind (ask (get_blob env blob_hash)) (\<lambda>found.
                    (case found of
                       None \<Rightarrow> throw fetch_failed
                     | Some bytes \<Rightarrow>
                         write_bytes env (response_serialize
                           (RMessage bytes (case lines of Some n \<Rightarrow> n | None \<Rightarrow> 0)))))))
         else throw no_such_message))))"

definition handle_list :: "'w pop3_env \<Rightarrow> u32 option \<Rightarrow> ('w, unit) action" where
  "handle_list env msg =
     act_bind get_token (\<lambda>token.
     act_then (lift (assert_token_permission token Pop3List))
      (act_bind get_mailbox (\<lambda>mb.
        (case msg of
           Some n \<Rightarrow>
             (if message_index n < length (mb_messages mb)
              then write_ok env (number n @ '' '' @ number (msg_size (mb_messages mb ! message_index n)))
              else throw no_such_message)
         | None \<Rightarrow>
             write_bytes env (response_serialize (RList (map (\<lambda>m. number (msg_size m)) (mb_messages mb))))))))"

definition handle_uidl :: "'w pop3_env \<Rightarrow> u32 option \<Rightarrow> ('w, unit) action" where
  "handle_uidl env msg =
     act_bind get_token (\<lambda>token.
     act_then (lift (assert_token_permission token Pop3Uidl))
      (act_bind get_mailbox (\<lambda>mb.
        (case msg of
           Some n \<Rightarrow>
             (if message_index n < length (mb_messages mb)
              then write_ok env (number n @ '' '' @ number (mb_uid_validity mb) @
                number (msg_uid (mb_messages mb ! message_index n)))
              else throw no_such_message)
         | None \<Rightarrow>
             write_bytes env (response_serialize
               (RList (map (\<lambda>m. number (mb_uid_validity mb) @ number (msg_uid m)) (mb_messages mb))))))))"

definition handle_stat :: "'w pop3_env \<Rightarrow> ('w, unit) action" where
  "handle_stat env =
     act_bind get_token (\<lambda>token.
     act_then (lift (assert_token_permission token Pop3Stat))
      (act_bind get_mailbox (\<lambda>mb. write_ok env (number (mb_total mb) @ '' '' @ number (mb_size mb)))))"

definition handle_capa :: "'w pop3_env \<Rightarrow> ('w, unit) action" where
  "handle_capa env s =
     write_bytes env (response_serialize
       (RCapability (if sess_tls s \<or> allow_plain_auth env then [Plain, OAuthBearer] else [OAuthBearer])
         (\<not> sess_tls s))) s"

definition handle_stls :: "'w pop3_env \<Rightarrow> ('w, unit) action" where
  "handle_stls env = write_ok env ''Begin TLS negotiation now''"

definition handle_utf8 :: "'w pop3_env \<Rightarrow> ('w, unit) action" where
  "handle_utf8 env = write_ok env ''UTF8 enabled''"

section \<open>Requests\<close>

datatype SessionResult = Continue | Close | UpgradeTls

text \<open>Consecutive deletions become one request.\<close>

definition push_request :: "request \<Rightarrow> (reason + request) list \<Rightarrow> (reason + request) list" where
  "push_request request requests =
     (case request of
        Dele msg \<Rightarrow>
          (if requests = [] then [Inr request]
           else case last requests of
                  Inr (DeleMany msgs) \<Rightarrow> butlast requests @ [Inr (DeleMany (msgs @ [msg]))]
                | Inr (Dele other_msg) \<Rightarrow> butlast requests @ [Inr (DeleMany [other_msg, msg])]
                | _ \<Rightarrow> requests @ [Inr request])
      | _ \<Rightarrow> requests @ [Inr request])"

fun is_authenticated :: "session_state \<Rightarrow> bool" where
  "is_authenticated (NotAuthenticated _ _) = False"
| "is_authenticated (Authenticated _ _ _) = True"

text \<open>The first loop of \<open>ingest\<close>; \<open>None\<close> is the early return that closes the connection of a scanner.\<close>

function collect ::
  "'w pop3_env \<Rightarrow> bytes \<Rightarrow> (reason + request) list \<Rightarrow> 'w session \<Rightarrow> (reason + request) list option \<times> 'w session" where
  "collect env bytes requests s =
     (case pop3_parse (sess_receiver s) bytes of
        (st, None) \<Rightarrow> (Some requests, s\<lparr>sess_receiver := st\<rparr>)
      | (st, Some (Inr request, rest)) \<Rightarrow>
          collect env rest (push_request request requests) (s\<lparr>sess_receiver := st\<rparr>)
      | (st, Some (Inl err, rest)) \<Rightarrow>
          (if \<not> is_authenticated (sess_state s) then
             (case is_scanner_fail2banned env (sess_world s) of
                (r, w) \<Rightarrow>
                  (if r = Inr True then (None, s\<lparr>sess_receiver := st, sess_world := w\<rparr>)
                   else collect env rest (requests @ [Inl err]) (s\<lparr>sess_receiver := st, sess_world := w\<rparr>)))
           else collect env rest (requests @ [Inl err]) (s\<lparr>sess_receiver := st\<rparr>)))"
  by pat_completeness auto
termination
  by (relation "measure (\<lambda>(env, bytes, requests, s). length bytes)") (auto dest: pop3_parse_shorter sym)

declare collect.simps [simp del]

definition pop3_error :: "string \<Rightarrow> trc_error" where
  "pop3_error details = (EvPop3Error, Some (str details))"

definition validate_plain :: "'w pop3_env \<Rightarrow> request \<Rightarrow> ('w, request) action" where
  "validate_plain env command s =
     (case sess_state s of
        NotAuthenticated _ username \<Rightarrow>
          (if sess_tls s \<or> allow_plain_auth env then
             (if (case command of Pass _ \<Rightarrow> False | _ \<Rightarrow> True) \<or> username \<noteq> None then ret command s
              else throw (pop3_error ''Username was not provided.'') s)
           else throw (pop3_error ''Cannot authenticate over plain-text.'') s)
      | Authenticated _ _ _ \<Rightarrow> throw (pop3_error ''Already authenticated.'') s)"

definition validate_transaction :: "'w pop3_env \<Rightarrow> request \<Rightarrow> ('w, request) action" where
  "validate_transaction env command s =
     (case sess_state s of
        Authenticated mb _ _ \<Rightarrow>
          (if rate_requests env then
             act_bind (ask (is_rate_allowed env (mb_account_id mb))) (\<lambda>allowed.
               (if allowed then ret command else throw (EvLimitTooManyRequests, None))) s
           else ret command s)
      | NotAuthenticated _ _ \<Rightarrow> throw (pop3_error ''Not authenticated.'') s)"

fun validate_request :: "'w pop3_env \<Rightarrow> request \<Rightarrow> ('w, request) action" where
  "validate_request env Capa = ret Capa"
| "validate_request env Quit = ret Quit"
| "validate_request env Noop = ret Noop"
| "validate_request env (User name) = validate_plain env (User name)"
| "validate_request env (Pass s) = validate_plain env (Pass s)"
| "validate_request env (Apop n d) = validate_plain env (Apop n d)"
| "validate_request env (Auth mechanism params) =
     (if mechanism = Plain then validate_plain env (Auth mechanism params)
      else (\<lambda>s. if \<not> is_authenticated (sess_state s) then ret (Auth mechanism params) s
                else throw (pop3_error ''Already authenticated.'') s))"
| "validate_request env Stls =
     (\<lambda>s. if \<not> sess_tls s then ret Stls s else throw (pop3_error ''Already in TLS mode.'') s)"
| "validate_request env command = validate_transaction env command"

definition continue_after :: "('w, unit) action \<Rightarrow> ('w, SessionResult) action" where
  "continue_after m = act_then m (ret Continue)"

definition handle_user :: "'w pop3_env \<Rightarrow> bytes \<Rightarrow> ('w, unit) action" where
  "handle_user env name s =
     (case sess_state s of
        NotAuthenticated auth_failures _ \<Rightarrow>
          write_ok env (unstr name @ '' is a valid mailbox'')
            (s\<lparr>sess_state := NotAuthenticated auth_failures (Some name)\<rparr>)
      | _ \<Rightarrow> panic s)"

definition handle_pass :: "'w pop3_env \<Rightarrow> bytes \<Rightarrow> ('w, unit) action" where
  "handle_pass env secret s =
     (case sess_state s of
        NotAuthenticated auth_failures (Some username) \<Rightarrow>
          handle_auth env (PlainCredentials username secret)
            (s\<lparr>sess_state := NotAuthenticated auth_failures None\<rparr>)
      | _ \<Rightarrow> panic s)"

fun dispatch :: "'w pop3_env \<Rightarrow> request \<Rightarrow> ('w, SessionResult) action" where
  "dispatch env (User name) = continue_after (handle_user env name)"
| "dispatch env (Pass secret) = continue_after (handle_pass env secret)"
| "dispatch env Quit = act_then (handle_quit env) (ret Close)"
| "dispatch env Stat = continue_after (handle_stat env)"
| "dispatch env (ListMsg msg) = continue_after (handle_list env msg)"
| "dispatch env (Retr msg) = continue_after (handle_fetch env msg None)"
| "dispatch env (Dele msg) = continue_after (handle_dele env [msg])"
| "dispatch env (DeleMany msgs) = continue_after (handle_dele env msgs)"
| "dispatch env (Top msg n) = continue_after (handle_fetch env msg (Some n))"
| "dispatch env (Uidl msg) = continue_after (handle_uidl env msg)"
| "dispatch env Noop = continue_after (write_ok env ''NOOP'')"
| "dispatch env Rset = continue_after (handle_rset env)"
| "dispatch env Capa = continue_after (handle_capa env)"
| "dispatch env Stls = act_then (handle_stls env) (ret UpgradeTls)"
| "dispatch env Utf8 = continue_after (handle_utf8 env)"
| "dispatch env (Auth mechanism params) = continue_after (handle_sasl env mechanism params)"
| "dispatch env (Apop _ _) = throw (pop3_error ''APOP not supported.'')"

definition run_request :: "'w pop3_env \<Rightarrow> reason + request \<Rightarrow> ('w, SessionResult) action" where
  "run_request env request =
     (case request of
        Inr command \<Rightarrow> act_bind (validate_request env command) (dispatch env)
      | Inl reason \<Rightarrow> throw (EvPop3Error, Some (reason_text reason)))"

text \<open>The second loop of \<open>ingest\<close>; \<open>None\<close> is a panic.\<close>

fun run_requests :: "'w pop3_env \<Rightarrow> (reason + request) list \<Rightarrow> 'w session \<Rightarrow> SessionResult option \<times> 'w session" where
  "run_requests env [] s = (Some Continue, s)"
| "run_requests env (request # requests) s =
     (case run_request env request s of
        (Inr Continue, s') \<Rightarrow> run_requests env requests s'
      | (Inr result, s') \<Rightarrow> (Some result, s')
      | (Inl (Err err), s') \<Rightarrow>
          (case write_err env err s' of
             (True, s'') \<Rightarrow> run_requests env requests s''
           | (False, s'') \<Rightarrow> (Some Close, s''))
      | (Inl Panic, s') \<Rightarrow> (None, s'))"

definition ingest :: "'w pop3_env \<Rightarrow> bytes \<Rightarrow> 'w session \<Rightarrow> SessionResult option \<times> 'w session" where
  "ingest env bytes s =
     (case collect env bytes [] s of
        (None, s') \<Rightarrow> (Some Close, s')
      | (Some requests, s') \<Rightarrow> run_requests env requests s')"

section \<open>The connection\<close>

datatype read_event = ReadBytes bytes | ReadError | ReadTimeout | ReadShutdown

datatype conn_end = ConnUpgrade | ConnClosed | ConnPanicked | ConnWaiting

text \<open>
  \<open>handle_conn\<close> over what its reads return, at most a buffer each; \<open>ConnWaiting\<close> is a connection
  that waits for the next read.
\<close>

fun handle_conn :: "'w pop3_env \<Rightarrow> read_event list \<Rightarrow> 'w session \<Rightarrow> conn_end \<times> read_event list \<times> 'w session" where
  "handle_conn env [] s = (ConnWaiting, [], s)"
| "handle_conn env (ReadBytes bytes # es) s =
     (if bytes \<noteq> [] then
        (case ingest env bytes s of
           (Some Continue, s') \<Rightarrow> handle_conn env es s'
         | (Some UpgradeTls, s') \<Rightarrow> (ConnUpgrade, es, s')
         | (Some Close, s') \<Rightarrow> (ConnClosed, es, s')
         | (None, s') \<Rightarrow> (ConnPanicked, es, s'))
      else (ConnClosed, es, s))"
| "handle_conn env (ReadError # es) s = (ConnClosed, es, s)"
| "handle_conn env (ReadTimeout # es) s =
     (ConnClosed, es, snd (write_bytes env (str ''-ERR Connection timed out.'' @ CRLF) s))"
| "handle_conn env (ReadShutdown # es) s =
     (ConnClosed, es, snd (write_bytes env (str ''* BYE Server shutting down.'' @ CRLF) s))"

definition into_tls :: "'w pop3_env \<Rightarrow> 'w session \<Rightarrow> bool \<times> 'w session" where
  "into_tls env s =
     (case tls_accept env (sess_world s) of (ok, w) \<Rightarrow> (ok, s\<lparr>sess_world := w, sess_tls := ok \<or> sess_tls s\<rparr>))"

definition new_session :: "bool \<Rightarrow> (nat \<Rightarrow> u64) \<Rightarrow> 'w \<Rightarrow> 'w session" where
  "new_session tls cs w =
     \<lparr>sess_state = NotAuthenticated 0 None, sess_receiver = PInit, sess_tls = tls, sess_out = [],
      counters = cs, sess_world = w\<rparr>"

definition drop_session :: "'w session \<Rightarrow> 'w session" where
  "drop_session s = s\<lparr>counters := drop_state (sess_state s) (counters s)\<rparr>"

definition SERVER_GREETING :: bytes where
  "SERVER_GREETING = str ''+OK Stalwart POP3 at your service.'' @ CRLF"

definition end_session :: "conn_end \<times> read_event list \<times> 'w session \<Rightarrow> conn_end \<times> 'w session" where
  "end_session r = (case r of (e, _, s) \<Rightarrow> if e = ConnWaiting then (e, s) else (e, drop_session s))"

definition handle :: "'w pop3_env \<Rightarrow> read_event list \<Rightarrow> 'w session \<Rightarrow> conn_end \<times> 'w session" where
  "handle env es s =
     (case write_bytes env SERVER_GREETING s of
        (Inl _, s1) \<Rightarrow> (ConnClosed, drop_session s1)
      | (Inr _, s1) \<Rightarrow>
          (case handle_conn env es s1 of
             (ConnUpgrade, es', s2) \<Rightarrow>
               (if acceptor_is_tls env then
                  (case into_tls env s2 of
                     (True, s3) \<Rightarrow> end_session (handle_conn env es' s3)
                   | (False, s3) \<Rightarrow> (ConnClosed, drop_session s3))
                else (ConnClosed, drop_session s2))
           | r \<Rightarrow> end_session r))"

end
