(* ===== verification/Pop3Safety.thy ===== *)
theory Pop3Safety
  imports Pop3Session
begin

text \<open>
  What holds of every POP3 connection: no request reaches a panic, and every slot taken from a
  limiter is given back.  Most handlers are \<open>quiet\<close>: they keep the state, the counters and the parser.
\<close>

section \<open>Actions that leave the state alone\<close>

text \<open>
  Most actions only write or ask the server.  They do not panic and keep the session's state and
  the counters.
\<close>

definition core :: "'w session \<Rightarrow> session_state \<times> (nat \<Rightarrow> u64) \<times> parse_state" where
  "core s = (sess_state s, counters s, sess_receiver s)"

definition quiet :: "('w, 'a) action \<Rightarrow> 'w session \<Rightarrow> bool" where
  "quiet m s \<longleftrightarrow> fst (m s) \<noteq> Inl Panic \<and> core (snd (m s)) = core s"

named_theorems quiet_intros \<open>actions that leave the state alone\<close>

lemma core_simps [simp]:
  "core (s\<lparr>sess_world := w\<rparr>) = core s" "core (s\<lparr>sess_out := b\<rparr>) = core s"
  "core (s\<lparr>sess_tls := t\<rparr>) = core s"
  by (simp_all add: core_def)

lemma quiet_ret [quiet_intros, simp]: "quiet (ret a) s"
  by (simp add: quiet_def ret_def)

lemma quiet_throw [quiet_intros, simp]: "quiet (throw e) s"
  by (simp add: quiet_def throw_def)

lemma quiet_ask [quiet_intros, simp]: "quiet (ask q) s"
  by (cases "q (sess_world s)"; cases "fst (q (sess_world s))") (auto simp: quiet_def ask_def)

lemma quiet_lift [quiet_intros, simp]: "quiet (lift r) s"
  by (cases r) (simp_all add: quiet_def lift_def)

lemma quiet_write_bytes [quiet_intros, simp]: "quiet (write_bytes env b) s"
  by (simp add: quiet_def write_bytes_def split: prod.splits bool.splits)

lemma quiet_write_ok [quiet_intros, simp]: "quiet (write_ok env m) s"
  by (simp add: write_ok_def)

lemma quiet_if [quiet_intros]: "(c \<Longrightarrow> quiet m s) \<Longrightarrow> (\<not> c \<Longrightarrow> quiet n s) \<Longrightarrow> quiet (if c then m else n) s"
  by simp

lemma quiet_bind [quiet_intros]:
  assumes "quiet m s" and "\<And>a s'. core s' = core s \<Longrightarrow> m s = (Inr a, s') \<Longrightarrow> quiet (f a) s'"
  shows "quiet (act_bind m f) s"
proof (cases "m s")
  case (Pair r s')
  with assms(1) have "core s' = core s" "r \<noteq> Inl Panic" by (simp_all add: quiet_def)
  with assms(2) [of s'] Pair show ?thesis
    by (cases r) (auto simp: quiet_def act_bind_def)
qed

lemma quiet_then [quiet_intros]:
  assumes "quiet m s" and "\<And>s'. core s' = core s \<Longrightarrow> quiet n s'"
  shows "quiet (act_then m n) s"
  unfolding act_then_def using assms by (intro quiet_bind) auto

lemma authenticated_core:
  assumes "core s' = core s"
  shows "sess_state s' = sess_state s" and "counters s' = counters s"
  using assms by (simp_all add: core_def)

lemma quiet_get:
  assumes "is_authenticated (sess_state s)"
  shows "quiet get_token s" and "quiet get_mailbox s"
  using assms by (cases "sess_state s"; simp add: get_token_def get_mailbox_def ret_def quiet_def)+

lemma quiet_transactions:
  assumes "is_authenticated (sess_state s)"
  shows "quiet (handle_fetch env msg lines) s" and "quiet (handle_list env m) s"
    and "quiet (handle_uidl env m) s" and "quiet (handle_stat env) s"
  using assms
  unfolding handle_fetch_def handle_list_def handle_uidl_def handle_stat_def
  by (intro quiet_intros quiet_get; auto dest: authenticated_core intro: quiet_get split: option.splits intro!: quiet_intros)+

lemma quiet_fetch_mailbox [simp]: "quiet (fetch_mailbox env a) s"
  unfolding fetch_mailbox_def by (auto simp: Let_def split: option.splits list.splits intro!: quiet_intros)

lemma quiet_cong: "m s = n s \<Longrightarrow> quiet n s \<Longrightarrow> quiet m s"
  by (simp add: quiet_def)

lemma quiet_handle_quit [simp]: "quiet (handle_quit env) s"
proof -
  have publish: "quiet (publish_changes env a c) s'" for a c s'
    by (simp add: quiet_def publish_changes_def ret_def split: prod.splits sum.splits)
  show ?thesis
  proof (cases "sess_state s")
    case (NotAuthenticated f u)
    then show ?thesis
      by (intro quiet_cong [OF _ quiet_write_ok]) (simp add: handle_quit_def)
  next
    case (Authenticated mb r t)
    show ?thesis
    proof (cases "marked_ids mb = {}")
      case True
      with Authenticated show ?thesis
        by (intro quiet_cong [OF _ quiet_write_ok]) (simp add: handle_quit_def)
    next
      case False
      with Authenticated show ?thesis
        by (intro quiet_cong [where m = "handle_quit env"], simp add: handle_quit_def)
           (auto intro!: quiet_intros publish)
    qed
  qed
qed

lemma quiet_small_handlers [simp]:
  "quiet (handle_capa env) s" "quiet (handle_stls env) s" "quiet (handle_utf8 env) s"
  unfolding handle_stls_def handle_utf8_def
  by (auto intro: quiet_cong [OF _ quiet_write_bytes] simp: handle_capa_def)

lemma quiet_validate [simp]: "quiet (validate_request env c) s"
proof -
  have plain: "quiet (validate_plain env c) s" for c
    by (simp add: quiet_def validate_plain_def ret_def throw_def split: session_state.splits)
  have transaction: "quiet (validate_transaction env c) s" for c
  proof (cases "sess_state s")
    case (Authenticated mb r t)
    show ?thesis
    proof (cases "rate_requests env")
      case True
      with Authenticated show ?thesis
        by (intro quiet_cong [where m = "validate_transaction env c"], simp add: validate_transaction_def)
           (auto intro!: quiet_intros)
    next
      case False
      with Authenticated show ?thesis
        by (intro quiet_cong [OF _ quiet_ret [of c]]) (simp add: validate_transaction_def)
    qed
  next
    case (NotAuthenticated f u)
    then show ?thesis
      by (intro quiet_cong [OF _ quiet_throw]) (simp add: validate_transaction_def)
  qed
  show ?thesis
    by (cases c) (auto simp: plain transaction quiet_def [where m = "\<lambda>s. if _ s then _ s else _ s"] ret_def throw_def)
qed

section \<open>Every slot is given back\<close>

text \<open>
  \<open>balanced\<close>: without the guard this session holds, the counters are those it started with.
\<close>

definition balanced :: "(nat \<Rightarrow> u64) \<Rightarrow> 'w session \<Rightarrow> bool" where
  "balanced cs s \<longleftrightarrow> drop_state (sess_state s) (counters s) = cs"

definition safe :: "(nat \<Rightarrow> u64) \<Rightarrow> (fail + 'a) \<times> 'w session \<Rightarrow> bool" where
  "safe cs r \<longleftrightarrow> fst r \<noteq> Inl Panic \<and> balanced cs (snd r)"

lemma quiet_safe: "quiet m s \<Longrightarrow> balanced cs s \<Longrightarrow> safe cs (m s)"
  by (simp add: quiet_def safe_def balanced_def core_def)

lemma safe_bind:
  assumes "safe cs (m s)" and "\<And>a s'. m s = (Inr a, s') \<Longrightarrow> balanced cs s' \<Longrightarrow> safe cs (f a s')"
  shows "safe cs (act_bind m f s)"
proof (cases "m s")
  case (Pair r s')
  with assms show ?thesis by (cases r) (auto simp: safe_def act_bind_def)
qed

lemma safe_then:
  assumes "safe cs (m s)" and "\<And>a s'. m s = (Inr a, s') \<Longrightarrow> balanced cs s' \<Longrightarrow> safe cs (n s')"
  shows "safe cs (act_then m n s)"
  unfolding act_then_def using assms by (intro safe_bind) auto

lemma drop_guard_commute:
  "drop_guard_of g (drop_guard_of h cs) = drop_guard_of h (drop_guard_of g cs)"
  "drop_guard_of g (drop_state st cs) = drop_state st (drop_guard_of g cs)"
proof -
  show comm: "drop_guard_of g (drop_guard_of h cs) = drop_guard_of h (drop_guard_of g cs)" for g h
    by (auto simp: drop_guard_of_def fun_eq_iff split: option.splits)
  show "drop_guard_of g (drop_state st cs) = drop_state st (drop_guard_of g cs)"
    by (cases st) (simp_all add: comm [of g])
qed

lemma balanced_simps [simp]:
  "balanced cs (s\<lparr>sess_world := w\<rparr>) = balanced cs s" "balanced cs (s\<lparr>sess_receiver := p\<rparr>) = balanced cs s"
  "balanced cs (s\<lparr>sess_out := b\<rparr>) = balanced cs s" "balanced cs (s\<lparr>sess_tls := t\<rparr>) = balanced cs s"
  by (simp_all add: balanced_def)

lemma safe_set_state: "balanced cs s \<Longrightarrow> \<not> is_authenticated st \<Longrightarrow> safe cs (set_state st s)"
  by (cases st) (simp_all add: safe_def set_state_def ret_def balanced_def)

lemma safe_count_failure:
  assumes "balanced cs s"
  shows "safe cs (count_failure env err s)"
proof -
  have "safe cs (act_then (set_state (NotAuthenticated n u)) (throw err) s)" for n u
    by (rule safe_then) (auto intro: safe_set_state assms quiet_safe)
  moreover have "safe cs (throw e s)" for e using assms by (auto intro: quiet_safe)
  ultimately show ?thesis
    by (cases err) (auto simp: count_failure_def split: session_state.splits)
qed

lemma safe_check_credentials: "balanced cs s \<Longrightarrow> safe cs (check_credentials env c s)"
  by (auto simp: check_credentials_def intro!: safe_count_failure quiet_safe
    split: prod.splits sum.splits)

text \<open>After a slot was taken, the session is balanced without it.\<close>

lemma request_allowed_guard:
  assumes "balanced cs s"
  shows "\<exists>res g s'. is_imap_request_allowed env token s = (Inr (res, g), s') \<and> sess_state s' = sess_state s \<and>
    drop_guard_of g (drop_state (sess_state s') (counters s')) = cs \<and> (res = LimitForbidden \<longrightarrow> g = None)"
proof (cases "imap_limiter env token")
  case None
  with assms show ?thesis
    by (simp add: is_imap_request_allowed_def ret_def balanced_def drop_guard_of_def)
next
  case (Some lr)
  obtain limit r where lr: "lr = (limit, r)" by (cases lr)
  show ?thesis
  proof (cases "counters s r < limit")
    case True
    have "drop_guard_of (Some r) ((counters s)(r := counters s r + 1)) = counters s"
      by (auto simp: drop_guard_of_def)
    with True Some lr assms show ?thesis
      by (simp add: is_imap_request_allowed_def is_allowed_def ret_def balanced_def drop_guard_commute(2))
  next
    case False
    with Some lr assms show ?thesis
      by (simp add: is_imap_request_allowed_def is_allowed_def ret_def balanced_def drop_guard_of_def)
  qed
qed

lemma safe_login:
  assumes "balanced cs s2"
  shows "safe cs (act_bind (is_imap_request_allowed env token) (\<lambda>(result, in_flight).
        if result = LimitForbidden then throw (EvLimitConcurrentRequest, None)
        else act_bind (fetch_guarded env in_flight (primary_id token)) (\<lambda>mailbox.
          act_then (set_state (Authenticated mailbox in_flight token)) (write_ok env ''Authentication successful''))) s2)"
proof -
  from request_allowed_guard [OF assms, of env token] obtain res g s3
    where r: "is_imap_request_allowed env token s2 = (Inr (res, g), s3)"
      and g: "drop_guard_of g (drop_state (sess_state s3) (counters s3)) = cs" "res = LimitForbidden \<longrightarrow> g = None"
    by blast
  show ?thesis
  proof (cases "res = LimitForbidden")
    case True
    with r g show ?thesis
      by (simp add: act_bind_def throw_def safe_def balanced_def drop_guard_of_def)
  next
    case False
    obtain v s4 where f: "fetch_mailbox env (primary_id token) s3 = (v, s4)" by (cases "fetch_mailbox env (primary_id token) s3")
    with quiet_fetch_mailbox [of env "primary_id token" s3] have "core s4 = core s3" "v \<noteq> Inl Panic"
      by (simp_all add: quiet_def)
    then have g4: "drop_guard_of g (drop_state (sess_state s4) (counters s4)) = cs"
      using g(1) by (simp add: core_def)
    show ?thesis
    proof (cases v)
      case (Inl e)
      with f r False g4 \<open>v \<noteq> Inl Panic\<close> show ?thesis
        by (simp add: act_bind_def fetch_guarded_def safe_def balanced_def drop_guard_commute(2))
    next
      case (Inr mb)
      have "balanced cs (s4\<lparr>sess_state := Authenticated mb g token, counters := drop_state (sess_state s4) (counters s4)\<rparr>)"
        using g4 by (simp add: balanced_def)
      from quiet_safe [OF quiet_write_ok this] Inr f r False show ?thesis
        by (simp add: act_bind_def act_then_def fetch_guarded_def set_state_def ret_def)
    qed
  qed
qed

lemma safe_handle_auth:
  assumes "balanced cs s"
  shows "safe cs (handle_auth env c s)"
  unfolding handle_auth_def
  by (intro safe_bind [where m = "check_credentials env c"] safe_check_credentials assms
      safe_then [where m = "lift _"] safe_login quiet_safe quiet_lift)

lemma safe_handle_sasl: "balanced cs s \<Longrightarrow> safe cs (handle_sasl env m ps s)"
  unfolding handle_sasl_def
  by (auto intro!: safe_handle_auth quiet_safe split: option.splits)

lemma put_mailbox_balanced:
  assumes "balanced cs s" and "is_authenticated (sess_state s)"
  shows "safe cs (put_mailbox mb s)"
  using assms by (cases "sess_state s") (simp_all add: put_mailbox_def safe_def ret_def balanced_def)

lemma safe_handle_dele:
  assumes "balanced cs s" and "is_authenticated (sess_state s)"
  shows "safe cs (handle_dele env msgs s)"
proof -
  obtain mb g t where st: "sess_state s = Authenticated mb g t"
    using assms(2) by (cases "sess_state s") auto
  have "balanced cs (s\<lparr>sess_state := Authenticated mb' g t\<rparr>)" for mb'
    using assms(1) st by (simp add: balanced_def)
  from quiet_safe [OF quiet_write_bytes this] assms(1) st show ?thesis
    by (auto simp: handle_dele_def act_bind_def act_then_def get_token_def get_mailbox_def put_mailbox_def ret_def
      lift_def assert_token_permission_def safe_def split: prod.splits)
qed

lemma safe_handle_rset:
  assumes "balanced cs s" and "is_authenticated (sess_state s)"
  shows "safe cs (handle_rset env s)"
proof -
  obtain mb g t where st: "sess_state s = Authenticated mb g t"
    using assms(2) by (cases "sess_state s") auto
  have "balanced cs (s\<lparr>sess_state := Authenticated mb' g t\<rparr>)" for mb'
    using assms(1) st by (simp add: balanced_def)
  from quiet_safe [OF quiet_write_ok this] st show ?thesis
    by (auto simp: handle_rset_def act_bind_def act_then_def get_mailbox_def put_mailbox_def ret_def)
qed

text \<open>What a request needs of the session; \<open>validate_request\<close> lets nothing else through.\<close>

fun ready :: "request \<Rightarrow> session_state \<Rightarrow> bool" where
  "ready (User name) st = (\<not> is_authenticated st)"
| "ready (Pass secret) st = (\<exists>n u. st = NotAuthenticated n (Some u))"
| "ready (Auth m ps) st = (\<not> is_authenticated st)"
| "ready Stat st = is_authenticated st"
| "ready (ListMsg m) st = is_authenticated st"
| "ready (Retr m) st = is_authenticated st"
| "ready (Dele m) st = is_authenticated st"
| "ready (DeleMany ms) st = is_authenticated st"
| "ready (Top m n) st = is_authenticated st"
| "ready (Uidl m) st = is_authenticated st"
| "ready Rset st = is_authenticated st"
| "ready c st = True"

lemma validate_plain_ready:
  "validate_plain env c s = (Inr c', s') \<Longrightarrow> c' = c \<and> s' = s \<and> \<not> is_authenticated (sess_state s) \<and>
   (\<forall>p. c = Pass p \<longrightarrow> (\<exists>n u. sess_state s = NotAuthenticated n (Some u)))"
  by (auto simp: validate_plain_def ret_def throw_def split: session_state.splits if_splits)

lemma validate_transaction_ready:
  "validate_transaction env c s = (Inr c', s') \<Longrightarrow> c' = c \<and> is_authenticated (sess_state s)"
  by (auto simp: validate_transaction_def act_bind_def ret_def throw_def
    split: session_state.splits if_splits prod.splits sum.splits)

lemma validate_request_ready:
  assumes "validate_request env c s = (Inr c', s')"
  shows "c' = c" and "ready c (sess_state s')"
proof -
  have core: "core s' = core s"
    using quiet_validate [of env c s] assms by (simp add: quiet_def)
  have "c' = c \<and> ready c (sess_state s)"
    using assms
    by (cases c) (auto dest!: validate_plain_ready validate_transaction_ready simp: ret_def throw_def split: if_splits)
  with core show "c' = c" "ready c (sess_state s')" by (simp_all add: core_def)
qed

lemma safe_continue: "safe cs (m s) \<Longrightarrow> safe cs (continue_after m s)"
  unfolding continue_after_def by (rule safe_then) (auto intro: quiet_safe)

lemma safe_handle_user: "balanced cs s \<Longrightarrow> \<not> is_authenticated (sess_state s) \<Longrightarrow> safe cs (handle_user env name s)"
  by (cases "sess_state s") (auto simp: handle_user_def balanced_def intro!: quiet_safe)

lemma safe_handle_pass:
  "balanced cs s \<Longrightarrow> sess_state s = NotAuthenticated n (Some u) \<Longrightarrow> safe cs (handle_pass env secret s)"
  by (auto simp: handle_pass_def balanced_def intro!: safe_handle_auth)

lemma safe_dispatch:
  assumes "ready c (sess_state s)" and "balanced cs s"
  shows "safe cs (dispatch env c s)"
  using assms
  by (cases c) (auto intro!: safe_continue safe_handle_user safe_handle_sasl safe_handle_dele safe_handle_rset
    quiet_safe [OF quiet_transactions(1)] quiet_safe [OF quiet_transactions(2)] quiet_safe [OF quiet_transactions(3)]
    quiet_safe [OF quiet_transactions(4)] quiet_safe [OF quiet_write_ok] quiet_safe [OF quiet_throw]
    quiet_safe [OF quiet_ret] quiet_safe [OF quiet_handle_quit] quiet_safe [OF quiet_small_handlers(1)]
    quiet_safe [OF quiet_small_handlers(2)] quiet_safe [OF quiet_small_handlers(3)]
    intro: safe_handle_pass safe_then)

lemma safe_run_request: "balanced cs s \<Longrightarrow> safe cs (run_request env r s)"
proof (cases r)
  case (Inr c)
  assume "balanced cs s"
  with Inr show ?thesis
    unfolding run_request_def
    by (auto intro!: safe_bind quiet_safe [OF quiet_validate] safe_dispatch dest: validate_request_ready)
qed (auto simp: run_request_def intro: quiet_safe)

lemma balanced_write_bytes [simp]: "balanced cs (snd (write_bytes env b s)) = balanced cs s"
  using quiet_write_bytes [of env b s] by (simp add: quiet_def balanced_def core_def)

lemma balanced_write_err: "balanced cs s \<Longrightarrow> write_err env e s = (b, s') \<Longrightarrow> balanced cs s'"
  using quiet_write_bytes [of env "error_serialize e" s]
  by (auto simp: write_err_def quiet_def balanced_def core_def split: if_splits prod.splits sum.splits)

lemma run_requests_safe:
  "balanced cs s \<Longrightarrow> run_requests env rs s = (r, s') \<Longrightarrow> r \<noteq> None \<and> balanced cs s'"
proof (induction env rs s rule: run_requests.induct)
  case (2 env r rs s)
  from safe_run_request [OF "2.prems"(1)] have "safe cs (run_request env r s)" .
  with 2 show ?case
    by (auto simp: safe_def dest: balanced_write_err
      split: prod.splits sum.splits SessionResult.splits fail.splits bool.splits)
qed auto

lemma collect_balanced: "balanced cs s \<Longrightarrow> collect env bs rs s = (r, s') \<Longrightarrow> balanced cs s'"
proof (induction env bs rs s arbitrary: r s' rule: collect.induct)
  case (1 env bs rs s)
  from "1.prems" show ?case
    by (subst (asm) collect.simps)
       (auto simp: 1 split: prod.splits option.splits sum.splits if_splits dest!: "1.IH")
qed

lemma ingest_safe: "balanced cs s \<Longrightarrow> ingest env bs s = (r, s') \<Longrightarrow> r \<noteq> None \<and> balanced cs s'"
  by (auto simp: ingest_def split: prod.splits option.splits dest: collect_balanced run_requests_safe)

lemma handle_conn_safe:
  "balanced cs s \<Longrightarrow> handle_conn env es s = (e, es', s') \<Longrightarrow> e \<noteq> ConnPanicked \<and> balanced cs s'"
proof (induction env es s rule: handle_conn.induct)
  case (2 env bs es s)
  then show ?case
    by (auto split: if_splits prod.splits option.splits SessionResult.splits dest: ingest_safe)
qed auto

lemma end_session_safe:
  assumes "balanced cs s" and "end_session (handle_conn env es s) = (e, s')"
  shows "e \<noteq> ConnPanicked \<and> (if e = ConnWaiting then balanced cs s' else counters s' = cs)"
proof (cases "handle_conn env es s")
  case (fields e1 es1 s1)
  from handle_conn_safe [OF assms(1) this] assms(2) fields show ?thesis
    by (auto simp: end_session_def drop_session_def balanced_def split: if_splits)
qed

lemma handle_safe:
  assumes "handle env es (new_session tls cs w) = (e, s)"
  shows "e \<noteq> ConnPanicked \<and> (if e = ConnWaiting then balanced cs s else counters s = cs)"
proof -
  have new: "balanced cs (new_session tls cs w)" by (simp add: balanced_def new_session_def)
  obtain r s1 where g: "write_bytes env SERVER_GREETING (new_session tls cs w) = (r, s1)"
    by (cases "write_bytes env SERVER_GREETING (new_session tls cs w)")
  with new balanced_write_bytes [of cs env SERVER_GREETING "new_session tls cs w"] have b1: "balanced cs s1" by simp
  obtain e1 es1 s2 where c: "handle_conn env es s1 = (e1, es1, s2)" by (cases "handle_conn env es s1")
  with handle_conn_safe [OF b1] have b2: "balanced cs s2" "e1 \<noteq> ConnPanicked" by blast+
  obtain ok s3 where t: "into_tls env s2 = (ok, s3)" by (cases "into_tls env s2")
  with b2(1) have b3: "balanced cs s3" by (auto simp: into_tls_def split: prod.splits)
  have dropped: "counters (drop_session s') = cs" if "balanced cs s'" for s'
    using that by (simp add: drop_session_def balanced_def)
  show ?thesis
  proof (cases r)
    case (Inl f)
    with assms g b1 dropped show ?thesis by (auto simp: handle_def)
  next
    case (Inr u)
    show ?thesis
    proof (cases "e1 = ConnUpgrade")
      case True
      with assms g c t Inr b2 b3 dropped end_session_safe [OF b3, of env es1 e s] show ?thesis
        by (auto simp: handle_def split: if_splits bool.splits)
    next
      case False
      with assms g c Inr end_session_safe [OF b1, of env es e s] show ?thesis
        by (cases e1) (auto simp: handle_def)
    qed
  qed
qed

text \<open>
  C7: No POP3 connection panics.  Whatever a client sends, in whatever pieces, and however the
  rest of the server answers, no \<open>unreachable!\<close> and no \<open>unwrap\<close> of the session is reached, before and
  after a switch to TLS.
\<close>

theorem pop3_never_panics: "fst (handle env es (new_session tls cs w)) \<noteq> ConnPanicked"
  using handle_safe [of env es tls cs w] by (cases "handle env es (new_session tls cs w)") simp

text \<open>
  C12: A POP3 connection gives back every slot it takes from a concurrency limiter.  When it has
  ended, by whatever path, the counters are those it started with; while it waits, they differ by
  exactly the guard in its state.
\<close>

theorem pop3_returns_slots:
  "case handle env es (new_session tls cs w) of
     (e, s) \<Rightarrow> (if e = ConnWaiting then drop_state (sess_state s) (counters s) else counters s) = cs"
  using handle_safe [of env es tls cs w]
  by (cases "handle env es (new_session tls cs w)") (auto simp: balanced_def)

section \<open>A sample server\<close>

definition sample_inbox :: "u32 \<Rightarrow> (unit, u32 list option) query" where
  "sample_inbox a w = (Inr (Some [40, 41]), w)"

text \<open>It rejects every login, writes without failing and has the given inbox.\<close>

definition sample_server :: "(u32 \<Rightarrow> (unit, u32 list option) query) \<Rightarrow> unit pop3_env" where
  "sample_server inbox =
     \<lparr>allow_plain_auth = True, max_auth_failures = 3, rate_requests = False,
      is_rate_allowed = (\<lambda>_ w. (Inr True, w)), is_scanner_fail2banned = (\<lambda>w. (Inr False, w)),
      authenticate = (\<lambda>_ w. (Inl (EvAuthFailed, None), w)), imap_limiter = (\<lambda>_. None),
      base64_decode = (\<lambda>_. None), write_all = (\<lambda>_ w. (True, w)), acceptor_is_tls = True,
      tls_accept = (\<lambda>w. (True, w)), get_inbox_ids = inbox, mailbox_get_or_create = (\<lambda>_ w. (Inr (), w)),
      get_inbox_cid = (\<lambda>_ w. (Inr (Some 1), w)), iterate_keys = (\<lambda>_ _ w. (Inr [], w)),
      get_uid_mailboxes = (\<lambda>_ _ w. (Inr [], w)), get_blob_hash = (\<lambda>_ _ w. (Inr None, w)),
      get_blob = (\<lambda>_ w. (Inr None, w)), emails_tombstone = (\<lambda>_ _ w. (Inl (EvStoreUnexpected, None), w)),
      commit_changes = (\<lambda>_ _ w. (Inr 0, w)), broadcast_state_change = (\<lambda>_ _ w. w)\<rparr>"

definition sample_token :: AccessToken where
  "sample_token =
     \<lparr>primary_id = 7, member_of = [], access_to = vm_new, tk_name = ''jane'', tk_description = None,
      tk_emails = [], tk_quota = 0, permissions = bs_all 6, tenant = None, tk_revision = 1\<rparr>"

end
