(* ===== verification/Pop3Privacy.thy ===== *)
theory Pop3Privacy
  imports Pop3Safety
begin

text \<open>
  The boundaries of a POP3 connection: before a login succeeds it neither reads nor changes the mail
  store, and what a switch to TLS keeps of the bytes received in clear text.
\<close>

section \<open>Servers that differ in the mail store only\<close>

definition same_gate :: "'w pop3_env \<Rightarrow> 'w pop3_env \<Rightarrow> bool" where
  "same_gate env env' \<longleftrightarrow>
     allow_plain_auth env = allow_plain_auth env' \<and> max_auth_failures env = max_auth_failures env' \<and>
     rate_requests env = rate_requests env' \<and> is_rate_allowed env = is_rate_allowed env' \<and>
     is_scanner_fail2banned env = is_scanner_fail2banned env' \<and> authenticate env = authenticate env' \<and>
     imap_limiter env = imap_limiter env' \<and> base64_decode env = base64_decode env' \<and>
     write_all env = write_all env' \<and> acceptor_is_tls env = acceptor_is_tls env' \<and>
     tls_accept env = tls_accept env'"

definition rejects_all :: "'w pop3_env \<Rightarrow> bool" where
  "rejects_all env \<longleftrightarrow> (\<forall>c w. isl (fst (authenticate env c w)))"

lemma same_gateD:
  assumes "same_gate env env'"
  shows "allow_plain_auth env = allow_plain_auth env'" and "max_auth_failures env = max_auth_failures env'"
    and "rate_requests env = rate_requests env'" and "is_rate_allowed env = is_rate_allowed env'"
    and "is_scanner_fail2banned env = is_scanner_fail2banned env'" and "authenticate env = authenticate env'"
    and "imap_limiter env = imap_limiter env'" and "base64_decode env = base64_decode env'"
    and "write_all env = write_all env'" and "acceptor_is_tls env = acceptor_is_tls env'"
    and "tls_accept env = tls_accept env'"
  using assms by (auto simp: same_gate_def)

lemma same_gate_writes:
  assumes "same_gate env env'"
  shows "write_bytes env = write_bytes env'" and "write_ok env = write_ok env'" and "write_err env = write_err env'"
proof -
  show w: "write_bytes env = write_bytes env'"
    by (intro ext) (simp add: write_bytes_def same_gateD [OF assms])
  show "write_ok env = write_ok env'" "write_err env = write_err env'"
    by (intro ext; simp add: write_ok_def write_err_def w)+
qed

lemma same_gate_validate:
  assumes "same_gate env env'"
  shows "validate_request env c = validate_request env' c"
proof -
  have "validate_plain env = validate_plain env'" "validate_transaction env = validate_transaction env'"
    by (intro ext; simp add: validate_plain_def validate_transaction_def same_gateD [OF assms] split: session_state.split)+
  then show ?thesis by (cases c) simp_all
qed

lemma same_gate_collect:
  "same_gate env env' \<Longrightarrow> collect env bs rs s = collect env' bs rs s"
proof (induction env bs rs s rule: collect.induct)
  case (1 env bs rs s)
  then have ban: "is_scanner_fail2banned env = is_scanner_fail2banned env'" by (simp add: same_gate_def)
  show ?case
    unfolding collect.simps [of env bs rs s] collect.simps [of env' bs rs s] ban
    using 1 ban by (auto split: prod.splits option.splits sum.splits)
qed

section \<open>An unauthenticated session\<close>

lemma rejected_check:
  assumes "rejects_all env" and "\<not> is_authenticated (sess_state s)"
  shows "\<exists>e s'. check_credentials env c s = (Inl e, s') \<and> \<not> is_authenticated (sess_state s')"
proof -
  have "isl (fst (authenticate env c (sess_world s)))" using assms(1) by (simp add: rejects_all_def)
  then obtain e w where "authenticate env c (sess_world s) = (Inl e, w)"
    by (cases "authenticate env c (sess_world s)") (auto simp: isl_def)
  with assms(2) show ?thesis
    by (cases "sess_state s")
      (auto simp: check_credentials_def count_failure_def throw_def act_then_def act_bind_def set_state_def ret_def)
qed

lemma state_after_write: "sess_state (snd (write_bytes env b s)) = sess_state s"
  using quiet_write_bytes [of env b s] by (simp add: quiet_def core_def)

text \<open>\<open>agree\<close>: two servers run an action alike, and it leaves the client without a login.\<close>

definition agree :: "('w, 'a) action \<Rightarrow> ('w, 'a) action \<Rightarrow> 'w session \<Rightarrow> bool" where
  "agree m m' s \<longleftrightarrow> m s = m' s \<and> \<not> is_authenticated (sess_state (snd (m s)))"

lemma agree_quiet: "quiet m s \<Longrightarrow> m s = m' s \<Longrightarrow> \<not> is_authenticated (sess_state s) \<Longrightarrow> agree m m' s"
  by (simp add: agree_def quiet_def core_def)

lemma agree_bind:
  assumes "agree m m' s"
    and "\<And>a s'. m s = (Inr a, s') \<Longrightarrow> \<not> is_authenticated (sess_state s') \<Longrightarrow> agree (f a) (g a) s'"
  shows "agree (act_bind m f) (act_bind m' g) s"
proof (cases "m s")
  case (Pair r s')
  with assms(1) have "m' s = (r, s')" "\<not> is_authenticated (sess_state s')" by (auto simp: agree_def)
  with Pair assms(2) show ?thesis by (cases r) (auto simp: agree_def act_bind_def)
qed

lemma agree_then:
  assumes "agree m m' s"
    and "\<And>s'. \<not> is_authenticated (sess_state s') \<Longrightarrow> agree n n' s'"
  shows "agree (act_then m n) (act_then m' n') s"
  unfolding act_then_def using assms by (intro agree_bind) auto

lemma agree_ret: "\<not> is_authenticated (sess_state s) \<Longrightarrow> agree (ret a) (ret a) s"
  by (simp add: agree_quiet)

lemma agree_throw: "\<not> is_authenticated (sess_state s) \<Longrightarrow> agree (throw e) (throw e) s"
  by (simp add: agree_quiet)

lemma agree_continue:
  "agree m m' s \<Longrightarrow> agree (continue_after m) (continue_after m') s"
  unfolding continue_after_def by (intro agree_then agree_ret)

lemma agree_handle_auth:
  assumes "same_gate env env'" and "rejects_all env" and "\<not> is_authenticated (sess_state s)"
  shows "agree (handle_auth env c) (handle_auth env' c) s"
proof -
  have "check_credentials env c s = check_credentials env' c s"
    by (simp add: check_credentials_def count_failure_def same_gateD [OF assms(1)] split: session_state.split prod.split sum.split)
  with rejected_check [OF assms(2,3), of c] show ?thesis
    by (auto simp: agree_def handle_auth_def act_bind_def)
qed

lemma agree_handle_user:
  assumes "same_gate env env'" and "\<not> is_authenticated (sess_state s)"
  shows "agree (handle_user env n) (handle_user env' n) s"
  using assms quiet_write_ok [of env' "unstr n @ '' is a valid mailbox''"]
  by (cases "sess_state s")
     (auto simp: agree_def handle_user_def same_gate_writes [OF assms(1)] quiet_def core_def)

lemma agree_handle_pass:
  assumes "same_gate env env'" and "rejects_all env" and "ready (Pass p) (sess_state s)"
  shows "agree (handle_pass env p) (handle_pass env' p) s"
proof -
  obtain n u where st: "sess_state s = NotAuthenticated n (Some u)" using assms(3) by auto
  from agree_handle_auth [OF assms(1,2), of "s\<lparr>sess_state := NotAuthenticated n None\<rparr>" "PlainCredentials u p"] st show ?thesis
    by (auto simp: agree_def handle_pass_def)
qed

lemma agree_handle_sasl:
  assumes "same_gate env env'" and "rejects_all env" and "\<not> is_authenticated (sess_state s)"
  shows "agree (handle_sasl env m ps) (handle_sasl env' m ps) s"
proof -
  have challenge: "decode_challenge env = decode_challenge env'"
    by (intro ext) (simp add: decode_challenge_def same_gateD [OF assms(1)])
  have "agree (\<lambda>s. write_bytes env b (s\<lparr>sess_receiver := p\<rparr>)) (\<lambda>s. write_bytes env' b (s\<lparr>sess_receiver := p\<rparr>)) s" for b p
    using assms(3) quiet_write_bytes [of env' b "s\<lparr>sess_receiver := p\<rparr>"]
    by (simp add: agree_def same_gate_writes [OF assms(1)] quiet_def core_def)
  then show ?thesis
    by (auto simp: handle_sasl_def challenge intro!: agree_handle_auth [OF assms] agree_throw [OF assms(3)] split: option.split)
qed

lemma agree_dispatch:
  assumes gate: "same_gate env env'" and rej: "rejects_all env" and un: "\<not> is_authenticated (sess_state s)"
    and ready: "ready c (sess_state s)"
  shows "agree (dispatch env c) (dispatch env' c) s"
proof -
  note w = same_gate_writes [OF gate]
  have quiets: "agree (handle_quit env) (handle_quit env') s" "agree (handle_capa env) (handle_capa env') s"
    "agree (handle_stls env) (handle_stls env') s" "agree (handle_utf8 env) (handle_utf8 env') s"
    "agree (write_ok env x) (write_ok env' x) s" for x
    using un
    by (intro agree_quiet quiet_small_handlers quiet_handle_quit quiet_write_ok;
      cases "sess_state s"; simp add: handle_quit_def handle_capa_def handle_stls_def handle_utf8_def w same_gateD [OF gate])+
  show ?thesis
    using ready un
    by (cases c) (auto intro!: agree_continue agree_then agree_ret agree_throw quiets agree_handle_user [OF gate]
      agree_handle_sasl [OF gate rej] agree_handle_pass [OF gate rej])
qed

lemma agree_run_request:
  assumes gate: "same_gate env env'" and rej: "rejects_all env" and un: "\<not> is_authenticated (sess_state s)"
  shows "agree (run_request env r) (run_request env' r) s"
proof (cases r)
  case (Inl e)
  with un show ?thesis by (simp add: run_request_def agree_quiet)
next
  case (Inr c)
  have "agree (validate_request env c) (validate_request env' c) s"
    using un by (intro agree_quiet quiet_validate) (simp_all add: same_gate_validate [OF gate])
  then have "agree (act_bind (validate_request env c) (dispatch env)) (act_bind (validate_request env' c) (dispatch env')) s"
    by (rule agree_bind) (auto intro!: agree_dispatch [OF gate rej] dest: validate_request_ready)
  with Inr show ?thesis by (simp add: run_request_def)
qed

lemma write_err_state: "write_err env e s = (b, s') \<Longrightarrow> sess_state s' = sess_state s"
  using quiet_write_bytes [of env "error_serialize e" s]
  by (auto simp: write_err_def quiet_def core_def split: if_splits prod.splits sum.splits)

lemma run_requests_agree:
  assumes gate: "same_gate env env'" and rej: "rejects_all env"
  shows "\<not> is_authenticated (sess_state s) \<Longrightarrow>
    run_requests env rs s = run_requests env' rs s \<and> \<not> is_authenticated (sess_state (snd (run_requests env rs s)))"
proof (induction rs arbitrary: s)
  case (Cons r rs)
  obtain v s1 where run: "run_request env r s = (v, s1)" "run_request env' r s = (v, s1)" "\<not> is_authenticated (sess_state s1)"
    using agree_run_request [OF gate rej Cons.prems, of r] by (cases "run_request env r s") (auto simp: agree_def)
  have err: "write_err env = write_err env'" using same_gate_writes [OF gate] by simp
  show ?case
  proof (cases v)
    case (Inr result)
    with run Cons.IH [OF run(3)] show ?thesis by (cases result) auto
  next
    case (Inl f)
    show ?thesis
    proof (cases f)
      case (Err e)
      obtain b s2 where we: "write_err env' e s1 = (b, s2)" by (cases "write_err env' e s1")
      with write_err_state run(3) have un: "\<not> is_authenticated (sess_state s2)" by metis
      from Cons.IH [OF un] un run Inl Err we show ?thesis by (cases b) (auto simp: err)
    qed (simp add: run Inl)
  qed
qed simp

lemma collect_state: "sess_state (snd (collect env bs rs s)) = sess_state s"
proof (induction env bs rs s rule: collect.induct)
  case (1 env bs rs s)
  show ?case
    by (subst collect.simps) (simp add: "1.IH" split: prod.split option.split sum.split)
qed

lemma ingest_agree:
  assumes "same_gate env env'" and "rejects_all env" and "\<not> is_authenticated (sess_state s)"
  shows "ingest env bs s = ingest env' bs s \<and> \<not> is_authenticated (sess_state (snd (ingest env bs s)))"
proof -
  obtain r s1 where c: "collect env bs [] s = (r, s1)" by (cases "collect env bs [] s")
  with collect_state [of env bs "[]" s] assms(3) have "\<not> is_authenticated (sess_state s1)" by simp
  with run_requests_agree [OF assms(1,2) this, of "the r"] c same_gate_collect [OF assms(1), of bs "[]" s] show ?thesis
    by (cases r) (auto simp: ingest_def)
qed

lemma handle_conn_agree:
  assumes "same_gate env env'" and "rejects_all env"
  shows "\<not> is_authenticated (sess_state s) \<Longrightarrow>
    handle_conn env es s = handle_conn env' es s \<and> \<not> is_authenticated (sess_state (snd (snd (handle_conn env es s))))"
proof (induction es arbitrary: s)
  case (Cons ev es)
  note w = same_gate_writes [OF assms(1)]
  show ?case
  proof (cases ev)
    case (ReadBytes bs)
    obtain r s1 where i: "ingest env bs s = (r, s1)" "ingest env' bs s = (r, s1)" "\<not> is_authenticated (sess_state s1)"
      using ingest_agree [OF assms Cons.prems, of bs] by (cases "ingest env' bs s") auto
    show ?thesis
    proof (cases r)
      case (Some result)
      with i ReadBytes Cons.IH [OF i(3)] Cons.prems show ?thesis by (cases result) auto
    qed (use i ReadBytes Cons.prems in simp)
  qed (use Cons.prems in \<open>simp_all add: w state_after_write\<close>)
qed simp

lemma handle_agree:
  assumes "same_gate env env'" and "rejects_all env" and "\<not> is_authenticated (sess_state s)"
  shows "handle env es s = handle env' es s"
proof -
  note gate = assms(1) and conn = handle_conn_agree [OF assms(1,2)]
  obtain r s1 where g: "write_bytes env' SERVER_GREETING s = (r, s1)"
    by (cases "write_bytes env' SERVER_GREETING s")
  with assms(3) state_after_write [of env' SERVER_GREETING s] have s1: "\<not> is_authenticated (sess_state s1)" by simp
  obtain e es2 s2 where c: "handle_conn env es s1 = (e, es2, s2)" "handle_conn env' es s1 = (e, es2, s2)"
      "\<not> is_authenticated (sess_state s2)"
    using conn [OF s1, of es] by (cases "handle_conn env' es s1") auto
  have tls: "into_tls env s2 = into_tls env' s2" by (simp add: into_tls_def same_gateD [OF gate])
  obtain ok s3 where t: "into_tls env' s2 = (ok, s3)" by (cases "into_tls env' s2")
  with c(3) have "\<not> is_authenticated (sess_state s3)" by (auto simp: into_tls_def split: prod.splits)
  from conn [OF this, of es2] g c t show ?thesis
    by (simp add: handle_def same_gate_writes [OF gate] same_gateD [OF gate] tls split: sum.split conn_end.split bool.split)
qed

text \<open>
  C9: Nothing of the mail store before a login.  On a server that accepts no credentials of this
  client, a connection is the same, byte for byte and in every effect on the server, whatever the
  store holds and however it answers: its mailboxes, messages and deletions are never consulted.
\<close>

theorem pop3_login_gate:
  assumes "same_gate env env'" and "rejects_all env"
  shows "handle env es (new_session tls cs w) = handle env' es (new_session tls cs w)"
  by (intro handle_agree assms) (simp add: new_session_def)

theorem pop3_login_gate_witness:
  "same_gate (sample_server sample_inbox) (sample_server (\<lambda>_ w. (Inl (EvStoreCorruption, None), w))) \<and>
   rejects_all (sample_server sample_inbox) \<and>
   handle (sample_server sample_inbox) [ReadBytes (str ''USER jane'' @ CRLF @ str ''PASS x'' @ CRLF)] (new_session True (\<lambda>_. 0) ()) =
   handle (sample_server (\<lambda>_ w. (Inl (EvStoreCorruption, None), w)))
     [ReadBytes (str ''USER jane'' @ CRLF @ str ''PASS x'' @ CRLF)] (new_session True (\<lambda>_. 0) ())"
proof -
  have gate: "same_gate (sample_server sample_inbox) (sample_server (\<lambda>_ w. (Inl (EvStoreCorruption, None), w)))"
    and rejects: "rejects_all (sample_server sample_inbox)"
    by (simp_all add: same_gate_def rejects_all_def sample_server_def)
  with pop3_login_gate [OF gate rejects] show ?thesis by blast
qed

section \<open>The switch to TLS\<close>

definition write_succeeds :: "'w pop3_env \<Rightarrow> bool" where
  "write_succeeds env \<longleftrightarrow> (\<forall>b w. fst (write_all env b w))"

lemma stls_parsed:
  "pop3_parse PInit (str ''STLS'' @ CRLF @ rest) = (PInit, Some (Inr Stls, rest))"
  by (simp add: str_def CRLF_def is_ascii_lower_def is_ascii_upper_def command_parse_def)

lemma write_succeeds_bytes:
  "write_succeeds env \<Longrightarrow> \<exists>s'. write_bytes env b s = (Inr (), s') \<and> core s' = core s"
  using quiet_write_bytes [of env b s]
  by (cases "write_all env b (sess_world s)") (auto simp: write_succeeds_def write_bytes_def quiet_def split: bool.splits, metis fst_conv)

lemma stls_ingested:
  assumes "sess_receiver s = PInit" and "\<not> sess_tls s" and "write_succeeds env"
    and "pop3_parse PInit prefix = (st, None)"
  shows "\<exists>s'. ingest env (str ''STLS'' @ CRLF @ prefix) s = (Some UpgradeTls, s') \<and> sess_receiver s' = st"
proof -
  let ?s = "s\<lparr>sess_receiver := st\<rparr>"
  have "collect env (str ''STLS'' @ CRLF @ prefix) [] s = (Some [Inr Stls], ?s)"
    by (subst collect.simps, simp add: assms(1) stls_parsed)
       (subst collect.simps, simp add: assms(4) push_request_def)
  moreover obtain s' where "write_ok env ''Begin TLS negotiation now'' ?s = (Inr (), s')" "core s' = core ?s"
    using write_succeeds_bytes [OF assms(3)] by (auto simp: write_ok_def)
  moreover have "sess_receiver s' = st" using calculation(3) by (simp add: core_def)
  ultimately show ?thesis
    using assms(2) by (simp add: ingest_def run_request_def handle_stls_def act_bind_def act_then_def ret_def)
qed

text \<open>
  C36: The switch to TLS does not discard what was received in clear text.  The start of a command
  that follows STLS in the same read stays in the parser: whatever the client then sends over TLS is
  read as if it began with these bytes.
\<close>

theorem pop3_stls_keeps_prefix:
  assumes "sess_receiver s = PInit" and "\<not> sess_tls s" and "write_succeeds env"
    and "pop3_parse PInit prefix = (st, None)"
  shows "\<exists>s'. handle_conn env (ReadBytes (str ''STLS'' @ CRLF @ prefix) # es) s = (ConnUpgrade, es, s') \<and>
    parse_requests (sess_receiver (snd (into_tls env s'))) received = parse_requests PInit (prefix @ received)"
proof -
  from stls_ingested [OF assms] obtain s' where i: "ingest env (str ''STLS'' @ CRLF @ prefix) s = (Some UpgradeTls, s')"
    "sess_receiver s' = st" by blast
  have "parse_requests PInit prefix = (st, [])" using assms(4) by (subst parse_requests.simps) simp
  then have "parse_requests PInit (prefix @ received) = parse_requests st received"
    by (simp add: parse_requests_append split: prod.split)
  moreover have "sess_receiver (snd (into_tls env s')) = st"
    using i(2) by (simp add: into_tls_def split: prod.split)
  moreover have "str ''STLS'' @ CRLF @ prefix \<noteq> []" by (simp add: str_def)
  ultimately show ?thesis using i(1) by (simp del: append_is_Nil_conv)
qed

theorem pop3_stls_keeps_prefix_witness:
  "\<exists>s'. handle_conn (sample_server sample_inbox) [ReadBytes (str ''STLS'' @ CRLF @ str ''RS'')] (new_session False (\<lambda>_. 0) ()) =
      (ConnUpgrade, [], s') \<and>
    parse_requests (sess_receiver (snd (into_tls (sample_server sample_inbox) s'))) (str ''ET'' @ CRLF) =
      parse_requests PInit (str ''RS'' @ str ''ET'' @ CRLF)"
  by (rule pop3_stls_keeps_prefix [where st = "PCommand [114, 115, 0, 0] 2"])
     (simp_all add: new_session_def write_succeeds_def sample_server_def str_def is_ascii_lower_def is_ascii_upper_def)

end
