(* ===== verification/Pop3Deletion.thy ===== *)
theory Pop3Deletion
  imports Pop3Safety
begin

text \<open>
  Deletion in POP3: DELE and RSET mark messages of the mailbox read at login, and QUIT hands the
  marked ones to the store.  \<open>mark_spec\<close> is the abstract account of this as a set of positions; the
  lemmas show that a connection implements it whatever the grouping of DELE requests and the pieces
  in which the requests arrive.
\<close>

section \<open>Marking as a set of positions\<close>

definition marked :: "mailbox \<Rightarrow> nat set" where
  "marked mb = {i. i < length (mb_messages mb) \<and> msg_deleted (mb_messages mb ! i)}"

definition unmarked :: "mailbox \<Rightarrow> mailbox" where
  "unmarked mb = mb\<lparr>mb_messages := map (\<lambda>m. m\<lparr>msg_deleted := False\<rparr>) (mb_messages mb)\<rparr>"

fun mark_spec :: "nat \<Rightarrow> reason + request \<Rightarrow> nat set \<Rightarrow> nat set" where
  "mark_spec n (Inr (Dele msg)) D = D \<union> ({message_index msg} \<inter> {..<n})"
| "mark_spec n (Inr (DeleMany msgs)) D = D \<union> (message_index ` set msgs \<inter> {..<n})"
| "mark_spec n (Inr Rset) D = {}"
| "mark_spec n r D = D"

text \<open>The session is logged in with the mailbox \<open>mb\<close>, of which the positions \<open>D\<close> are marked.\<close>

definition marks :: "mailbox \<Rightarrow> nat option \<Rightarrow> AccessToken \<Rightarrow> nat set \<Rightarrow> 'w session \<Rightarrow> bool" where
  "marks mb g t D s \<longleftrightarrow>
     (\<exists>mb'. sess_state s = Authenticated mb' g t \<and> unmarked mb' = unmarked mb \<and> marked mb' = D)"

lemma unmarked_length: "unmarked mb' = unmarked mb \<Longrightarrow> length (mb_messages mb') = length (mb_messages mb)"
  by (metis (no_types, lifting) length_map mailbox.select_convs(1) mailbox.surjective mailbox.update_convs(1) unmarked_def)

lemma dele_one_effect:
  assumes "dele_one msg (ms, out) = (ms', out')"
  shows "length ms' = length ms" and "map (\<lambda>m. m\<lparr>msg_deleted := False\<rparr>) ms' = map (\<lambda>m. m\<lparr>msg_deleted := False\<rparr>) ms"
    and "{i. i < length ms' \<and> msg_deleted (ms' ! i)} =
      {i. i < length ms \<and> msg_deleted (ms ! i)} \<union> ({message_index msg} \<inter> {..<length ms})"
  using assms
  by (auto simp: dele_one_def Let_def map_update nth_list_update list_update_id split: if_splits
    intro!: nth_equalityI)

lemma fold_dele_effect:
  "fold dele_one msgs (ms, out) = (ms', out') \<Longrightarrow>
   map (\<lambda>m. m\<lparr>msg_deleted := False\<rparr>) ms' = map (\<lambda>m. m\<lparr>msg_deleted := False\<rparr>) ms \<and>
   {i. i < length ms' \<and> msg_deleted (ms' ! i)} =
     {i. i < length ms \<and> msg_deleted (ms ! i)} \<union> (message_index ` set msgs \<inter> {..<length ms})"
proof (induction msgs arbitrary: ms out)
  case (Cons msg msgs)
  obtain ms1 out1 where d: "dele_one msg (ms, out) = (ms1, out1)" by (cases "dele_one msg (ms, out)")
  with Cons.prems have "fold dele_one msgs (ms1, out1) = (ms', out')" by simp
  from Cons.IH [OF this] dele_one_effect [OF d] show ?case by auto
qed auto

lemma marks_core: "core s' = core s \<Longrightarrow> marks mb g t D s' = marks mb g t D s"
  by (simp add: marks_def core_def)

lemma marks_authenticated: "marks mb g t D s \<Longrightarrow> is_authenticated (sess_state s)"
  by (auto simp: marks_def)

section \<open>The handlers\<close>

text \<open>
  \<open>performs\<close>: the action ends in the marks \<open>D'\<close>, unless it fails in a way that ends the connection.
\<close>

definition performs :: "mailbox \<Rightarrow> nat option \<Rightarrow> AccessToken \<Rightarrow> nat set \<Rightarrow> parse_state \<Rightarrow> (fail + 'a) \<times> 'w session \<Rightarrow> bool" where
  "performs mb g t D p r \<longleftrightarrow>
     (case r of
        (Inr _, s') \<Rightarrow> marks mb g t D s' \<and> sess_receiver s' = p
      | (Inl (Err e), s') \<Rightarrow> (must_disconnect e \<or> marks mb g t D s') \<and> sess_receiver s' = p
      | (Inl Panic, s') \<Rightarrow> True)"

lemma performs_quiet:
  assumes "quiet m s" and "marks mb g t D s"
  shows "performs mb g t D (sess_receiver s) (m s)"
proof -
  obtain r s' where r: "m s = (r, s')" by (cases "m s")
  with assms(1) have "core s' = core s" by (simp add: quiet_def)
  with marks_core [OF this] assms(2) r show ?thesis
    by (auto simp: performs_def core_def split: sum.split fail.split)
qed

lemma performs_continue:
  "performs mb g t D p (m s) \<Longrightarrow> performs mb g t D p (continue_after m s)"
  by (auto simp: performs_def continue_after_def act_then_def act_bind_def ret_def
    split: prod.splits sum.splits fail.splits)

lemma performs_dele:
  assumes "marks mb g t D s"
  shows "performs mb g t (mark_spec (length (mb_messages mb)) (Inr (DeleMany msgs)) D) (sess_receiver s) (handle_dele env msgs s)"
proof -
  obtain mb' where st: "sess_state s = Authenticated mb' g t" and mb': "unmarked mb' = unmarked mb" "marked mb' = D"
    using assms by (auto simp: marks_def)
  obtain ms out where f: "fold dele_one msgs (mb_messages mb', []) = (ms, out)"
    by (cases "fold dele_one msgs (mb_messages mb', [])")
  let ?s = "s\<lparr>sess_state := Authenticated (mb'\<lparr>mb_messages := ms\<rparr>) g t\<rparr>"
  have "marks mb g t (mark_spec (length (mb_messages mb)) (Inr (DeleMany msgs)) D) ?s"
    using fold_dele_effect [OF f] mb' unmarked_length [OF mb'(1)]
    by (auto simp: marks_def unmarked_def marked_def)
  from performs_quiet [OF quiet_write_bytes this] st f show ?thesis
    by (simp add: handle_dele_def act_bind_def act_then_def get_token_def get_mailbox_def put_mailbox_def ret_def
      lift_def assert_token_permission_def performs_def must_disconnect_def)
qed

lemma performs_rset:
  assumes "marks mb g t D s"
  shows "performs mb g t {} (sess_receiver s) (handle_rset env s)"
proof -
  obtain mb' where st: "sess_state s = Authenticated mb' g t" and mb': "unmarked mb' = unmarked mb"
    using assms by (auto simp: marks_def)
  have "marks mb g t {} (s\<lparr>sess_state := Authenticated (unmarked mb') g t\<rparr>)"
    using mb' by (auto simp: marks_def unmarked_def marked_def comp_def)
  from performs_quiet [OF quiet_write_ok this] st show ?thesis
    by (simp add: handle_rset_def act_bind_def act_then_def get_mailbox_def put_mailbox_def ret_def unmarked_def)
qed

section \<open>Requests\<close>

text \<open>The rate limiter of requests answers, or is switched off.\<close>

definition rate_answers :: "'w pop3_env \<Rightarrow> bool" where
  "rate_answers env \<longleftrightarrow> \<not> rate_requests env \<or> (\<forall>a w. \<not> isl (fst (is_rate_allowed env a w)))"

lemma performs_dispatch:
  assumes "marks mb g t D s" and "ready c (sess_state s)"
  shows "performs mb g t (mark_spec (length (mb_messages mb)) (Inr c) D) (sess_receiver s) (dispatch env c s)"
proof -
  note auth = marks_authenticated [OF assms(1)]
  note quiets = quiet_transactions [OF auth] quiet_small_handlers quiet_handle_quit quiet_write_ok quiet_throw
  have ended: "quiet (act_then m (ret a)) s" if "quiet m s" for m :: "('b, unit) action" and a s
    using that by (auto intro!: quiet_intros)
  show ?thesis
    using assms auth performs_dele [OF assms(1), of "[_]"] performs_dele [OF assms(1)] performs_rset [OF assms(1)]
    by (cases c) (auto intro!: performs_continue performs_quiet [OF quiets(1)] performs_quiet [OF quiets(2)]
      performs_quiet [OF quiets(3)] performs_quiet [OF quiets(4)] performs_quiet [OF quiets(5)] performs_quiet [OF quiets(7)]
      performs_quiet [OF quiet_write_ok] performs_quiet [OF quiet_throw] performs_quiet [OF ended [OF quiets(6)]]
      performs_quiet [OF ended [OF quiets(8)]])
qed

lemma validated_marking:
  assumes "rate_answers env" and "validate_transaction env c s = (Inl f, s')" and "is_authenticated (sess_state s)"
  shows "\<exists>e. f = Err e \<and> must_disconnect e"
proof -
  obtain mb g t where st: "sess_state s = Authenticated mb g t" using assms(3) by (cases "sess_state s") auto
  show ?thesis
  proof (cases "rate_requests env")
    case True
    with assms(1) have "\<not> isl (fst (is_rate_allowed env (mb_account_id mb) (sess_world s)))"
      by (simp add: rate_answers_def)
    then obtain b w where "is_rate_allowed env (mb_account_id mb) (sess_world s) = (Inr b, w)"
      by (cases "is_rate_allowed env (mb_account_id mb) (sess_world s)"; cases "fst (is_rate_allowed env (mb_account_id mb) (sess_world s))") auto
    with assms(2) st True show ?thesis
      by (cases b) (auto simp: validate_transaction_def act_bind_def ask_def ret_def throw_def must_disconnect_def)
  next
    case False
    with assms(2) st show ?thesis by (simp add: validate_transaction_def ret_def)
  qed
qed

lemma performs_run_request:
  assumes "marks mb g t D s" and "rate_answers env"
  shows "performs mb g t (mark_spec (length (mb_messages mb)) r D) (sess_receiver s) (run_request env r s)"
proof (cases r)
  case (Inl e)
  with performs_quiet [OF quiet_throw assms(1)] show ?thesis by (simp add: run_request_def)
next
  case (Inr c)
  obtain v s1 where v: "validate_request env c s = (v, s1)" by (cases "validate_request env c s")
  with quiet_validate [of env c s] have core: "core s1 = core s" and np: "v \<noteq> Inl Panic" by (simp_all add: quiet_def)
  have m1: "marks mb g t D s1" and p1: "sess_receiver s1 = sess_receiver s"
    using marks_core [OF core] assms(1) core by (simp_all add: core_def)
  show ?thesis
  proof (cases v)
    case (Inr c')
    from validate_request_ready [OF v [unfolded Inr]] have "c' = c" "ready c (sess_state s1)" by simp_all
    with performs_dispatch [OF m1, of c env] v Inr \<open>r = Inr c\<close> p1 show ?thesis
      by (simp add: run_request_def act_bind_def)
  next
    case (Inl f)
    then obtain e where e: "f = Err e" using np by (cases f) auto
    have "must_disconnect e \<or> mark_spec (length (mb_messages mb)) (Inr c) D = D"
      using v Inl e validated_marking [OF assms(2) _ marks_authenticated [OF assms(1)], of c f s1]
      by (cases c) auto
    with v Inl e m1 p1 \<open>r = Inr c\<close> show ?thesis
      by (auto simp: performs_def run_request_def act_bind_def)
  qed
qed

lemma write_err_core:
  assumes "write_err env e s = (True, s')"
  shows "core s' = core s" and "\<not> must_disconnect e"
  using assms quiet_write_bytes [of env "error_serialize e" s]
  by (auto simp: write_err_def quiet_def split: if_splits prod.splits sum.splits)

lemma run_requests_marks:
  assumes "rate_answers env"
  shows "marks mb g t D s \<Longrightarrow> run_requests env rs s = (Some Continue, s') \<Longrightarrow>
    marks mb g t (fold (mark_spec (length (mb_messages mb))) rs D) s' \<and> sess_receiver s' = sess_receiver s"
proof (induction rs arbitrary: s D)
  case (Cons r rs)
  obtain v s1 where v: "run_request env r s = (v, s1)" by (cases "run_request env r s")
  note p = performs_run_request [OF Cons.prems(1) assms, of r, unfolded v]
  show ?case
  proof (cases v)
    case (Inr result)
    with Cons.prems(2) v have "result = Continue" "run_requests env rs s1 = (Some Continue, s')"
      by (cases result; simp)+
    with Cons.IH [of "mark_spec (length (mb_messages mb)) r D" s1] p Inr show ?thesis by (auto simp: performs_def)
  next
    case (Inl f)
    with Cons.prems(2) v obtain e where e: "f = Err e" by (cases f) auto
    obtain b s2 where w: "write_err env e s1 = (b, s2)" by (cases "write_err env e s1")
    with Cons.prems(2) v Inl e have b: b and rest: "run_requests env rs s2 = (Some Continue, s')"
      by (cases b; simp)+
    from write_err_core [OF w [unfolded eqTrueI [OF b]]] p Inl e
    have "marks mb g t (mark_spec (length (mb_messages mb)) r D) s2" "sess_receiver s2 = sess_receiver s"
      using marks_core [of s2 s1] by (auto simp: performs_def core_def)
    with Cons.IH [OF this(1) rest] show ?thesis by simp
  qed
qed simp

section \<open>The connection\<close>

lemma push_request_marks:
  "fold (mark_spec n) (push_request r rs) D = fold (mark_spec n) (rs @ [Inr r]) D"
proof (cases rs rule: rev_cases)
  case Nil
  then show ?thesis by (cases r) (simp_all add: push_request_def)
next
  case (snoc rs' x)
  then show ?thesis
    by (cases r; cases x; cases "projr x") (auto simp: push_request_def)
qed

lemma collect_marks:
  "collect env bs rs s = (Some rs', s') \<Longrightarrow>
   sess_state s' = sess_state s \<and> sess_receiver s' = fst (parse_requests (sess_receiver s) bs) \<and>
   fold (mark_spec n) rs' D = fold (mark_spec n) (rs @ snd (parse_requests (sess_receiver s) bs)) D"
proof (induction env bs rs s arbitrary: rs' s' rule: collect.induct)
  case (1 env bs rs s)
  obtain st out where p: "pop3_parse (sess_receiver s) bs = (st, out)" by (cases "pop3_parse (sess_receiver s) bs")
  show ?case
  proof (cases out)
    case None
    with "1.prems" p show ?thesis
      by (subst (asm) collect.simps, subst (1 2) parse_requests.simps) auto
  next
    case (Some o1)
    obtain r rest where o1: "o1 = (r, rest)" by (cases o1)
    have parse: "parse_requests (sess_receiver s) bs =
        (fst (parse_requests st rest), r # snd (parse_requests st rest))"
      using p Some o1 by (subst parse_requests.simps) (simp add: Let_def split: prod.splits)
    show ?thesis
    proof (cases r)
      case (Inr c)
      with "1.prems" p Some o1 have "collect env rest (push_request c rs) (s\<lparr>sess_receiver := st\<rparr>) = (Some rs', s')"
        by (subst (asm) collect.simps) simp
      from "1.IH"(3) [OF p [symmetric] Some o1 [symmetric] Inr this] parse Inr show ?thesis
        by (simp add: push_request_marks)
    next
      case (Inl e)
      obtain b w where ban: "is_scanner_fail2banned env (sess_world s) = (b, w)"
        by (cases "is_scanner_fail2banned env (sess_world s)")
      show ?thesis
      proof (cases "is_authenticated (sess_state s)")
        case True
        with "1.prems" p Some o1 Inl have "collect env rest (rs @ [Inl e]) (s\<lparr>sess_receiver := st\<rparr>) = (Some rs', s')"
          by (subst (asm) collect.simps) simp
        from "1.IH"(2) [OF p [symmetric] Some o1 [symmetric] Inl _ this] True parse Inl show ?thesis by simp
      next
        case False
        with "1.prems" p Some o1 Inl ban
        have "b \<noteq> Inr True" "collect env rest (rs @ [Inl e]) (s\<lparr>sess_receiver := st, sess_world := w\<rparr>) = (Some rs', s')"
          by (subst (asm) collect.simps, simp split: if_splits)+
        from "1.IH"(1) [OF p [symmetric] Some o1 [symmetric] Inl False ban [symmetric] this] parse Inl show ?thesis by simp
      qed
    qed
  qed
qed

lemma ingest_marks:
  assumes "rate_answers env" and "marks mb g t D s" and "ingest env bs s = (Some Continue, s')"
  shows "marks mb g t (fold (mark_spec (length (mb_messages mb))) (snd (parse_requests (sess_receiver s) bs)) D) s'"
    and "sess_receiver s' = fst (parse_requests (sess_receiver s) bs)"
proof -
  obtain rs s1 where c: "collect env bs [] s = (Some rs, s1)" and run: "run_requests env rs s1 = (Some Continue, s')"
    using assms(3) by (auto simp: ingest_def split: prod.splits option.splits)
  note cm = collect_marks [OF c, of "length (mb_messages mb)" D]
  with assms(2) have "marks mb g t D s1" by (simp add: marks_def)
  from run_requests_marks [OF assms(1) this run] cm
  show "marks mb g t (fold (mark_spec (length (mb_messages mb))) (snd (parse_requests (sess_receiver s) bs)) D) s'"
    and "sess_receiver s' = fst (parse_requests (sess_receiver s) bs)" by simp_all
qed

lemma handle_conn_marks:
  assumes "rate_answers env"
  shows "marks mb g t D s \<Longrightarrow> handle_conn env (map ReadBytes pieces) s = (ConnWaiting, es, s') \<Longrightarrow>
    marks mb g t (fold (mark_spec (length (mb_messages mb))) (snd (parse_requests (sess_receiver s) (concat pieces))) D) s'"
proof (induction pieces arbitrary: s D)
  case (Cons bs pieces)
  obtain r s1 where i: "ingest env bs s = (r, s1)" by (cases "ingest env bs s")
  with Cons.prems(2) have r: "r = Some Continue" and rest: "handle_conn env (map ReadBytes pieces) s1 = (ConnWaiting, es, s')"
    by (auto split: if_splits option.splits SessionResult.splits)
  note m = ingest_marks [OF assms Cons.prems(1) i [unfolded r]]
  from Cons.IH [OF m(1) rest] m(2) show ?case
    by (auto simp: parse_requests_append Let_def split: prod.splits)
qed simp

text \<open>The identifiers of the messages at marked positions.\<close>

definition ids_at :: "mailbox \<Rightarrow> nat set \<Rightarrow> u32 set" where
  "ids_at mb D = (\<lambda>i. msg_id (mb_messages mb ! i)) ` D"

lemma unmarked_ids:
  assumes "unmarked mb' = unmarked mb" and "i < length (mb_messages mb)"
  shows "msg_id (mb_messages mb' ! i) = msg_id (mb_messages mb ! i)"
proof -
  have "map msg_id (mb_messages (unmarked mb')) ! i = map msg_id (mb_messages (unmarked mb)) ! i"
    using assms(1) by simp
  with assms(2) unmarked_length [OF assms(1)] show ?thesis by (simp add: unmarked_def)
qed

lemma marked_ids_at: "marked_ids mb = ids_at mb (marked mb)"
  by (auto simp: marked_ids_def ids_at_def marked_def in_set_conv_nth image_iff)

lemma ids_at_cong:
  assumes "unmarked mb' = unmarked mb"
  shows "ids_at mb' (marked mb') = ids_at mb (marked mb')"
  unfolding ids_at_def
  by (rule image_cong) (auto simp: marked_def unmarked_ids [OF assms] unmarked_length [OF assms])

text \<open>
  \<open>quit_deleting\<close>: leaving the session by having the store delete the messages \<open>ids\<close>, one request for
  all of them and none when there is nothing to delete; a failure of the store is the outcome, and
  otherwise the changes are published and the client is told how many messages are gone, or that
  some are not.
\<close>

definition quit_deleting :: "'w pop3_env \<Rightarrow> u32 \<Rightarrow> u32 set \<Rightarrow> ('w, unit) action" where
  "quit_deleting env account ids s =
     (if ids = {} then write_ok env ''Stalwart POP3 bids you farewell (no messages deleted).'' s
      else case emails_tombstone env account ids (sess_world s) of
             (Inl e, w) \<Rightarrow> (Inl (Err e), s\<lparr>sess_world := w\<rparr>)
           | (Inr (changes, not_deleted), w) \<Rightarrow>
               (case publish_changes env account changes (s\<lparr>sess_world := w\<rparr>) of
                  (Inl e, s) \<Rightarrow> (Inl e, s)
                | (Inr _, s) \<Rightarrow>
                    (if not_deleted = {}
                     then write_ok env (''Stalwart POP3 bids you farewell ('' @ nat_to_string (card ids) @ '' messages deleted).'') s
                     else write_bytes env (response_serialize (RErr ''Some messages could not be deleted'')) s)))"

lemma quit_deletes_marked:
  assumes "marks mb g t D s"
  shows "handle_quit env s = quit_deleting env (mb_account_id mb) (ids_at mb D) s"
proof -
  obtain mb' where st: "sess_state s = Authenticated mb' g t" and mb': "unmarked mb' = unmarked mb" "marked mb' = D"
    using assms by (auto simp: marks_def)
  have "marked_ids mb' = ids_at mb D" using ids_at_cong [OF mb'(1)] mb'(2) by (simp add: marked_ids_at)
  moreover have "mb_account_id mb' = mb_account_id mb"
    using arg_cong [OF mb'(1), of mb_account_id] by (simp add: unmarked_def)
  ultimately show ?thesis
    using st by (simp add: handle_quit_def quit_deleting_def act_bind_def act_then_def ask_def split: prod.split sum.split)
qed

text \<open>
  C8: Deletion over POP3.  Provided the limiter of the request rate, when it is switched on, always
  answers, a session that is logged in with a mailbox has, after any requests in any pieces that
  leave the connection open, exactly those messages marked that the requests taken one by one
  mark: DELE adds its message, RSET clears, everything else keeps the marks, and the grouping of
  consecutive DELE requests makes no difference.  QUIT then hands the messages at these positions
  of the mailbox as it was read at login, and no others, to the store for deletion, in one request
  for the account of the mailbox, and makes no request when there are none.  A failure of the store
  is the outcome of QUIT; otherwise it publishes the changes and tells the client the number of
  messages, or that some could not be deleted.
\<close>

theorem pop3_deletes_marked:
  assumes "sess_state s = Authenticated mb g t" and "rate_answers env"
    and "handle_conn env (map ReadBytes pieces) s = (ConnWaiting, es, s')"
    and "D = fold (mark_spec (length (mb_messages mb))) (snd (parse_requests (sess_receiver s) (concat pieces))) (marked mb)"
  shows "marks mb g t D s' \<and>
    handle_quit env s' = quit_deleting env (mb_account_id mb) (ids_at mb D) s'"
proof -
  have "marks mb g t (marked mb) s" using assms(1) by (auto simp: marks_def)
  from handle_conn_marks [OF assms(2) this assms(3)] have "marks mb g t D s'" by (simp add: assms(4))
  with quit_deletes_marked [OF this] show ?thesis by simp
qed

definition sample_mailbox :: "bool \<Rightarrow> mailbox" where
  "sample_mailbox b =
     \<lparr>mb_messages = [\<lparr>msg_id = 40, msg_uid = 1, msg_size = 10, msg_deleted = False\<rparr>,
                     \<lparr>msg_id = 41, msg_uid = 2, msg_size = 20, msg_deleted = b\<rparr>],
      mb_account_id = 7, mb_uid_validity = 1, mb_total = 2, mb_size = 30\<rparr>"

definition sample_session :: "bool \<Rightarrow> unit session" where
  "sample_session b = (new_session True (\<lambda>_. 0) ())\<lparr>sess_state := Authenticated (sample_mailbox b) None sample_token\<rparr>"

definition sample_pieces :: "bytes list" where
  "sample_pieces = [str ''DELE 1'' @ CRLF @ str ''RS'', str ''ET'' @ CRLF @ str ''DELE 2'' @ CRLF]"

lemma sample_parse:
  "pop3_parse PInit (str ''DELE 1'' @ CRLF @ str ''RS'') = (PInit, Some (Inr (Dele 1), str ''RS''))"
  "pop3_parse PInit (str ''RS'') = (PCommand [114, 115, 0, 0] 2, None)"
  "pop3_parse (PCommand [114, 115, 0, 0] 2) (str ''ET'' @ CRLF @ str ''DELE 2'' @ CRLF) =
     (PInit, Some (Inr Rset, str ''DELE 2'' @ CRLF))"
  "pop3_parse PInit (str ''DELE 2'' @ CRLF) = (PInit, Some (Inr (Dele 2), []))"
  by (simp_all add: str_def CRLF_def is_ascii_lower_def is_ascii_upper_def is_ascii_digit_def command_parse_def add_digit_def)

lemma sample_permission: "has_permission sample_token Pop3Dele"
  by code_simp

text \<open>The sample server goes on after DELE and RSET.\<close>

definition logged_in :: "unit session \<Rightarrow> bool" where
  "logged_in s \<longleftrightarrow> (\<exists>mb. sess_state s = Authenticated mb None sample_token)"

lemma sample_requests:
  assumes "logged_in s" and "r = Inr (Dele m) \<or> r = Inr Rset"
  shows "\<exists>s'. run_request (sample_server inbox) r s = (Inr Continue, s') \<and>
      sess_receiver s' = sess_receiver s \<and> logged_in s'"
  using assms
  by (auto simp: logged_in_def run_request_def act_bind_def act_then_def continue_after_def validate_transaction_def sample_server_def
    ret_def handle_dele_def handle_rset_def get_token_def get_mailbox_def put_mailbox_def lift_def
    assert_token_permission_def sample_permission write_bytes_def write_ok_def split: prod.split)

lemma sample_collect:
  "sess_receiver s = PInit \<Longrightarrow> collect env (str ''DELE 1'' @ CRLF @ str ''RS'') [] s =
     (Some [Inr (Dele 1)], s\<lparr>sess_receiver := PCommand [114, 115, 0, 0] 2\<rparr>)"
  "sess_receiver s = PCommand [114, 115, 0, 0] 2 \<Longrightarrow>
   collect env (str ''ET'' @ CRLF @ str ''DELE 2'' @ CRLF) [] s = (Some [Inr Rset, Inr (Dele 2)], s\<lparr>sess_receiver := PInit\<rparr>)"
  by (simp_all add: collect.simps [of env "str _ @ _"] collect.simps [of env "str ''RS''"] collect.simps [of env "[]"] sample_parse push_request_def)

lemma sample_conn:
  "fst (handle_conn (sample_server sample_inbox) (map ReadBytes sample_pieces) (sample_session False)) = ConnWaiting"
proof -
  let ?env = "sample_server sample_inbox" and ?s = "sample_session False"
  let ?s1 = "?s\<lparr>sess_receiver := PCommand [114, 115, 0, 0] 2\<rparr>"
  have st: "logged_in ?s1" and rc: "sess_receiver ?s = PInit"
    by (simp_all add: sample_session_def new_session_def logged_in_def)
  obtain s2 where r2: "run_request ?env (Inr (Dele 1)) ?s1 = (Inr Continue, s2)"
      "sess_receiver s2 = PCommand [114, 115, 0, 0] 2" "logged_in (s2\<lparr>sess_receiver := PInit\<rparr>)"
    using sample_requests [OF st, of "Inr (Dele 1)" 1 sample_inbox] by (auto simp: logged_in_def)
  obtain s3 where r3: "run_request ?env (Inr Rset) (s2\<lparr>sess_receiver := PInit\<rparr>) = (Inr Continue, s3)" "logged_in s3"
    using sample_requests [OF r2(3), of "Inr Rset" 0 sample_inbox] by auto
  obtain s4 where r4: "run_request ?env (Inr (Dele 2)) s3 = (Inr Continue, s4)"
    using sample_requests [OF r3(2), of "Inr (Dele 2)" 2 sample_inbox] by auto
  have i1: "ingest ?env (str ''DELE 1'' @ CRLF @ str ''RS'') ?s = (Some Continue, s2)"
    by (simp only: ingest_def sample_collect(1) [OF rc] prod.case option.case run_requests.simps r2(1) sum.case SessionResult.case)
  have i2: "ingest ?env (str ''ET'' @ CRLF @ str ''DELE 2'' @ CRLF) s2 = (Some Continue, s4)"
    by (simp only: ingest_def sample_collect(2) [OF r2(2)] prod.case option.case run_requests.simps r3(1) r4 sum.case SessionResult.case)
  have ne: "str ''DELE 1'' @ CRLF @ str ''RS'' \<noteq> []" "str ''ET'' @ CRLF @ str ''DELE 2'' @ CRLF \<noteq> []"
    by (simp_all add: str_def)
  show ?thesis
    by (simp only: sample_pieces_def list.map handle_conn.simps i1 i2 ne not_False_eq_True if_True prod.case option.case SessionResult.case fst_conv)
qed

lemma sample_parse_requests:
  "parse_requests PInit (str ''DELE 1'' @ CRLF @ str ''RS'') = (PCommand [114, 115, 0, 0] 2, [Inr (Dele 1)])"
  "parse_requests (PCommand [114, 115, 0, 0] 2) (str ''ET'' @ CRLF @ str ''DELE 2'' @ CRLF) = (PInit, [Inr Rset, Inr (Dele 2)])"
proof -
  note step = parse_requests.simps [unfolded Let_def]
  have "parse_requests PInit (str ''RS'') = (PCommand [114, 115, 0, 0] 2, [])"
    and "parse_requests PInit (str ''DELE 2'' @ CRLF) = (PInit, [Inr (Dele 2)])"
    by (subst step, simp only: sample_parse, simp)+
  then show "parse_requests PInit (str ''DELE 1'' @ CRLF @ str ''RS'') = (PCommand [114, 115, 0, 0] 2, [Inr (Dele 1)])"
    and "parse_requests (PCommand [114, 115, 0, 0] 2) (str ''ET'' @ CRLF @ str ''DELE 2'' @ CRLF) = (PInit, [Inr Rset, Inr (Dele 2)])"
    by (subst step, simp only: sample_parse, simp)+
qed

lemma sample_marks:
  "fold (mark_spec 2) (snd (parse_requests PInit (concat sample_pieces))) {} = {1}"
proof -
  have "concat sample_pieces = (str ''DELE 1'' @ CRLF @ str ''RS'') @ (str ''ET'' @ CRLF @ str ''DELE 2'' @ CRLF)"
    by (simp add: sample_pieces_def)
  then have "parse_requests PInit (concat sample_pieces) = (PInit, [Inr (Dele 1), Inr Rset, Inr (Dele 2)])"
    using parse_requests_append [of PInit "str ''DELE 1'' @ CRLF @ str ''RS''" "str ''ET'' @ CRLF @ str ''DELE 2'' @ CRLF"]
    by (simp add: sample_parse_requests)
  then show ?thesis by (simp add: message_index_def)
qed

theorem pop3_deletes_marked_witness:
  "\<exists>es s'. handle_conn (sample_server sample_inbox) (map ReadBytes sample_pieces) (sample_session False) = (ConnWaiting, es, s') \<and>
     marks (sample_mailbox False) None sample_token {1} s' \<and>
     handle_quit (sample_server sample_inbox) s' = quit_deleting (sample_server sample_inbox) 7 {41} s'"
proof -
  obtain es s' where c: "handle_conn (sample_server sample_inbox) (map ReadBytes sample_pieces) (sample_session False) =
      (ConnWaiting, es, s')"
    using sample_conn by (metis prod.collapse)
  have st: "sess_state (sample_session False) = Authenticated (sample_mailbox False) None sample_token"
    by (simp add: sample_session_def)
  have D: "{1} = fold (mark_spec (length (mb_messages (sample_mailbox False))))
      (snd (parse_requests (sess_receiver (sample_session False)) (concat sample_pieces))) (marked (sample_mailbox False))"
  proof -
    have "marked (sample_mailbox False) = {}" by (auto simp: marked_def sample_mailbox_def less_Suc_eq nth_Cons')
    moreover have "length (mb_messages (sample_mailbox False)) = 2" "sess_receiver (sample_session False) = PInit"
      by (simp_all add: sample_mailbox_def sample_session_def new_session_def)
    ultimately show ?thesis using sample_marks by simp
  qed
  have "rate_answers (sample_server sample_inbox)" by (simp add: rate_answers_def sample_server_def)
  from pop3_deletes_marked [OF st this c D] c show ?thesis
    by (auto simp: ids_at_def sample_mailbox_def)
qed

end
