(* ===== verification/Spec2Isabelle.thy ===== *)
theory Spec2Isabelle
  imports JmapIds TokenRevision AccessControl ExprIfBlock Pop3Privacy Pop3Deletion
begin

text \<open>
  A verification library for the Stalwart mail server (crates under \<^verbatim>\<open>src/crates\<close>).
\<close>

end
